(* ===== verification/Prelude.thy ===== *)
theory Prelude
  imports Main "HOL-Library.Sublist" "HOL-Library.List_Lexorder" "HOL-Library.Char_ord"
begin

text \<open>
  What the whole development shares: the byte order on strings (a Go string is a byte
  sequence and Go compares strings byte by byte, which is the lexicographic order on
  \<open>char list\<close> of \<open>List_Lexorder\<close> over \<open>Char_ord\<close>), the collections that carry the
  component proofs, the error monad \<open>'s \<Rightarrow> ('e + 'a) \<times> 's\<close> in which every stateful
  operation is written, and generic lemmas on sorted lists, prefixes and association lists.
\<close>

section \<open>Collections\<close>

named_theorems op_defs \<open>definitions of the operations of a component, for unfolding\<close>
named_theorems pres \<open>preservation of a component's invariant by its operations\<close>

section \<open>Stateful computations that may fail\<close>

type_synonym ('s, 'e, 'a) act = "'s \<Rightarrow> ('e + 'a) \<times> 's"

text \<open>
  Go's \<open>x, err := m(); if err != nil { return err }; \<dots>\<close>: the state an operation left
  behind stays even where it failed.
\<close>

definition andThen :: "('s, 'e, 'a) act \<Rightarrow> ('a \<Rightarrow> ('s, 'e, 'b) act) \<Rightarrow> ('s, 'e, 'b) act" where
  "andThen m f s = (case m s of (Inl e, t) \<Rightarrow> (Inl e, t) | (Inr x, t) \<Rightarrow> f x t)"

definition ret :: "'a \<Rightarrow> ('s, 'e, 'a) act" where
  "ret x s = (Inr x, s)"

definition throw :: "'e \<Rightarrow> ('s, 'e, 'a) act" where
  "throw e s = (Inl e, s)"

text \<open>A check that does not touch the state.\<close>

definition check :: "'e option \<Rightarrow> ('s, 'e, unit) act" where
  "check r s = (case r of Some e \<Rightarrow> (Inl e, s) | None \<Rightarrow> (Inr (), s))"

lemma ret_apply [simp]: "ret x s = (Inr x, s)"
  by (simp add: ret_def)

lemma throw_apply [simp]: "throw e s = (Inl e, s)"
  by (simp add: throw_def)

lemma check_None [simp]: "check None s = (Inr (), s)"
  by (simp add: check_def)

lemma check_Some [simp]: "check (Some e) s = (Inl e, s)"
  by (simp add: check_def)

lemma andThen_Inl [simp]: "m s = (Inl e, t) \<Longrightarrow> andThen m f s = (Inl e, t)"
  by (simp add: andThen_def)

lemma andThen_Inr [simp]: "m s = (Inr x, t) \<Longrightarrow> andThen m f s = f x t"
  by (simp add: andThen_def)

lemma andThen_InrE:
  assumes "andThen m f s = (Inr y, u)"
  obtains x t where "m s = (Inr x, t)" and "f x t = (Inr y, u)"
  using assms by (auto simp: andThen_def split: prod.splits sum.splits)

lemma check_InrE: "check r s = (Inr u, t) \<Longrightarrow> (r = None \<Longrightarrow> t = s \<Longrightarrow> P) \<Longrightarrow> P"
  by (cases r) auto

lemma sum_Inl_or_Inr: "(\<exists>e. r = Inl e) \<or> (\<exists>x. r = Inr x)"
  by (cases r) auto

section \<open>Lists\<close>

lemma sorted_append_iff:
  "sorted (xs @ ys) \<longleftrightarrow> sorted xs \<and> sorted ys \<and> (\<forall>x\<in>set xs. \<forall>y\<in>set ys. x \<le> y)"
  for xs ys :: "'a::linorder list"
  by (simp add: sorted_append)

lemma sorted_distinct_set_eq:
  fixes xs ys :: "'a::linorder list"
  assumes "sorted xs" "distinct xs" "sorted ys" "distinct ys" "set xs = set ys"
  shows "xs = ys"
  using assms by (rule sorted_distinct_set_unique)

lemma find_append_one:
  "find P (xs @ [x]) = (case find P xs of Some y \<Rightarrow> Some y | None \<Rightarrow> if P x then Some x else None)"
  by (induction xs) auto

lemma filter_drop_take_interval:
  assumes "\<And>i. i < length xs \<Longrightarrow> P (xs ! i) \<longleftrightarrow> lo \<le> i \<and> i < hi" and "lo \<le> hi"
  shows "filter P xs = take (hi - lo) (drop lo xs)"
  using assms
proof (induction xs arbitrary: lo hi)
  case Nil
  then show ?case by simp
next
  case (Cons x xs)
  have tail: "P (xs ! i) \<longleftrightarrow> lo - 1 \<le> i \<and> i < hi - 1" if "i < length xs" for i
    using Cons.prems(1)[of "Suc i"] that by auto
  have IH: "filter P xs = take ((hi - 1) - (lo - 1)) (drop (lo - 1) xs)"
    using tail Cons.prems(2) by (intro Cons.IH) auto
  have P0: "P x \<longleftrightarrow> lo = 0 \<and> 0 < hi"
    using Cons.prems(1)[of 0] by auto
  show ?case
  proof (cases lo)
    case 0
    then show ?thesis using IH P0 by (cases hi) auto
  next
    case (Suc l)
    then show ?thesis using IH P0 Cons.prems(2) by (cases hi) auto
  qed
qed

section \<open>Prefixes and the byte order\<close>

lemma prefix_ConsE:
  assumes "prefix (x # p) s"
  obtains s' where "s = x # s'" and "prefix p s'"
  using assms by (cases s) auto

text \<open>The strings that carry a prefix are an interval of the byte order.\<close>

lemma prefix_imp_le: "prefix p s \<Longrightarrow> p \<le> s"
  for p s :: "'a::linorder list"
proof (induction p arbitrary: s)
  case Nil
  then show ?case by (cases s) auto
next
  case (Cons x p)
  then show ?case by (cases s) auto
qed

lemma prefix_le_between:
  fixes p s t :: "'a::linorder list"
  assumes "prefix p s" and "s \<le> t" and "\<not> prefix p t" and "prefix p u"
  shows "u < t"
  using assms
proof (induction p arbitrary: s t u)
  case Nil
  then show ?case by simp
next
  case (Cons x p)
  from Cons.prems(1) obtain s' where s: "s = x # s'" "prefix p s'" by (rule prefix_ConsE)
  from Cons.prems(4) obtain u' where u: "u = x # u'" "prefix p u'" by (rule prefix_ConsE)
  obtain y t' where t: "t = y # t'"
    using Cons.prems(2) s by (cases t) auto
  show ?case
  proof (cases "x = y")
    case True
    then have "s' \<le> t'" "\<not> prefix p t'" using Cons.prems(2,3) s t by auto
    then have "u' < t'" using Cons.IH s u by blast
    then show ?thesis using True u t by simp
  next
    case False
    then show ?thesis using Cons.prems(2) s u t by simp
  qed
qed

end
