(* ===== verification/GoNum.thy ===== *)
theory GoNum
  imports GoLib
begin

text \<open>
  Numbers in Go's standard library: decimal printing (\<open>strconv.Itoa\<close>, \<open>FormatInt\<close>, \<open>%d\<close>),
  \<open>strconv.ParseInt\<close> / \<open>ParseUint\<close> in base 10 with their range checks, \<open>strconv.ParseBool\<close>, and
  the binary search loop of \<open>slices.BinarySearch\<close> and \<open>BinarySearchFunc\<close>.
\<close>

section \<open>Decimal numerals\<close>

definition digit_char :: "nat \<Rightarrow> char" where
  "digit_char d = char_of (48 + d)"

fun nat_str :: "nat \<Rightarrow> string" where
  "nat_str n = (if n < 10 then [digit_char n] else nat_str (n div 10) @ [digit_char (n mod 10)])"

declare nat_str.simps [simp del]

definition int_str :: "int \<Rightarrow> string" where
  "int_str i = (if i < 0 then ''-'' @ nat_str (nat (- i)) else nat_str (nat i))"

definition digit_val :: "char \<Rightarrow> nat option" where
  "digit_val c = (let n = (of_char c :: nat) in if 48 \<le> n \<and> n \<le> 57 then Some (n - 48) else None)"

fun digits_acc :: "nat \<Rightarrow> string \<Rightarrow> nat option" where
  "digits_acc a [] = Some a"
| "digits_acc a (c # s) =
     (case digit_val c of None \<Rightarrow> None | Some d \<Rightarrow> digits_acc (10 * a + d) s)"

lemma digit_val_digit_char [simp]: "d < 10 \<Longrightarrow> digit_val (digit_char d) = Some d"
  by (simp add: digit_val_def digit_char_def)

lemma digits_acc_append:
  "digits_acc a (s @ t) = (case digits_acc a s of None \<Rightarrow> None | Some b \<Rightarrow> digits_acc b t)"
  by (induction s arbitrary: a) (auto split: option.splits)

lemma digits_acc_nat_str [simp]: "digits_acc 0 (nat_str n) = Some n"
proof (induction n rule: nat_str.induct)
  case (1 n)
  show ?case
  proof (cases "n < 10")
    case True
    then show ?thesis by (subst nat_str.simps) simp
  next
    case False
    then show ?thesis using 1 by (subst nat_str.simps) (simp add: digits_acc_append)
  qed
qed

lemma nat_str_not_Nil [simp]: "nat_str n \<noteq> []"
  by (subst nat_str.simps) simp

lemma nat_str_digits: "c \<in> set (nat_str n) \<Longrightarrow> \<exists>d<10. c = digit_char d"
proof (induction n rule: nat_str.induct)
  case (1 n)
  show ?case
  proof (cases "n < 10")
    case True
    then show ?thesis using 1 nat_str.simps[of n] by auto
  next
    case False
    then consider "c \<in> set (nat_str (n div 10))" | "c = digit_char (n mod 10)"
      using "1.prems" nat_str.simps[of n] by auto
    then show ?thesis
    proof cases
      case a: 1
      then show ?thesis using "1.IH"[OF False] by blast
    next
      case b: 2
      then show ?thesis by (intro exI[of _ "n mod 10"]) simp
    qed
  qed
qed

lemma digit_char_eq_iff [simp]: "d < 10 \<Longrightarrow> e < 10 \<Longrightarrow> digit_char d = digit_char e \<longleftrightarrow> d = e"
  by (metis digit_val_digit_char option.inject)

lemma digit_char_neq:
  assumes "c \<in> {CHR '' '', CHR ''-'', CHR ''+'', CHR ''?'', CHR ''$'', CHR '','', CHR 0x0A}" "d < 10"
  shows "digit_char d \<noteq> c"
proof
  assume "digit_char d = c"
  then have "digit_val c = Some d" using assms(2) digit_val_digit_char by blast
  then show False using assms(1) by (auto simp: digit_val_def)
qed

lemma nat_str_notin:
  assumes "c \<in> {CHR '' '', CHR ''-'', CHR ''+'', CHR ''?'', CHR ''$'', CHR '','', CHR 0x0A}"
  shows "c \<notin> set (nat_str n)"
  using nat_str_digits digit_char_neq[OF assms] by blast

lemma nat_str_inj [simp]: "nat_str m = nat_str n \<longleftrightarrow> m = n"
  by (metis digits_acc_nat_str option.inject)

section \<open>Parsing\<close>

definition ParseUint :: "nat \<Rightarrow> string \<Rightarrow> nat option" where
  "ParseUint bits s =
     (if s = [] then None
      else case digits_acc 0 s of None \<Rightarrow> None
        | Some n \<Rightarrow> if n < 2 ^ bits then Some n else None)"

definition ParseInt :: "nat \<Rightarrow> string \<Rightarrow> int option" where
  "ParseInt bits s =
     (let neg = (s \<noteq> [] \<and> hd s = CHR ''-'');
          signed = (s \<noteq> [] \<and> (hd s = CHR ''-'' \<or> hd s = CHR ''+''));
          body = (if signed then tl s else s)
      in if body = [] then None
         else case digits_acc 0 body of None \<Rightarrow> None
           | Some n \<Rightarrow>
               if neg then (if n \<le> 2 ^ (bits - 1) then Some (- int n) else None)
               else (if n < 2 ^ (bits - 1) then Some (int n) else None))"

definition ParseBool :: "string \<Rightarrow> bool option" where
  "ParseBool s =
     (if s \<in> set [''1'', ''t'', ''T'', ''TRUE'', ''true'', ''True''] then Some True
      else if s \<in> set [''0'', ''f'', ''F'', ''FALSE'', ''false'', ''False''] then Some False
      else None)"

lemma hd_nat_str: "hd (nat_str n) \<noteq> CHR ''-'' \<and> hd (nat_str n) \<noteq> CHR ''+''"
  using nat_str_notin[of "CHR ''-''" n] nat_str_notin[of "CHR ''+''" n]
  by (cases "nat_str n") auto

lemma ParseInt_int_str:
  assumes "- (2 ^ (bits - 1)) \<le> i" and "i < 2 ^ (bits - 1)"
  shows "ParseInt bits (int_str i) = Some i"
proof (cases "i < 0")
  case True
  have "nat (- i) \<le> 2 ^ (bits - 1)"
    using assms(1) True by (simp add: nat_le_iff)
  then show ?thesis using True by (simp add: ParseInt_def int_str_def)
next
  case False
  have "nat i < 2 ^ (bits - 1)"
    using assms(2) False by (simp add: nat_less_iff)
  then show ?thesis using False hd_nat_str by (simp add: ParseInt_def int_str_def)
qed

lemma ParseInt64_int_str [simp]:
  "min_int64 \<le> i \<Longrightarrow> i \<le> max_int64 \<Longrightarrow> ParseInt 64 (int_str i) = Some i"
  by (rule ParseInt_int_str) (auto simp: min_int64_def max_int64_def)

lemma int_str_not_Nil [simp]: "int_str i \<noteq> []"
  by (simp add: int_str_def)

lemma of_nat_bound:
  "n \<le> 2 ^ k \<Longrightarrow> int n \<le> 2 ^ k" "n < 2 ^ k \<Longrightarrow> int n < 2 ^ k"
  by (metis of_nat_le_iff of_nat_numeral of_nat_power) (metis of_nat_less_iff of_nat_numeral of_nat_power)

lemma ParseInt_range:
  assumes "ParseInt bits s = Some i"
  shows "- (2 ^ (bits - 1)) \<le> i \<and> i < 2 ^ (bits - 1)"
proof -
  from assms consider n where "i = - int n" "n \<le> 2 ^ (bits - 1)"
    | n where "i = int n" "n < 2 ^ (bits - 1)"
    by (auto simp: ParseInt_def Let_def split: if_splits option.splits)
  then show ?thesis
  proof cases
    case 1
    moreover have "(0::int) < 2 ^ (bits - 1)" by simp
    ultimately show ?thesis using of_nat_bound(1)[OF 1(2)] by linarith
  next
    case 2
    moreover have "(0::int) < 2 ^ (bits - 1)" by simp
    ultimately show ?thesis using of_nat_bound(2)[OF 2(2)] by linarith
  qed
qed

section \<open>Binary search\<close>

text \<open>
  The loop of \<open>slices.BinarySearch\<close>: \<open>for i < j { h := (i+j)>>1; if lt(h) { i = h+1 } else { j = h } }\<close>,
  where \<open>lt h\<close> is the comparison of the element at \<open>h\<close> with the target.
\<close>

function bsearch :: "(nat \<Rightarrow> bool) \<Rightarrow> nat \<Rightarrow> nat \<Rightarrow> nat" where
  "bsearch lt i j =
     (if i < j then (let h = (i + j) div 2 in
        if lt h then bsearch lt (h + 1) j else bsearch lt i h)
      else i)"
  by pat_completeness auto
termination
  by (relation "measure (\<lambda>(lt, i, j). j - i)") auto

declare bsearch.simps [simp del]

text \<open>On a predicate that holds of an initial stretch the loop finds where it stops holding.\<close>

lemma bsearch_partition:
  assumes "\<And>a b. a \<le> b \<Longrightarrow> b < j \<Longrightarrow> lt b \<Longrightarrow> lt a" and "i \<le> j"
  shows "i \<le> bsearch lt i j \<and> bsearch lt i j \<le> j \<and>
    (\<forall>k. i \<le> k \<longrightarrow> k < j \<longrightarrow> (lt k \<longleftrightarrow> k < bsearch lt i j))"
  using assms
proof (induction lt i j rule: bsearch.induct)
  case (1 lt i j)
  show ?case
  proof (cases "i < j")
    case False
    then have "bsearch lt i j = i" by (simp add: bsearch.simps[of lt i j])
    then show ?thesis using False "1.prems"(2) by simp
  next
    case True
    define h where "h = (i + j) div 2"
    have h: "i \<le> h" "h < j" using True by (auto simp: h_def)
    show ?thesis
    proof (cases "lt h")
      case L: True
      have eq: "bsearch lt i j = bsearch lt (h + 1) j"
        using True L by (simp add: bsearch.simps[of lt i j] h_def Let_def)
      have IH: "h + 1 \<le> bsearch lt (h + 1) j \<and> bsearch lt (h + 1) j \<le> j \<and>
          (\<forall>k. h + 1 \<le> k \<longrightarrow> k < j \<longrightarrow> (lt k \<longleftrightarrow> k < bsearch lt (h + 1) j))"
        using "1.IH"(1)[OF True h_def L "1.prems"(1)] h by auto
      have low: "lt k" if "k \<le> h" for k using "1.prems"(1)[OF that] h L by blast
      have "lt k \<longleftrightarrow> k < bsearch lt (h + 1) j" if "k < j" for k
        using IH low that by (cases "k \<le> h") auto
      then show ?thesis unfolding eq using IH h by auto
    next
      case R: False
      have eq: "bsearch lt i j = bsearch lt i h"
        using True R by (simp add: bsearch.simps[of lt i j] h_def Let_def)
      have IH: "i \<le> bsearch lt i h \<and> bsearch lt i h \<le> h \<and>
          (\<forall>k. i \<le> k \<longrightarrow> k < h \<longrightarrow> (lt k \<longleftrightarrow> k < bsearch lt i h))"
        using "1.IH"(2)[OF True h_def R] "1.prems"(1) h by auto
      have high: "\<not> lt k" if "h \<le> k" "k < j" for k using "1.prems"(1)[OF that] R by blast
      have "lt k \<longleftrightarrow> k < bsearch lt i h" if "i \<le> k" "k < j" for k
        using IH high that by (cases "h \<le> k") auto
      then show ?thesis unfolding eq using IH h by auto
    qed
  qed
qed

end
