(* ===== verification/JsonText.thy ===== *)
theory JsonText
  imports GoNum
begin

text \<open>
  The part of Go's \<open>encoding/json/jsontext\<close> that \<open>store/validate.go\<close> uses:
  \<open>Decoder.ReadValue\<close> on a byte string, as a recogniser that returns the bytes after the
  value. It keeps jsontext's defaults: strings must be valid UTF-8, a \<open>\u\<close> escape must not be
  a lone surrogate, the names of one object must be distinct (compared after unescaping),
  and nesting is bounded by 10000. The texts of jsontext's errors are not modelled.
\<close>

section \<open>UTF-8\<close>

abbreviation byte :: "char \<Rightarrow> nat" where
  "byte c \<equiv> of_char c"

definition is_cont :: "char \<Rightarrow> bool" where
  "is_cont c \<longleftrightarrow> 128 \<le> byte c \<and> byte c < 192"

text \<open>The length of the well-formed UTF-8 sequence at the front (table 3-7 of the Unicode standard).\<close>

fun utf8_len :: "string \<Rightarrow> nat option" where
  "utf8_len [] = None"
| "utf8_len (a # s) =
     (let n = byte a in
      if n < 128 then Some 1
      else if 194 \<le> n \<and> n < 224 then
        (case s of b # _ \<Rightarrow> if is_cont b then Some 2 else None | [] \<Rightarrow> None)
      else if 224 \<le> n \<and> n < 240 then
        (case s of b # c # _ \<Rightarrow>
           if is_cont b \<and> is_cont c \<and> (n = 224 \<longrightarrow> 160 \<le> byte b) \<and> (n = 237 \<longrightarrow> byte b < 160)
           then Some 3 else None
         | _ \<Rightarrow> None)
      else if 240 \<le> n \<and> n < 245 then
        (case s of b # c # d # _ \<Rightarrow>
           if is_cont b \<and> is_cont c \<and> is_cont d \<and> (n = 240 \<longrightarrow> 144 \<le> byte b) \<and>
              (n = 244 \<longrightarrow> byte b < 144)
           then Some 4 else None
         | _ \<Rightarrow> None)
      else None)"

declare utf8_len.simps(2) [simp del]

definition utf8_encode :: "nat \<Rightarrow> string" where
  "utf8_encode n =
     (if n < 128 then [char_of n]
      else if n < 2048 then [char_of (192 + n div 64), char_of (128 + n mod 64)]
      else if n < 65536 then
        [char_of (224 + n div 4096), char_of (128 + n div 64 mod 64), char_of (128 + n mod 64)]
      else [char_of (240 + n div 262144), char_of (128 + n div 4096 mod 64),
            char_of (128 + n div 64 mod 64), char_of (128 + n mod 64)])"

section \<open>Strings\<close>

definition hex_val :: "char \<Rightarrow> nat option" where
  "hex_val c =
     (let n = byte c in
      if 48 \<le> n \<and> n < 58 then Some (n - 48)
      else if 65 \<le> n \<and> n < 71 then Some (n - 55)
      else if 97 \<le> n \<and> n < 103 then Some (n - 87)
      else None)"

fun hex4 :: "string \<Rightarrow> (nat \<times> string) option" where
  "hex4 (a # b # c # d # s) =
     (case (hex_val a, hex_val b, hex_val c, hex_val d) of
        (Some w, Some x, Some y, Some z) \<Rightarrow> Some (4096 * w + 256 * x + 16 * y + z, s)
      | _ \<Rightarrow> None)"
| "hex4 _ = None"

definition unicode_escape :: "string \<Rightarrow> (string \<times> string) option" where
  "unicode_escape s =
     (case hex4 s of None \<Rightarrow> None
      | Some (hi, r) \<Rightarrow>
          if 55296 \<le> hi \<and> hi < 56320 then
            (case r of a # b # r' \<Rightarrow>
               if a = CHR 0x5C \<and> b = CHR ''u'' then
                 (case hex4 r' of None \<Rightarrow> None
                  | Some (lo, r'') \<Rightarrow>
                      if 56320 \<le> lo \<and> lo < 57344
                      then Some (utf8_encode (65536 + (hi - 55296) * 1024 + (lo - 56320)), r'')
                      else None)
               else None
             | _ \<Rightarrow> None)
          else if 56320 \<le> hi \<and> hi < 57344 then None
          else Some (utf8_encode hi, r))"

fun escape :: "string \<Rightarrow> (string \<times> string) option" where
  "escape [] = None"
| "escape (c # s) =
     (if c \<in> {CHR 0x22, CHR 0x5C, CHR ''/''} then Some ([c], s)
      else if c = CHR ''b'' then Some ([CHR 0x08], s)
      else if c = CHR ''f'' then Some ([CHR 0x0C], s)
      else if c = CHR ''n'' then Some ([CHR 0x0A], s)
      else if c = CHR ''r'' then Some ([CHR 0x0D], s)
      else if c = CHR ''t'' then Some ([CHR 0x09], s)
      else if c = CHR ''u'' then unicode_escape s
      else None)"

lemma hex4_shorter: "hex4 s = Some (n, r) \<Longrightarrow> length r < length s"
  by (cases s rule: hex4.cases) (auto split: option.splits)

lemma escape_shorter: "escape s = Some (u, r) \<Longrightarrow> length r < length s"
  by (cases s)
     (auto simp: unicode_escape_def split: if_splits option.splits list.splits
       dest!: hex4_shorter)

text \<open>The body of a string after its opening quote: the unescaped bytes and what follows.\<close>

function jstring :: "string \<Rightarrow> (string \<times> string) option" where
  "jstring s = (case s of [] \<Rightarrow> None
     | c # t \<Rightarrow>
         if c = CHR 0x22 then Some ([], t)
         else if c = CHR 0x5C then
           (case escape t of None \<Rightarrow> None
            | Some (u, r) \<Rightarrow> map_option (apfst (append u)) (jstring r))
         else if byte c < 32 then None
         else (case utf8_len s of None \<Rightarrow> None
            | Some n \<Rightarrow> map_option (apfst (append (take n s))) (jstring (drop (n - 1) t))))"
  by pat_completeness auto
termination
  by (relation "measure length") (auto dest: escape_shorter)

declare jstring.simps [simp del]

lemma jstring_shorter: "jstring s = Some (u, r) \<Longrightarrow> length r < length s"
proof (induction s arbitrary: u rule: jstring.induct)
  case (1 s)
  obtain c t where s: "s = c # t" using "1.prems" by (cases s) (auto simp: jstring.simps)
  note eq = "1.prems"[unfolded s jstring.simps[of "c # t"]]
  consider "c = CHR 0x22"
    | e v where "c \<noteq> CHR 0x22" "c = CHR 0x5C" "escape t = Some (e, v)" "\<exists>w. jstring v = Some (w, r)"
    | n where "c \<noteq> CHR 0x22" "c \<noteq> CHR 0x5C" "\<not> byte c < 32" "utf8_len s = Some n"
        "\<exists>w. jstring (drop (n - 1) t) = Some (w, r)"
    using eq s by (auto split: if_splits option.splits)
  then show ?case
  proof cases
    case 1
    then show ?thesis using eq s by simp
  next
    case 2
    then show ?thesis using "1.IH"(1)[OF s 2(1,2,3) refl] escape_shorter[OF 2(3)] s by auto
  next
    case 3
    then show ?thesis using "1.IH"(2)[OF s 3(1,2,3,4)] s by fastforce
  qed
qed

section \<open>Numbers and literals\<close>

definition is_digit :: "char \<Rightarrow> bool" where
  "is_digit c \<longleftrightarrow> 48 \<le> byte c \<and> byte c < 58"

definition digits1 :: "string \<Rightarrow> string option" where
  "digits1 s = (case s of [] \<Rightarrow> None | c # t \<Rightarrow> if is_digit c then Some (dropWhile is_digit t) else None)"

definition jint_part :: "string \<Rightarrow> string option" where
  "jint_part s = (case s of [] \<Rightarrow> None | c # t \<Rightarrow> if c = CHR ''0'' then Some t else digits1 s)"

definition jfrac_part :: "string \<Rightarrow> string option" where
  "jfrac_part s = (case s of c # t \<Rightarrow> if c = CHR ''.'' then digits1 t else Some s | [] \<Rightarrow> Some s)"

definition jexp_part :: "string \<Rightarrow> string option" where
  "jexp_part s = (case s of c # t \<Rightarrow>
       if c = CHR ''e'' \<or> c = CHR ''E'' then
         digits1 (case t of d # u \<Rightarrow> if d = CHR ''+'' \<or> d = CHR ''-'' then u else t | [] \<Rightarrow> t)
       else Some s
     | [] \<Rightarrow> Some s)"

definition jnumber :: "string \<Rightarrow> string option" where
  "jnumber s =
     (let t = (case s of c # u \<Rightarrow> if c = CHR ''-'' then u else s | [] \<Rightarrow> s)
      in Option.bind (jint_part t) (\<lambda>t. Option.bind (jfrac_part t) jexp_part))"

definition literal :: "string \<Rightarrow> string \<Rightarrow> string option" where
  "literal w s = (if prefix w s then Some (drop (length w) s) else None)"

lemma digits1_shorter: "digits1 s = Some r \<Longrightarrow> length r < length s"
  by (auto simp: digits1_def less_Suc_eq_le length_dropWhile_le split: list.splits if_splits)

lemma jint_part_shorter: "jint_part s = Some r \<Longrightarrow> length r < length s"
  by (auto simp: jint_part_def dest: digits1_shorter split: list.splits if_splits)

lemma jfrac_part_le: "jfrac_part s = Some r \<Longrightarrow> length r \<le> length s"
  by (auto simp: jfrac_part_def dest: digits1_shorter split: list.splits if_splits)

lemma jexp_part_le: "jexp_part s = Some r \<Longrightarrow> length r \<le> length s"
  by (auto simp: jexp_part_def dest!: digits1_shorter split: list.splits if_splits)

lemma jnumber_shorter:
  assumes "jnumber s = Some r"
  shows "length r < length s"
proof -
  define t where "t = (case s of c # u \<Rightarrow> if c = CHR ''-'' then u else s | [] \<Rightarrow> s)"
  have t: "length t \<le> length s" by (auto simp: t_def split: list.splits)
  obtain a b where "jint_part t = Some a" "jfrac_part a = Some b" "jexp_part b = Some r"
    using assms by (auto simp: jnumber_def Let_def t_def[symmetric] bind_eq_Some_conv)
  then show ?thesis using t jint_part_shorter jfrac_part_le jexp_part_le
    by (meson le_trans less_le_trans not_le)
qed

section \<open>Values\<close>

definition skip_ws :: "string \<Rightarrow> string" where
  "skip_ws s = dropWhile (\<lambda>c. c \<in> {CHR 0x20, CHR 0x09, CHR 0x0A, CHR 0x0D}) s"

definition max_depth :: nat where "max_depth = 10000"

text \<open>
  The first argument is fuel, the second the nesting depth. \<open>2 * length s + 1\<close> steps are
  enough for \<open>s\<close> (lemma \<open>jvalue_fuel\<close> below).
\<close>

fun jvalue :: "nat \<Rightarrow> nat \<Rightarrow> string \<Rightarrow> string option"
  and jelems :: "nat \<Rightarrow> nat \<Rightarrow> string \<Rightarrow> string option"
  and jmembers :: "nat \<Rightarrow> nat \<Rightarrow> string list \<Rightarrow> string \<Rightarrow> string option" where
  "jvalue 0 d s = None"
| "jvalue (Suc f) d s = (case skip_ws s of [] \<Rightarrow> None | c # t \<Rightarrow>
     if c = CHR 0x22 then map_option snd (jstring t)
     else if c = CHR ''{'' then
       (if d < max_depth
        then (case skip_ws t of [] \<Rightarrow> None
              | e # u \<Rightarrow> if e = CHR ''}'' then Some u else jmembers f (Suc d) [] t)
        else None)
     else if c = CHR ''['' then
       (if d < max_depth
        then (case skip_ws t of [] \<Rightarrow> None
              | e # u \<Rightarrow> if e = CHR '']'' then Some u else jelems f (Suc d) t)
        else None)
     else if c = CHR ''t'' then literal ''rue'' t
     else if c = CHR ''f'' then literal ''alse'' t
     else if c = CHR ''n'' then literal ''ull'' t
     else jnumber (c # t))"
| "jelems 0 d s = None"
| "jelems (Suc f) d s = (case jvalue f d s of None \<Rightarrow> None
     | Some r \<Rightarrow> (case skip_ws r of [] \<Rightarrow> None
        | c # t \<Rightarrow> if c = CHR '','' then jelems f d t
                 else if c = CHR '']'' then Some t else None))"
| "jmembers 0 d names s = None"
| "jmembers (Suc f) d names s = (case skip_ws s of [] \<Rightarrow> None | c # t \<Rightarrow>
     if c \<noteq> CHR 0x22 then None
     else (case jstring t of None \<Rightarrow> None
       | Some (name, r) \<Rightarrow>
           if name \<in> set names then None
           else (case skip_ws r of [] \<Rightarrow> None | e # u \<Rightarrow>
             if e \<noteq> CHR '':'' then None
             else (case jvalue f d u of None \<Rightarrow> None
               | Some v \<Rightarrow> (case skip_ws v of [] \<Rightarrow> None
                   | g # w \<Rightarrow> if g = CHR '','' then jmembers f d (name # names) w
                            else if g = CHR ''}'' then Some w else None)))))"

text \<open>
  \<open>ReadValue\<close>: \<open>Inl True\<close> is \<open>io.EOF\<close> (nothing but white space), \<open>Inl False\<close> a syntax
  error, \<open>Inr r\<close> a value followed by the bytes \<open>r\<close>.
\<close>

definition ReadValue :: "string \<Rightarrow> bool + string" where
  "ReadValue s =
     (if skip_ws s = [] then Inl True
      else case jvalue (2 * length s + 1) 0 s of None \<Rightarrow> Inl False | Some r \<Rightarrow> Inr r)"

lemma skip_ws_le: "length (skip_ws s) \<le> length s"
  by (simp add: skip_ws_def length_dropWhile_le)

lemma skip_ws_Cons: "skip_ws s = c # t \<Longrightarrow> length t < length s"
  using skip_ws_le[of s] by simp

lemma literal_le: "literal w s = Some r \<Longrightarrow> length r \<le> length s"
  by (auto simp: literal_def split: if_splits)

lemma jvalue_shorter:
  "jvalue f d s = Some r \<Longrightarrow> length r < length s"
  "jelems f d s = Some r \<Longrightarrow> length r < length s"
  "jmembers f d names s = Some r \<Longrightarrow> length r < length s"
proof (induction f arbitrary: d s r names)
  case 0
  { case 1 then show ?case by simp
  next case 2 then show ?case by simp
  next case 3 then show ?case by simp }
next
  case (Suc f)
  note IH = Suc.IH
  { case 1
    then obtain c t where ct: "skip_ws s = c # t" by (cases "skip_ws s") auto
    have *: "length t < length s" using ct by (rule skip_ws_Cons)
    have "length r < Suc (length t)" if "jnumber (c # t) = Some r"
      using jnumber_shorter[OF that] by simp
    then show ?case using 1 ct *
      by (fastforce split: if_splits list.splits
        dest: jstring_shorter literal_le skip_ws_Cons IH(2) IH(3))
  next
    case 2
    then show ?case
      by (fastforce split: option.splits list.splits if_splits dest: IH(1) IH(2) skip_ws_Cons)
  next
    case 3
    then show ?case
      by (fastforce split: option.splits list.splits if_splits
        dest: IH(1) IH(3) jstring_shorter skip_ws_Cons) }
qed

lemma jvalue_fuel:
  "2 * length s < f \<Longrightarrow> 2 * length s < f' \<Longrightarrow> jvalue f d s = jvalue f' d s"
  "2 * length s + 1 < f \<Longrightarrow> 2 * length s + 1 < f' \<Longrightarrow> jelems f d s = jelems f' d s"
  "2 * length s < f \<Longrightarrow> 2 * length s < f' \<Longrightarrow> jmembers f d names s = jmembers f' d names s"
proof (induction f arbitrary: d s f' names)
  case 0
  { case 1 then show ?case by simp
  next case 2 then show ?case by simp
  next case 3 then show ?case by simp }
next
  case (Suc f)
  { case 1
    then obtain g where g: "f' = Suc g" by (cases f') auto
    have "jelems f d' t = jelems g d' t" "jmembers f d' [] t = jmembers g d' [] t"
      if "skip_ws s = c # t" for c t d'
      using Suc.IH(2)[of t g d'] Suc.IH(3)[of t g d' "[]"] skip_ws_Cons[OF that] 1 g by auto
    then show ?case unfolding g by (auto split: list.splits)
  next
    case 2
    then obtain g where g: "f' = Suc g" by (cases f') auto
    have eq: "jvalue f d s = jvalue g d s" using Suc.IH(1)[of s g d] 2 g by auto
    have "jelems f d t = jelems g d t" if "jvalue g d s = Some r" "skip_ws r = c # t" for r c t
      using Suc.IH(2)[of t g d] jvalue_shorter(1)[OF that(1)] skip_ws_Cons[OF that(2)] 2 g by auto
    then show ?case unfolding g by (auto simp: eq split: option.splits list.splits)
  next
    case 3
    then obtain g where g: "f' = Suc g" by (cases f') auto
    have sub: "jvalue f d u = jvalue g d u \<and> length u < length s"
      if "skip_ws s = c # t" "jstring t = Some (name, r)" "skip_ws r = e # u" for c t name r e u
      using Suc.IH(1)[of u g d] skip_ws_Cons[OF that(1)] jstring_shorter[OF that(2)]
        skip_ws_Cons[OF that(3)] 3 g by auto
    have "jmembers f d ns w = jmembers g d ns w"
      if "jvalue g d u = Some v" "skip_ws v = h # w" "length u < length s" for u v h w ns
      using Suc.IH(3)[of w g d ns] jvalue_shorter(1)[OF that(1)] skip_ws_Cons[OF that(2)] that(3)
        3 g by auto
    then show ?case unfolding g using sub by (fastforce split: option.splits list.splits) }
qed

end
