(* ===== verification/Store_Types.thy ===== *)
theory Store_Types
  imports JsonText
begin

text \<open>
  The data of package \<open>store\<close> (\<open>store/store.go\<close>, \<open>store/errors.go\<close>) and the validation that every
  write runs before it touches the database (\<open>store/validate.go\<close>). Go strings are byte strings,
  so the length limits are in bytes. The YAML parser is \<open>gopkg.in/yaml.v3\<close>, which is not part
  of the repository: it is the parameter \<open>yaml\<close> of \<open>ValidateValue\<close>, giving the text of the
  error for a document that does not parse and \<open>None\<close> for one that does.
\<close>

section \<open>Data\<close>

record Change =
  Author :: string
  Comment :: string

type_synonym Format = string

definition FormatRaw :: Format where "FormatRaw = ''raw''"
definition FormatJSON :: Format where "FormatJSON = ''json''"
definition FormatYAML :: Format where "FormatYAML = ''yaml''"

datatype Op = OpSet | OpDelete | OpRollback

fun op_text :: "Op \<Rightarrow> string" where
  "op_text OpSet = ''set''"
| "op_text OpDelete = ''delete''"
| "op_text OpRollback = ''rollback''"

record Config =
  cKey :: string
  cValue :: string
  cFormat :: Format
  cUpdatedAt :: int
  cUpdatedBy :: string

record HistoryEntry =
  hID :: int
  hKey :: string
  hValue :: string
  hFormat :: Format
  hVersion :: int
  hOp :: Op
  hComment :: string
  hCreatedAt :: int
  hCreatedBy :: string

record Result =
  Revision :: int
  Version :: int

section \<open>Errors\<close>

datatype key_fault = KeyEmpty | KeyTooLong nat | KeyCharset string

datatype json_fault = JSONEmpty | JSONSyntax | JSONTrailing

datatype value_fault =
  ValueTooLong nat | ValueJSON json_fault | ValueYAML string | ValueFormat Format

datatype change_fault = AuthorTooLong nat | CommentTooLong nat

text \<open>
  What the database driver reports. \<open>DBUnique\<close> is a violated key, \<open>DBRange\<close> a \<open>BIGINT\<close> out of
  range; the two context errors are those of the request's context.
\<close>

datatype dberr = DBCanceled | DBDeadline | DBUnique | DBRange | DBOther string

datatype not_found = NoKey string | NoVersion string int | NoHistory

text \<open>
  The sentinels of \<open>store/errors.go\<close>, each with what its wrapping message tells; any other error
  is one that the driver returned and the store wrapped.
\<close>

datatype store_error =
  ErrNotFound not_found
| ErrNotMigrated
| ErrInvalidKey key_fault
| ErrInvalidValue value_fault
| ErrInvalidChange change_fault
| ErrUnsupportedDriver string
| ErrDriver dberr

section \<open>Validation\<close>

definition MaxValueSize :: nat where "MaxValueSize = 1048576"
definition MaxKeyLen :: nat where "MaxKeyLen = 191"
definition MaxAuthorLen :: nat where "MaxAuthorLen = 64"
definition MaxCommentLen :: nat where "MaxCommentLen = 255"

text \<open>The character class of \<open>keyPattern\<close>, \<open>[A-Za-z0-9_.:@-]\<close>.\<close>

definition key_char :: "char \<Rightarrow> bool" where
  "key_char c \<longleftrightarrow>
     65 \<le> byte c \<and> byte c \<le> 90 \<or> 97 \<le> byte c \<and> byte c \<le> 122 \<or> 48 \<le> byte c \<and> byte c \<le> 57 \<or>
     c \<in> {CHR ''_'', CHR ''.'', CHR '':'', CHR ''@'', CHR ''-''}"

definition keyPattern :: "string \<Rightarrow> bool" where
  "keyPattern s \<longleftrightarrow> s \<noteq> [] \<and> list_all key_char s"

definition ValidateKey :: "string \<Rightarrow> key_fault option" where
  "ValidateKey key =
     (if key = [] then Some KeyEmpty
      else if MaxKeyLen < length key then Some (KeyTooLong (length key))
      else if \<not> keyPattern key then Some (KeyCharset key)
      else None)"

definition ValidateChange :: "Change \<Rightarrow> change_fault option" where
  "ValidateChange c =
     (if MaxAuthorLen < length (Author c) then Some (AuthorTooLong (length (Author c)))
      else if MaxCommentLen < length (Comment c) then Some (CommentTooLong (length (Comment c)))
      else None)"

text \<open>
  \<open>dec.ReadToken()\<close> after the first value: \<open>Inl True\<close> is \<open>io.EOF\<close>, \<open>Inl False\<close> another error,
  \<open>Inr ()\<close> a token.
\<close>

definition ReadToken :: "string \<Rightarrow> bool + unit" where
  "ReadToken s = (case skip_ws s of [] \<Rightarrow> Inl True
     | c # t \<Rightarrow>
         if c = CHR ''{'' \<or> c = CHR ''['' then Inr ()
         else if c = CHR 0x22 then (if jstring t = None then Inl False else Inr ())
         else if c = CHR ''t'' then (if literal ''rue'' t = None then Inl False else Inr ())
         else if c = CHR ''f'' then (if literal ''alse'' t = None then Inl False else Inr ())
         else if c = CHR ''n'' then (if literal ''ull'' t = None then Inl False else Inr ())
         else if jnumber (c # t) = None then Inl False else Inr ())"

definition validateJSON :: "string \<Rightarrow> json_fault option" where
  "validateJSON data =
     (case ReadValue data of
        Inl eof \<Rightarrow> Some (if eof then JSONEmpty else JSONSyntax)
      | Inr rest \<Rightarrow>
          (case ReadToken rest of
             Inr _ \<Rightarrow> Some JSONTrailing
           | Inl eof \<Rightarrow> if eof then None else Some JSONSyntax))"

definition ValidateValue :: "(string \<Rightarrow> string option) \<Rightarrow> string \<Rightarrow> Format \<Rightarrow> value_fault option" where
  "ValidateValue yaml val format =
     (if MaxValueSize < length val then Some (ValueTooLong (length val))
      else if format = FormatRaw then None
      else if format = FormatJSON then map_option ValueJSON (validateJSON val)
      else if format = FormatYAML then map_option ValueYAML (yaml val)
      else Some (ValueFormat format))"

lemmas format_defs = FormatRaw_def FormatJSON_def FormatYAML_def
lemmas limit_defs = MaxValueSize_def MaxKeyLen_def MaxAuthorLen_def MaxCommentLen_def

lemma format_distinct [simp]:
  "FormatRaw \<noteq> FormatJSON" "FormatRaw \<noteq> FormatYAML" "FormatJSON \<noteq> FormatYAML"
  "FormatJSON \<noteq> FormatRaw" "FormatYAML \<noteq> FormatRaw" "FormatYAML \<noteq> FormatJSON"
  "FormatRaw \<noteq> []" "FormatJSON \<noteq> []" "FormatYAML \<noteq> []"
  by (simp_all add: format_defs)

lemma ValidateKey_None:
  "ValidateKey key = None \<longleftrightarrow> key \<noteq> [] \<and> length key \<le> MaxKeyLen \<and> list_all key_char key"
  by (auto simp: ValidateKey_def keyPattern_def)

lemma key_char_excludes:
  assumes "key_char c"
  shows "c \<noteq> CHR ''/''" "c \<noteq> CHR 0x5C" "c \<noteq> CHR ''%''" "c \<noteq> CHR ''?''" "c \<noteq> CHR 0x20"
    "c \<noteq> CHR 0x0A" "c \<noteq> CHR 0x00" "byte c < 128"
  using assms by (auto simp: key_char_def)

lemma ReadToken_EOF: "ReadToken s = Inl True \<longleftrightarrow> skip_ws s = []"
  by (auto simp: ReadToken_def split: list.splits if_splits)

text \<open>
  JSON validation accepts exactly the texts that hold one value and nothing else but white
  space; in particular no stream of several documents.
\<close>

lemma validateJSON_None:
  "validateJSON data = None \<longleftrightarrow> (\<exists>rest. ReadValue data = Inr rest \<and> skip_ws rest = [])"
  by (auto simp: validateJSON_def split: sum.splits if_splits simp flip: ReadToken_EOF)

lemma ValidateValue_format:
  "ValidateValue yaml val format = None \<Longrightarrow> format \<in> {FormatRaw, FormatJSON, FormatYAML}"
  by (auto simp: ValidateValue_def split: if_splits)

lemma ValidateValue_size: "ValidateValue yaml val format = None \<Longrightarrow> length val \<le> MaxValueSize"
  by (auto simp: ValidateValue_def split: if_splits)

end
