(* ===== verification/Store_Dialect.thy ===== *)
theory Store_Dialect
  imports Store_Types
begin

text \<open>
  The SQL texts of package \<open>store\<close> and what differs between the two databases: \<open>store/dialect.go\<close>
  (driver names, placeholder rewriting, escaping of LIKE patterns), the texts of
  \<open>store/mysql.go\<close> and \<open>store/postgres.go\<close>, \<open>store/dsn.go\<close> (driver aliases, the MySQL connection
  string) and \<open>store/migrations.go\<close> (splitting a migration file into statements). The file
  system that is embedded in the binary is a parameter, a function from the dialect's
  directory to the contents of its files in name order.
\<close>

section \<open>Drivers and dialects\<close>

datatype Dialect = MySQL | Postgres

fun Name :: "Dialect \<Rightarrow> string" where
  "Name MySQL = ''mysql''"
| "Name Postgres = ''postgres''"

definition DialectFor :: "string \<Rightarrow> store_error + Dialect" where
  "DialectFor driver =
     (if driver = ''mysql'' then Inr MySQL
      else if driver \<in> set [''postgres'', ''pgx'', ''pgx/v5''] then Inr Postgres
      else Inl (ErrUnsupportedDriver driver))"

definition SQLDriver :: "string \<Rightarrow> store_error + string" where
  "SQLDriver name =
     (if name = ''mysql'' then Inr ''mysql''
      else if name \<in> set [''pgx'', ''pgx/v5'', ''postgres'', ''postgresql''] then Inr ''pgx''
      else Inl (ErrUnsupportedDriver name))"

text \<open>Every name that \<open>SQLDriver\<close> accepts maps to a driver that has a dialect.\<close>

lemma SQLDriver_DialectFor:
  "SQLDriver name = Inr d \<Longrightarrow> \<exists>dia. DialectFor d = Inr dia \<and> (dia = MySQL \<longleftrightarrow> name = ''mysql'')"
  by (auto simp: SQLDriver_def DialectFor_def split: if_splits)

section \<open>Placeholders\<close>

fun rebind_from :: "nat \<Rightarrow> string \<Rightarrow> string" where
  "rebind_from n [] = []"
| "rebind_from n (c # q) =
     (if c \<noteq> CHR ''?'' then c # rebind_from n q
      else CHR ''$'' # nat_str (n + 1) @ rebind_from (n + 1) q)"

definition rebindDollar :: "string \<Rightarrow> string" where
  "rebindDollar q = rebind_from 0 q"

fun Rebind :: "Dialect \<Rightarrow> string \<Rightarrow> string" where
  "Rebind MySQL q = q"
| "Rebind Postgres q = rebindDollar q"

text \<open>The specification: the pieces between the question marks, numbered from left to right.\<close>

fun numbered :: "nat \<Rightarrow> string list \<Rightarrow> string" where
  "numbered n [] = []"
| "numbered n [w] = w"
| "numbered n (w # ws) = w @ ''$'' @ nat_str (n + 1) @ numbered (n + 1) ws"

lemma numbered_Cons: "ws \<noteq> [] \<Longrightarrow>
    numbered n (w # ws) = w @ ''$'' @ nat_str (n + 1) @ numbered (n + 1) ws"
  by (cases ws) auto

lemma numbered_push: "numbered n ((c # w) # ws) = c # numbered n (w # ws)"
  by (cases ws) auto

lemma rebind_from_numbered: "rebind_from n q = numbered n (Split CHR ''?'' q)"
proof (induction n q rule: rebind_from.induct)
  case (1 n)
  then show ?case by simp
next
  case (2 n c q)
  show ?case
  proof (cases "c = CHR ''?''")
    case True
    then show ?thesis using 2 by (simp add: numbered_Cons)
  next
    case False
    obtain w ws where sp: "Split CHR ''?'' q = w # ws" by (cases "Split CHR ''?'' q") auto
    then show ?thesis using 2 False by (simp add: numbered_push)
  qed
qed

lemma rebind_from_no_question: "CHR ''?'' \<notin> set (rebind_from n q)"
  by (induction n q rule: rebind_from.induct) (auto simp: nat_str_notin)

lemma length_Split_count: "length (Split c s) = count_list s c + 1"
  by (induction s) (auto split: list.splits)

section \<open>LIKE\<close>

definition like_escape :: "string \<Rightarrow> string" where
  "like_escape s = concat (map (\<lambda>c.
     if c = CHR 0x5C then [CHR 0x5C, CHR 0x5C]
     else if c = CHR ''%'' then [CHR 0x5C, CHR ''%'']
     else if c = CHR ''_'' then [CHR 0x5C, CHR ''_'']
     else [c]) s)"

definition likePrefix :: "string \<Rightarrow> string" where
  "likePrefix p = like_escape p @ ''%''"

text \<open>SQL's \<open>s LIKE pat\<close> where a backslash is the escape character.\<close>

fun like_match :: "string \<Rightarrow> string \<Rightarrow> bool" where
  "like_match [] s = (s = [])"
| "like_match (p # ps) s =
     (if p = CHR 0x5C then
        (case ps of [] \<Rightarrow> False
         | q # qs \<Rightarrow> (case s of [] \<Rightarrow> False | c # cs \<Rightarrow> c = q \<and> like_match qs cs))
      else if p = CHR ''%'' then
        like_match ps s \<or> (case s of [] \<Rightarrow> False | c # cs \<Rightarrow> like_match (p # ps) cs)
      else if p = CHR ''_'' then (case s of [] \<Rightarrow> False | c # cs \<Rightarrow> like_match ps cs)
      else (case s of [] \<Rightarrow> False | c # cs \<Rightarrow> c = p \<and> like_match ps cs))"

declare like_match.simps(2) [simp del]

lemma like_match_percent: "like_match ''%'' s"
  by (induction s) (simp_all add: like_match.simps(2))

text \<open>Whatever bytes the prefix has, the escaped pattern matches exactly the strings it starts.\<close>

lemma like_match_likePrefix: "like_match (likePrefix p) s \<longleftrightarrow> prefix p s"
proof (induction p arbitrary: s)
  case Nil
  then show ?case by (simp add: likePrefix_def like_escape_def like_match_percent)
next
  case (Cons c p)
  have step: "like_match (likePrefix (c # p)) s \<longleftrightarrow>
      (case s of [] \<Rightarrow> False | x # xs \<Rightarrow> x = c \<and> like_match (likePrefix p) xs)"
    by (auto simp: likePrefix_def like_escape_def like_match.simps(2)[of "CHR 0x5C"]
        like_match.simps(2)[of c] split: list.splits)
  then show ?case using Cons.IH by (auto split: list.splits)
qed

text \<open>
  The \<open>ESCAPE\<close> clause of the condition, as the text of an SQL string literal. A MySQL literal
  reads a backslash as an escape unless the server runs in mode \<open>NO_BACKSLASH_ESCAPES\<close>, a
  PostgreSQL one never does (\<open>standard_conforming_strings\<close>); the escape given to LIKE must be
  one character.
\<close>

fun PrefixCondition :: "Dialect \<Rightarrow> string" where
  "PrefixCondition MySQL =
     ''config_key LIKE ? ESCAPE '' @ [CHR 0x27, CHR 0x5C, CHR 0x5C, CHR 0x27]"
| "PrefixCondition Postgres =
     ''config_key LIKE ? ESCAPE '' @ [CHR 0x27, CHR 0x5C, CHR 0x27]"

fun unescape_literal :: "string \<Rightarrow> string" where
  "unescape_literal (c # d # s) =
     (if c = CHR 0x5C then d # unescape_literal s else c # unescape_literal (d # s))"
| "unescape_literal s = s"

definition escape_arg :: "bool \<Rightarrow> string \<Rightarrow> string option" where
  "escape_arg backslash_escapes cond =
     (let body = butlast (drop (length ''config_key LIKE ? ESCAPE '' + 1) cond);
          arg = (if backslash_escapes then unescape_literal body else body)
      in if length arg = 1 then Some arg else None)"

lemma escape_arg_default:
  "escape_arg True (PrefixCondition MySQL) = Some [CHR 0x5C]"
  "escape_arg False (PrefixCondition Postgres) = Some [CHR 0x5C]"
  by (simp_all add: escape_arg_def)

lemma escape_arg_no_backslash_escapes: "escape_arg False (PrefixCondition MySQL) = None"
  by (simp add: escape_arg_def)

section \<open>The text of the prefix query\<close>

text \<open>
  \<open>ListPrefixes\<close> collects one condition and one bound argument per prefix; an empty prefix
  discards what was collected and stops the loop.
\<close>

fun collect_prefixes ::
    "Dialect \<Rightarrow> string list \<Rightarrow> string list \<Rightarrow> string list \<Rightarrow> bool \<times> string list \<times> string list" where
  "collect_prefixes dia [] conds args = (False, conds, args)"
| "collect_prefixes dia (p # ps) conds args =
     (if p = [] then (True, [], [])
      else collect_prefixes dia ps (conds @ [PrefixCondition dia]) (args @ [likePrefix p]))"

definition prefix_conds :: "Dialect \<Rightarrow> string list \<Rightarrow> bool \<times> string list \<times> string list" where
  "prefix_conds dia pfxs =
     (case collect_prefixes dia pfxs [] [] of (all, conds, args) \<Rightarrow>
        (pfxs = [] \<or> all, conds, args))"

definition list_query :: "Dialect \<Rightarrow> string list \<Rightarrow> string" where
  "list_query dia pfxs =
     (case prefix_conds dia pfxs of (all, conds, args) \<Rightarrow>
        ''SELECT config_key, value, format, updated_at, updated_by FROM lite_config'' @
        (if all then [] else '' WHERE '' @ Join conds '' OR '') @ '' ORDER BY config_key'')"

definition list_args :: "Dialect \<Rightarrow> string list \<Rightarrow> string list" where
  "list_args dia pfxs = snd (snd (prefix_conds dia pfxs))"

definition list_all_rows :: "Dialect \<Rightarrow> string list \<Rightarrow> bool" where
  "list_all_rows dia pfxs = fst (prefix_conds dia pfxs)"

lemma collect_prefixes_eq:
  "collect_prefixes dia ps conds args =
     (if [] \<in> set ps then (True, [], [])
      else (False, conds @ replicate (length ps) (PrefixCondition dia), args @ map likePrefix ps))"
  by (induction ps arbitrary: conds args) (auto simp: replicate_append_same)

lemma list_all_rows_iff: "list_all_rows dia ps \<longleftrightarrow> ps = [] \<or> [] \<in> set ps"
  by (simp add: list_all_rows_def prefix_conds_def collect_prefixes_eq)

lemma list_args_eq: "list_args dia ps = (if list_all_rows dia ps then [] else map likePrefix ps)"
  by (auto simp: list_args_def list_all_rows_iff prefix_conds_def collect_prefixes_eq)

lemma count_list_Join:
  "c \<notin> set sep \<Longrightarrow> count_list (Join ws sep) c = sum_list (map (\<lambda>w. count_list w c) ws)"
  by (induction ws sep rule: Join.induct) (auto simp: count_list_0_iff)

lemma PrefixCondition_placeholder: "count_list (PrefixCondition dia) CHR ''?'' = 1"
  by (cases dia) auto

text \<open>The statement has as many placeholders as it is given arguments, in every case.\<close>

lemma list_query_placeholders:
  "count_list (list_query dia ps) CHR ''?'' = length (list_args dia ps)"
  by (auto simp: list_query_def list_args_def prefix_conds_def collect_prefixes_eq
      count_list_Join PrefixCondition_placeholder sum_list_replicate)

end
