(* ===== verification/Store_DSN.thy ===== *)
theory Store_DSN
  imports Store_Dialect
begin

text \<open>
  \<open>NormalizeDSN\<close> of \<open>store/dsn.go\<close>, read against the way the MySQL driver itself takes a DSN apart
  (last slash, first question mark, parameters between ampersands), and the statement
  splitter of \<open>store/migrations.go\<close>.
\<close>

section \<open>Connection strings\<close>

definition parse_time :: string where "parse_time = ''parseTime=true''"

text \<open>The parameters that the normalisation keeps (\<open>slices.DeleteFunc\<close> drops the rest).\<close>

definition other_params :: "string list \<Rightarrow> string list" where
  "other_params ps = filter (\<lambda>p. \<not> (p = [] \<or> prefix ''parseTime='' p)) ps"

definition NormalizeDSN :: "string \<Rightarrow> string \<Rightarrow> string" where
  "NormalizeDSN driver dsn =
     (if driver \<noteq> ''mysql'' \<or> dsn = [] then dsn
      else case CutLast CHR ''/'' dsn of (head, tail, ok) \<Rightarrow>
        if \<not> ok then dsn
        else case Cut CHR ''?'' tail of (dbname, params, hasParams) \<Rightarrow>
          if \<not> hasParams then dsn @ ''?parseTime=true''
          else
            (let kept = other_params (Split CHR ''&'' params) @ [parse_time]
             in head @ ''/'' @ dbname @ ''?'' @ Join kept ''&''))"

text \<open>How the driver reads a DSN: everything before the database name, the name, the parameters.\<close>

definition mysql_dsn :: "string \<Rightarrow> (string \<times> string \<times> string list) option" where
  "mysql_dsn dsn =
     (case CutLast CHR ''/'' dsn of (head, tail, ok) \<Rightarrow>
        if \<not> ok then None
        else case Cut CHR ''?'' tail of (dbname, params, hasParams) \<Rightarrow>
          Some (head, dbname, if hasParams then Split CHR ''&'' params else []))"

lemma Split_params_no_slash:
  assumes "c \<notin> set t" and "w \<in> set (Split d t)"
  shows "c \<notin> set w"
  using assms by (induction t arbitrary: w) (auto split: list.splits if_splits)

lemma set_Join: "set (Join ws sep) \<subseteq> (\<Union>w\<in>set ws. set w) \<union> set sep"
  by (induction ws sep rule: Join.induct) auto

lemma NormalizeDSN_shape:
  assumes "dsn = head @ CHR ''/'' # tail" and "CHR ''/'' \<notin> set tail"
  shows "\<exists>db ps. CHR ''?'' \<notin> set db \<and> CHR ''/'' \<notin> set db \<and>
    mysql_dsn dsn = Some (head, db, ps) \<and>
    NormalizeDSN ''mysql'' dsn = head @ ''/'' @ db @ ''?'' @
      Join (other_params ps @ [parse_time]) ''&'' \<and>
    (\<forall>p\<in>set ps. CHR ''/'' \<notin> set p \<and> CHR ''&'' \<notin> set p)"
proof -
  obtain db params has where cut: "Cut CHR ''?'' tail = (db, params, has)"
    by (cases "Cut CHR ''?'' tail")
  have cl: "CutLast CHR ''/'' dsn = (head, tail, True)" using assms by simp
  have ne: "dsn \<noteq> []" using assms(1) by simp
  show ?thesis
  proof (cases has)
    case True
    then have tail: "tail = db @ CHR ''?'' # params" "CHR ''?'' \<notin> set db"
      using Cut_found[of "CHR ''?''" tail db params] cut by auto
    have "CHR ''/'' \<notin> set params" "CHR ''/'' \<notin> set db" using assms(2) tail(1) by auto
    then have "\<forall>p\<in>set (Split CHR ''&'' params). CHR ''/'' \<notin> set p \<and> CHR ''&'' \<notin> set p"
      using Split_params_no_slash Split_free by blast
    with True cl cut tail ne \<open>CHR ''/'' \<notin> set db\<close> show ?thesis
      by (intro exI[of _ db] exI[of _ "Split CHR ''&'' params"])
         (simp add: NormalizeDSN_def mysql_dsn_def Let_def)
  next
    case False
    then have db: "db = tail" "CHR ''?'' \<notin> set tail" using cut Cut_not_found[of "CHR ''?''" tail db params] by auto
    with False cl cut ne assms show ?thesis
      by (intro exI[of _ tail] exI[of _ "[]"])
         (simp add: NormalizeDSN_def mysql_dsn_def parse_time_def other_params_def)
  qed
qed

lemma mysql_dsn_split:
  assumes "mysql_dsn dsn = Some (head, db, ps)"
  shows "\<exists>t. dsn = head @ CHR ''/'' # t \<and> CHR ''/'' \<notin> set t"
proof -
  obtain h t ok where c: "CutLast CHR ''/'' dsn = (h, t, ok)" by (cases "CutLast CHR ''/'' dsn")
  with assms have "ok" and "h = head" by (auto simp: mysql_dsn_def split: if_splits prod.splits)
  with c show ?thesis using CutLast_found[of "CHR ''/''" dsn h t] by auto
qed

text \<open>
  After normalisation the driver sees the same address and database, the other parameters in
  their order, and exactly one \<open>parseTime\<close>, which is \<open>true\<close>.
\<close>

lemma NormalizeDSN_params:
  assumes "mysql_dsn dsn = Some (head, db, ps)"
  shows "mysql_dsn (NormalizeDSN ''mysql'' dsn) =
    Some (head, db, other_params ps @ [parse_time])"
proof -
  obtain t where dsn: "dsn = head @ CHR ''/'' # t" "CHR ''/'' \<notin> set t"
    using mysql_dsn_split[OF assms] by blast
  define kept where "kept = other_params ps @ [parse_time]"
  have n: "CHR ''?'' \<notin> set db" "CHR ''/'' \<notin> set db"
      "NormalizeDSN ''mysql'' dsn = head @ ''/'' @ db @ ''?'' @ Join kept ''&''"
      "\<forall>p\<in>set ps. CHR ''/'' \<notin> set p \<and> CHR ''&'' \<notin> set p"
    using NormalizeDSN_shape[OF dsn] assms by (auto simp: kept_def)
  have kept: "\<forall>p\<in>set kept. CHR ''/'' \<notin> set p \<and> CHR ''&'' \<notin> set p" "kept \<noteq> []"
    using n(4) by (auto simp: kept_def parse_time_def other_params_def)
  have slash: "CHR ''/'' \<notin> set (db @ ''?'' @ Join kept ''&'')"
    using kept(1) n(2) set_Join[of kept "''&''"] by auto
  have "NormalizeDSN ''mysql'' dsn = head @ CHR ''/'' # (db @ ''?'' @ Join kept ''&'')" using n(3) by simp
  then have "CutLast CHR ''/'' (NormalizeDSN ''mysql'' dsn) = (head, db @ ''?'' @ Join kept ''&'', True)"
    using CutLast_append[OF slash, of head] by (simp only:)
  moreover have "Cut CHR ''?'' (db @ ''?'' @ Join kept ''&'') = (db, Join kept ''&'', True)"
    using Cut_append[OF n(1), of "Join kept ''&''"] by simp
  ultimately show ?thesis using Split_Join[of kept "CHR ''&''"] kept
    by (simp add: mysql_dsn_def) (simp add: kept_def)
qed

lemma NormalizeDSN_mysql_dsn_determined:
  assumes "mysql_dsn dsn = Some (head, db, ps)"
  shows "NormalizeDSN ''mysql'' dsn = head @ ''/'' @ db @ ''?'' @
    Join (other_params ps @ [parse_time]) ''&''"
proof -
  obtain t where "dsn = head @ CHR ''/'' # t" "CHR ''/'' \<notin> set t"
    using mysql_dsn_split[OF assms] by blast
  from NormalizeDSN_shape[OF this] assms show ?thesis by auto
qed

lemma NormalizeDSN_idem: "NormalizeDSN driver (NormalizeDSN driver dsn) = NormalizeDSN driver dsn"
proof (cases "driver = ''mysql'' \<and> dsn \<noteq> []")
  case False
  then show ?thesis by (auto simp: NormalizeDSN_def)
next
  case True
  show ?thesis
  proof (cases "mysql_dsn dsn")
    case None
    then have "NormalizeDSN driver dsn = dsn"
      by (auto simp: mysql_dsn_def NormalizeDSN_def split: prod.splits if_splits)
    then show ?thesis by simp
  next
    case (Some r)
    obtain head db ps where r: "r = (head, db, ps)" by (cases r)
    define kept where "kept = other_params ps"
    have again: "other_params (kept @ [parse_time]) = kept"
      by (simp add: kept_def other_params_def parse_time_def)
    have "mysql_dsn (NormalizeDSN ''mysql'' dsn) = Some (head, db, kept @ [parse_time])"
      using NormalizeDSN_params[OF Some[unfolded r]] by (simp add: kept_def)
    from NormalizeDSN_mysql_dsn_determined[OF this]
      NormalizeDSN_mysql_dsn_determined[OF Some[unfolded r]] again
    show ?thesis using True by (simp only: kept_def[symmetric])
  qed
qed

section \<open>Migration files\<close>

definition newline :: char where "newline = CHR 0x0A"

definition statement_of :: "string \<Rightarrow> string" where
  "statement_of chunk =
     TrimSpace (Join (filter (\<lambda>l. \<not> prefix ''--'' (TrimSpace l)) (Split newline chunk)) [newline])"

definition splitStatements :: "string \<Rightarrow> string list" where
  "splitStatements src = filter (\<lambda>stmt. stmt \<noteq> []) (map statement_of (Split CHR '';'' src))"

definition migrationsFor :: "(string \<Rightarrow> string list) \<Rightarrow> string \<Rightarrow> store_error + string list" where
  "migrationsFor files dialect =
     (let out = concat (map splitStatements (files dialect))
      in if out = [] then Inl (ErrUnsupportedDriver dialect) else Inr out)"

definition ellipsis :: string where "ellipsis = [CHR 0xE2, CHR 0x80, CHR 0xA6]"

definition firstLine :: "string \<Rightarrow> string" where
  "firstLine s = (let s = TrimSpace s in
     case Cut newline s of (line, _, ok) \<Rightarrow> if ok then TrimSpace line @ '' '' @ ellipsis else s)"

lemma splitStatements_nonempty: "stmt \<in> set (splitStatements src) \<Longrightarrow> stmt \<noteq> []"
  by (simp add: splitStatements_def)

end
