(* ===== verification/Store_DB.thy ===== *)
theory Store_DB
  imports Store_DSN
begin

text \<open>
  \<open>store.DB\<close> (\<open>store/store.go\<close>, \<open>BumpRevision\<close> of \<open>store/mysql.go\<close> and \<open>store/postgres.go\<close>): the
  three tables of the schema as a record, every SQL statement of the package as a function on
  them, and the operations composed from the statements as the Go code composes them.

  The database server is not part of the repository. What it may decide is a parameter, the
  record \<open>dbenv\<close>: which statement fails and how (\<open>fault\<close>), whether a commit that was reported
  as failed took effect (\<open>commit_applied\<close>), its clock, the sort key of the collation of
  \<open>config_key\<close>, and, beside it, the YAML parser. The schema's keys are written out in the
  statements: a second row with the same \<open>(config_key, version)\<close> is refused, an identifier is
  drawn from a counter that a rolled-back transaction does not give back, and a \<open>BIGINT\<close>
  that would leave its range is an error.
\<close>

section \<open>State and environment\<close>

record tables =
  meta :: "int option"
  config :: "Config list"
  history :: "HistoryEntry list"

record db =
  tabs :: tables
  next_id :: int

datatype stmt =
  SBegin
| SBump
| SReadBump
| SGetConfig string
| SHistoryAt string int
| SDelete string
| SUpsert string string Format string
| SMaxVersion string
| SInsertHistory string string Format int Op string string
| SCommit
| SHistory string int
| SList string "string list"
| SRevision
| SDDL string

record dbenv =
  fault :: "stmt \<Rightarrow> dberr option"
  commit_applied :: bool
  clock :: "stmt \<Rightarrow> int"
  collate :: "string \<Rightarrow> string"
  yaml :: "string \<Rightarrow> string option"

type_synonym 'a dbact = "(db, store_error, 'a) act"

section \<open>Statements\<close>

text \<open>A statement is sent to the server: it fails there, or runs \<open>q\<close> on the tables.\<close>

definition run :: "dbenv \<Rightarrow> stmt \<Rightarrow> (db \<Rightarrow> (dberr + 'a) \<times> db) \<Rightarrow> 'a dbact" where
  "run e st q d =
     (case fault e st of
        Some x \<Rightarrow> (Inl (ErrDriver x), d)
      | None \<Rightarrow> (case q d of (Inl x, d') \<Rightarrow> (Inl (ErrDriver x), d') | (Inr v, d') \<Rightarrow> (Inr v, d')))"

text \<open>A statement that only reads.\<close>

definition query :: "dbenv \<Rightarrow> stmt \<Rightarrow> (tables \<Rightarrow> 'a) \<Rightarrow> 'a dbact" where
  "query e st q = run e st (\<lambda>d. (Inr (q (tabs d)), d))"

text \<open>\<open>UPDATE lite_config_meta SET revision = revision + 1 WHERE id = 1\<close>, with its row count.\<close>

definition sql_update_revision :: "db \<Rightarrow> (dberr + nat) \<times> db" where
  "sql_update_revision d =
     (case meta (tabs d) of
        None \<Rightarrow> (Inr 0, d)
      | Some r \<Rightarrow> if max_int64 \<le> r then (Inl DBRange, d)
                  else (Inr 1, d\<lparr>tabs := (tabs d)\<lparr>meta := Some (r + 1)\<rparr>\<rparr>))"

definition config_row :: "string \<Rightarrow> tables \<Rightarrow> Config option" where
  "config_row key t = find (\<lambda>c. cKey c = key) (config t)"

definition history_rows :: "string \<Rightarrow> tables \<Rightarrow> HistoryEntry list" where
  "history_rows key t = filter (\<lambda>h. hKey h = key) (history t)"

definition history_at :: "string \<Rightarrow> int \<Rightarrow> tables \<Rightarrow> (string \<times> Format) option" where
  "history_at key ver t =
     map_option (\<lambda>h. (hValue h, hFormat h))
       (find (\<lambda>h. hKey h = key \<and> hVersion h = ver) (history t))"

text \<open>\<open>COALESCE(MAX(version), 0)\<close>.\<close>

definition max_version :: "string \<Rightarrow> tables \<Rightarrow> int" where
  "max_version key t =
     (case map hVersion (history_rows key t) of [] \<Rightarrow> 0 | v # vs \<Rightarrow> fold max vs v)"

definition sql_delete :: "string \<Rightarrow> db \<Rightarrow> (dberr + unit) \<times> db" where
  "sql_delete key d =
     (Inr (), d\<lparr>tabs := (tabs d)\<lparr>config := filter (\<lambda>c. cKey c \<noteq> key) (config (tabs d))\<rparr>\<rparr>)"

text \<open>The upsert: \<open>ON DUPLICATE KEY UPDATE\<close> / \<open>ON CONFLICT DO UPDATE\<close>, else an inserted row.\<close>

definition upsert_row :: "Config \<Rightarrow> Config list \<Rightarrow> Config list" where
  "upsert_row row rows =
     (if \<exists>c\<in>set rows. cKey c = cKey row
      then map (\<lambda>c. if cKey c = cKey row then row else c) rows
      else rows @ [row])"

definition sql_upsert ::
    "int \<Rightarrow> string \<Rightarrow> string \<Rightarrow> Format \<Rightarrow> string \<Rightarrow> db \<Rightarrow> (dberr + unit) \<times> db" where
  "sql_upsert now key val format author d =
     (Inr (), d\<lparr>tabs := (tabs d)\<lparr>config :=
        upsert_row \<lparr>cKey = key, cValue = val, cFormat = format, cUpdatedAt = now, cUpdatedBy = author\<rparr>
          (config (tabs d))\<rparr>\<rparr>)"

definition sql_insert_history ::
    "int \<Rightarrow> string \<Rightarrow> string \<Rightarrow> Format \<Rightarrow> int \<Rightarrow> Op \<Rightarrow> string \<Rightarrow> string \<Rightarrow>
     db \<Rightarrow> (dberr + unit) \<times> db" where
  "sql_insert_history now key val format ver op comment author d =
     (let h = \<lparr>hID = next_id d, hKey = key, hValue = val, hFormat = format, hVersion = ver,
                hOp = op, hComment = comment, hCreatedAt = now, hCreatedBy = author\<rparr>;
          d' = d\<lparr>next_id := next_id d + 1\<rparr>
      in if max_int64 < next_id d then (Inl DBRange, d)
         else if \<exists>g\<in>set (history (tabs d)). hKey g = key \<and> hVersion g = ver then (Inl DBUnique, d')
         else (Inr (), d'\<lparr>tabs := (tabs d)\<lparr>history := history (tabs d) @ [h]\<rparr>\<rparr>))"

section \<open>Transactions\<close>

text \<open>
  \<open>BumpRevision\<close>: MySQL updates and then reads, PostgreSQL's \<open>UPDATE \<dots> RETURNING\<close> does both in
  one statement. No updated row means the seed row is missing.
\<close>

fun BumpRevision :: "dbenv \<Rightarrow> Dialect \<Rightarrow> int dbact" where
  "BumpRevision e MySQL =
     andThen (run e SBump sql_update_revision) (\<lambda>n.
       if n = 0 then throw ErrNotMigrated
       else andThen (query e SReadBump meta) (\<lambda>r.
         case r of Some rv \<Rightarrow> ret rv | None \<Rightarrow> throw (ErrDriver (DBOther ''no rows''))))"
| "BumpRevision e Postgres =
     andThen (run e SBump (\<lambda>d. case sql_update_revision d of
         (Inl x, d') \<Rightarrow> (Inl x, d')
       | (Inr n, d') \<Rightarrow> (Inr (if n = 0 then None else meta (tabs d')), d'))) (\<lambda>r.
       case r of Some rv \<Rightarrow> ret rv | None \<Rightarrow> throw ErrNotMigrated)"

definition getConfig :: "dbenv \<Rightarrow> string \<Rightarrow> Config option dbact" where
  "getConfig e key = query e (SGetConfig key) (config_row key)"

text \<open>
  \<open>withTx\<close>: an error of the body, or of the begin, rolls everything back (the identifier
  counter excepted); after a commit that reported an error the transaction took effect or not.
\<close>

definition withTx :: "dbenv \<Rightarrow> 'a dbact \<Rightarrow> 'a dbact" where
  "withTx e fn d =
     (case fault e SBegin of
        Some x \<Rightarrow> (Inl (ErrDriver x), d)
      | None \<Rightarrow>
          (case fn d of
             (Inl err, d') \<Rightarrow> (Inl err, d'\<lparr>tabs := tabs d\<rparr>)
           | (Inr res, d') \<Rightarrow>
               (case fault e SCommit of
                  None \<Rightarrow> (Inr res, d')
                | Some x \<Rightarrow>
                    (Inl (ErrDriver x), if commit_applied e then d' else d'\<lparr>tabs := tabs d\<rparr>))))"

type_synonym resolve = "Config option \<Rightarrow> (string \<times> Format) dbact"

text \<open>The body of the transaction that set, delete and rollback share.\<close>

definition write_body ::
    "dbenv \<Rightarrow> Dialect \<Rightarrow> string \<Rightarrow> Op \<Rightarrow> Change \<Rightarrow> resolve \<Rightarrow> Result dbact" where
  "write_body e dia key op c resolve =
     andThen (BumpRevision e dia) (\<lambda>rv.
     andThen (getConfig e key) (\<lambda>cur.
     andThen (resolve cur) (\<lambda>(val, format).
     andThen (check (map_option ErrInvalidValue (ValidateValue (yaml e) val format))) (\<lambda>_.
     andThen (if op = OpDelete then run e (SDelete key) (sql_delete key)
              else run e (SUpsert key val format (Author c))
                (sql_upsert (clock e (SUpsert key val format (Author c))) key val format (Author c))) (\<lambda>_.
     andThen (query e (SMaxVersion key) (max_version key)) (\<lambda>prev.
     let version = int64 (prev + 1);
         st = SInsertHistory key val format version op (Comment c) (Author c) in
     andThen (run e st
       (sql_insert_history (clock e st) key val format version op (Comment c) (Author c))) (\<lambda>_.
     ret \<lparr>Revision = rv, Version = version\<rparr>)))))))"

definition db_write ::
    "dbenv \<Rightarrow> Dialect \<Rightarrow> string \<Rightarrow> Op \<Rightarrow> Change \<Rightarrow> resolve \<Rightarrow> Result dbact" where
  "db_write e dia key op c resolve =
     andThen (check (map_option ErrInvalidKey (ValidateKey key))) (\<lambda>_.
     andThen (check (map_option ErrInvalidChange (ValidateChange c))) (\<lambda>_.
     withTx e (write_body e dia key op c resolve)))"

section \<open>The operations of \<open>store.DB\<close>\<close>

definition resolve_delete :: "string \<Rightarrow> resolve" where
  "resolve_delete key cur =
     (case cur of None \<Rightarrow> throw (ErrNotFound (NoKey key)) | Some c \<Rightarrow> ret (cValue c, cFormat c))"

definition resolve_rollback :: "dbenv \<Rightarrow> string \<Rightarrow> int \<Rightarrow> resolve" where
  "resolve_rollback e key toVersion cur =
     andThen (query e (SHistoryAt key toVersion) (history_at key toVersion)) (\<lambda>r.
       case r of None \<Rightarrow> throw (ErrNotFound (NoVersion key toVersion)) | Some vf \<Rightarrow> ret vf)"

definition resolve_set :: "string \<Rightarrow> Format \<Rightarrow> resolve" where
  "resolve_set val format cur = ret (val, format)"

definition Delete :: "dbenv \<Rightarrow> Dialect \<Rightarrow> string \<Rightarrow> Change \<Rightarrow> Result dbact" where
  "Delete e dia key c = db_write e dia key OpDelete c (resolve_delete key)"

definition Rollback :: "dbenv \<Rightarrow> Dialect \<Rightarrow> string \<Rightarrow> int \<Rightarrow> Change \<Rightarrow> Result dbact" where
  "Rollback e dia key toVersion c = db_write e dia key OpRollback c (resolve_rollback e key toVersion)"

definition Set :: "dbenv \<Rightarrow> Dialect \<Rightarrow> string \<Rightarrow> string \<Rightarrow> Format \<Rightarrow> Change \<Rightarrow> Result dbact" where
  "Set e dia key val format c =
     db_write e dia key OpSet c (resolve_set val (if format = [] then FormatRaw else format))"

definition Get :: "dbenv \<Rightarrow> string \<Rightarrow> Config dbact" where
  "Get e key =
     andThen (check (map_option ErrInvalidKey (ValidateKey key))) (\<lambda>_.
     andThen (getConfig e key) (\<lambda>cfg.
       case cfg of None \<Rightarrow> throw (ErrNotFound (NoKey key)) | Some c \<Rightarrow> ret c))"

definition select_history :: "string \<Rightarrow> int \<Rightarrow> tables \<Rightarrow> HistoryEntry list" where
  "select_history key limit t =
     (let rows = sort_key (\<lambda>h. - hVersion h) (history_rows key t)
      in if 0 < limit then take (nat limit) rows else rows)"

definition History :: "dbenv \<Rightarrow> string \<Rightarrow> int \<Rightarrow> HistoryEntry list dbact" where
  "History e key limit =
     andThen (check (map_option ErrInvalidKey (ValidateKey key))) (\<lambda>_.
     query e (SHistory key limit) (select_history key limit))"

text \<open>\<open>SELECT \<dots> [WHERE key LIKE ? OR \<dots>] ORDER BY config_key\<close>.\<close>

definition select_configs :: "(string \<Rightarrow> string) \<Rightarrow> bool \<Rightarrow> string list \<Rightarrow> tables \<Rightarrow> Config list" where
  "select_configs coll all args t =
     sort_key (\<lambda>c. coll (cKey c))
       (filter (\<lambda>c. all \<or> list_ex (\<lambda>pat. like_match pat (cKey c)) args) (config t))"

definition ListPrefixes :: "dbenv \<Rightarrow> Dialect \<Rightarrow> string list \<Rightarrow> Config list dbact" where
  "ListPrefixes e dia pfxs =
     query e (SList (Rebind dia (list_query dia pfxs)) (list_args dia pfxs))
       (select_configs (collate e) (list_all_rows dia pfxs) (list_args dia pfxs))"

definition ListPrefix :: "dbenv \<Rightarrow> Dialect \<Rightarrow> string \<Rightarrow> Config list dbact" where
  "ListPrefix e dia pfx = ListPrefixes e dia [pfx]"

definition ReadRevision :: "dbenv \<Rightarrow> int dbact" where
  "ReadRevision e =
     andThen (query e SRevision meta) (\<lambda>r.
       case r of None \<Rightarrow> throw ErrNotMigrated | Some rv \<Rightarrow> ret rv)"

text \<open>
  \<open>Migrate\<close>. The tables of the model always exist, so a \<open>CREATE \<dots> IF NOT EXISTS\<close> leaves them
  as they are; the \<open>INSERT IGNORE\<close> / \<open>ON CONFLICT DO NOTHING\<close> of both files seeds the row \<open>id = 1\<close>.
\<close>

definition sql_ddl :: "string \<Rightarrow> db \<Rightarrow> (dberr + unit) \<times> db" where
  "sql_ddl st d =
     (Inr (), if prefix ''INSERT '' st \<and> meta (tabs d) = None
              then d\<lparr>tabs := (tabs d)\<lparr>meta := Some 0\<rparr>\<rparr> else d)"

fun exec_all :: "dbenv \<Rightarrow> string list \<Rightarrow> unit dbact" where
  "exec_all e [] = ret ()"
| "exec_all e (st # sts) = andThen (run e (SDDL st) (sql_ddl st)) (\<lambda>_. exec_all e sts)"

definition Migrate :: "dbenv \<Rightarrow> (string \<Rightarrow> string list) \<Rightarrow> Dialect \<Rightarrow> unit dbact" where
  "Migrate e files dia =
     (case migrationsFor files (Name dia) of Inl err \<Rightarrow> throw err | Inr stmts \<Rightarrow> exec_all e stmts)"

end
