(* ===== verification/Store_Spec.thy ===== *)
theory Store_Spec
  imports Store_DB
begin

text \<open>
  What the operations of \<open>Store_DB\<close> do, as equations: the state a successful write leaves
  (\<open>written\<close>), the outcome of a write on every branch when the server reports no fault
  (\<open>write_outcome\<close>), and that a failed write changes no table. The consistency of the three
  tables with each other is the invariant \<open>wf_db\<close>.
\<close>

section \<open>Unfolding a run that succeeded\<close>

lemma andThen_Inr_iff [op_defs]:
  "andThen m f s = (Inr y, u) \<longleftrightarrow> (\<exists>x t. m s = (Inr x, t) \<and> f x t = (Inr y, u))"
  by (auto simp: andThen_def split: prod.splits sum.splits)

lemma check_Inr_iff [op_defs]: "check r s = (Inr u, t) \<longleftrightarrow> r = None \<and> t = s"
  by (cases r) auto

lemma run_Inr_iff [op_defs]: "run e st q d = (Inr v, d') \<longleftrightarrow> fault e st = None \<and> q d = (Inr v, d')"
  by (auto simp: run_def split: option.splits sum.splits prod.splits)

lemma query_Inr_iff [op_defs]:
  "query e st q d = (Inr v, d') \<longleftrightarrow> fault e st = None \<and> v = q (tabs d) \<and> d' = d"
  by (auto simp: query_def run_Inr_iff)

lemma query_state: "snd (query e st q d) = d"
  by (auto simp: query_def run_def split: option.splits)

definition bumped :: "db \<Rightarrow> db" where
  "bumped d = d\<lparr>tabs := (tabs d)\<lparr>meta := map_option (\<lambda>r. r + 1) (meta (tabs d))\<rparr>\<rparr>"

definition bump_faults :: "dbenv \<Rightarrow> Dialect \<Rightarrow> bool" where
  "bump_faults e dia \<longleftrightarrow> fault e SBump \<noteq> None \<or> dia = MySQL \<and> fault e SReadBump \<noteq> None"

lemma BumpRevision_Inr_iff [op_defs]:
  "BumpRevision e dia d = (Inr rv, d') \<longleftrightarrow>
     \<not> bump_faults e dia \<and>
     (\<exists>r. meta (tabs d) = Some r \<and> r < max_int64 \<and> rv = r + 1 \<and> d' = bumped d)"
  by (cases dia)
     (auto simp: op_defs bumped_def bump_faults_def sql_update_revision_def
       split: option.splits if_splits sum.splits)

text \<open>A resolver decides what to write; it reads but does not write.\<close>

definition reads_only :: "resolve \<Rightarrow> bool" where
  "reads_only f \<longleftrightarrow> (\<forall>cur d. snd (f cur d) = d)"

lemma reads_only_resolvers [simp]:
  "reads_only (resolve_delete key)"
  "reads_only (resolve_rollback e key ver)"
  "reads_only (resolve_set val format)"
  by (auto simp: reads_only_def resolve_delete_def resolve_rollback_def resolve_set_def andThen_def
      query_def run_def split: option.splits)

section \<open>The state after a write\<close>

definition new_config :: "dbenv \<Rightarrow> string \<Rightarrow> Op \<Rightarrow> Change \<Rightarrow> string \<Rightarrow> Format \<Rightarrow> Config list \<Rightarrow> Config list" where
  "new_config e key op c val format rows =
     (if op = OpDelete then filter (\<lambda>r. cKey r \<noteq> key) rows
      else upsert_row \<lparr>cKey = key, cValue = val, cFormat = format,
          cUpdatedAt = clock e (SUpsert key val format (Author c)), cUpdatedBy = Author c\<rparr> rows)"

definition new_entry ::
    "dbenv \<Rightarrow> string \<Rightarrow> Op \<Rightarrow> Change \<Rightarrow> string \<Rightarrow> Format \<Rightarrow> db \<Rightarrow> HistoryEntry" where
  "new_entry e key op c val format d =
     (let ver = int64 (max_version key (tabs d) + 1) in
      \<lparr>hID = next_id d, hKey = key, hValue = val, hFormat = format, hVersion = ver, hOp = op,
       hComment = Comment c,
       hCreatedAt = clock e (SInsertHistory key val format ver op (Comment c) (Author c)),
       hCreatedBy = Author c\<rparr>)"

definition written ::
    "dbenv \<Rightarrow> string \<Rightarrow> Op \<Rightarrow> Change \<Rightarrow> string \<Rightarrow> Format \<Rightarrow> db \<Rightarrow> db" where
  "written e key op c val format d =
     \<lparr>tabs = \<lparr>meta = map_option (\<lambda>r. r + 1) (meta (tabs d)),
              config = new_config e key op c val format (config (tabs d)),
              history = history (tabs d) @ [new_entry e key op c val format d]\<rparr>,
      next_id = next_id d + 1\<rparr>"

lemma written_tabs [simp]:
  "meta (tabs (written e key op c val format d)) = map_option (\<lambda>r. r + 1) (meta (tabs d))"
  "config (tabs (written e key op c val format d)) = new_config e key op c val format (config (tabs d))"
  "history (tabs (written e key op c val format d)) =
     history (tabs d) @ [new_entry e key op c val format d]"
  "next_id (written e key op c val format d) = next_id d + 1"
  by (simp_all add: written_def)

lemma new_entry_simps [simp]:
  "hID (new_entry e key op c val format d) = next_id d"
  "hKey (new_entry e key op c val format d) = key"
  "hValue (new_entry e key op c val format d) = val"
  "hFormat (new_entry e key op c val format d) = format"
  "hVersion (new_entry e key op c val format d) = int64 (max_version key (tabs d) + 1)"
  "hOp (new_entry e key op c val format d) = op"
  "hComment (new_entry e key op c val format d) = Comment c"
  "hCreatedBy (new_entry e key op c val format d) = Author c"
  by (simp_all add: new_entry_def Let_def)

lemma bumped_tabs [simp]:
  "meta (tabs (bumped d)) = map_option (\<lambda>r. r + 1) (meta (tabs d))"
  "config (tabs (bumped d)) = config (tabs d)" "history (tabs (bumped d)) = history (tabs d)"
  "next_id (bumped d) = next_id d"
  by (simp_all add: bumped_def)

lemma rows_bumped [simp]:
  "config_row key (tabs (bumped d)) = config_row key (tabs d)"
  "history_rows key (tabs (bumped d)) = history_rows key (tabs d)"
  "history_at key ver (tabs (bumped d)) = history_at key ver (tabs d)"
  "max_version key (tabs (bumped d)) = max_version key (tabs d)"
  by (simp_all add: config_row_def history_rows_def history_at_def max_version_def)

lemma write_body_Inr:
  assumes "write_body e dia key op c resolve d = (Inr res, d')" and "reads_only resolve"
  shows "\<exists>r val format. meta (tabs d) = Some r \<and> r < max_int64 \<and>
    fst (resolve (config_row key (tabs d)) (bumped d)) = Inr (val, format) \<and>
    ValidateValue (yaml e) val format = None \<and>
    next_id d \<le> max_int64 \<and>
    res = \<lparr>Revision = r + 1, Version = int64 (max_version key (tabs d) + 1)\<rparr> \<and>
    d' = written e key op c val format d"
proof -
  obtain r val format t where
      m: "meta (tabs d) = Some r" "r < max_int64"
      and res: "resolve (config_row key (tabs d)) (bumped d) = (Inr (val, format), t)"
      and v: "ValidateValue (yaml e) val format = None"
      and rest: "andThen (if op = OpDelete then run e (SDelete key) (sql_delete key)
              else run e (SUpsert key val format (Author c))
                (sql_upsert (clock e (SUpsert key val format (Author c))) key val format (Author c))) (\<lambda>_.
     andThen (query e (SMaxVersion key) (max_version key)) (\<lambda>prev.
     let version = int64 (prev + 1);
         st = SInsertHistory key val format version op (Comment c) (Author c) in
     andThen (run e st
       (sql_insert_history (clock e st) key val format version op (Comment c) (Author c))) (\<lambda>_.
     ret \<lparr>Revision = r + 1, Version = version\<rparr>))) t = (Inr res, d')"
    using assms(1) by (auto simp: write_body_def getConfig_def op_defs)
  have t: "t = bumped d" using assms(2) res by (metis reads_only_def snd_conv)
  have mv: "max_version key (tabs d\<lparr>meta := x, config := y\<rparr>) = max_version key (tabs d)" for x y
    by (simp add: max_version_def history_rows_def)
  have "next_id d \<le> max_int64 \<and>
    res = \<lparr>Revision = r + 1, Version = int64 (max_version key (tabs d) + 1)\<rparr> \<and>
    d' = written e key op c val format d"
    using rest m unfolding t
    by (auto simp: op_defs sql_delete_def sql_upsert_def sql_insert_history_def Let_def written_def
        new_config_def new_entry_def bumped_def mv split: if_splits)
  then show ?thesis using m res v by auto
qed

section \<open>Transactions: all or nothing\<close>

lemma withTx_Inr_iff:
  "withTx e fn d = (Inr res, d') \<longleftrightarrow>
     fault e SBegin = None \<and> fault e SCommit = None \<and> fn d = (Inr res, d')"
  by (auto simp: withTx_def split: option.splits prod.splits sum.splits)

lemma withTx_Inl:
  assumes "withTx e fn d = (Inl err, d')"
  shows "tabs d' = tabs d \<or>
    commit_applied e \<and> (\<exists>x res. fault e SCommit = Some x \<and> err = ErrDriver x \<and> fn d = (Inr res, d'))"
  using assms by (auto simp: withTx_def split: option.splits prod.splits sum.splits if_splits)

lemma db_write_Inr_iff:
  "db_write e dia key op c resolve d = (Inr res, d') \<longleftrightarrow>
     ValidateKey key = None \<and> ValidateChange c = None \<and> fault e SBegin = None \<and>
     fault e SCommit = None \<and> write_body e dia key op c resolve d = (Inr res, d')"
  by (auto simp: db_write_def op_defs withTx_Inr_iff)

lemma db_write_Inl:
  assumes "db_write e dia key op c resolve d = (Inl err, d')"
  shows "tabs d' = tabs d \<or>
    commit_applied e \<and> (\<exists>x res. fault e SCommit = Some x \<and> err = ErrDriver x \<and>
      ValidateKey key = None \<and> ValidateChange c = None \<and>
      write_body e dia key op c resolve d = (Inr res, d'))"
  using assms withTx_Inl[of e "write_body e dia key op c resolve" d err d']
  by (cases "ValidateKey key"; cases "ValidateChange c") (auto simp: db_write_def)

text \<open>What a write that reported success did.\<close>

lemma db_write_Inr:
  assumes "db_write e dia key op c resolve d = (Inr res, d')" and "reads_only resolve"
  shows "\<exists>r val format. ValidateKey key = None \<and> ValidateChange c = None \<and>
    meta (tabs d) = Some r \<and> r < max_int64 \<and>
    fst (resolve (config_row key (tabs d)) (bumped d)) = Inr (val, format) \<and>
    ValidateValue (yaml e) val format = None \<and> next_id d \<le> max_int64 \<and>
    res = \<lparr>Revision = r + 1, Version = int64 (max_version key (tabs d) + 1)\<rparr> \<and>
    d' = written e key op c val format d"
  using assms write_body_Inr[of e dia key op c resolve d res d'] by (auto simp: db_write_Inr_iff)

section \<open>A write when the server reports no fault\<close>

definition no_fault :: "dbenv \<Rightarrow> bool" where
  "no_fault e \<longleftrightarrow> (\<forall>st. fault e st = None)"

definition fresh_version :: "string \<Rightarrow> tables \<Rightarrow> bool" where
  "fresh_version key t \<longleftrightarrow>
     (\<forall>g\<in>set (history t). hKey g = key \<longrightarrow> hVersion g \<noteq> int64 (max_version key t + 1))"

definition write_outcome ::
    "dbenv \<Rightarrow> string \<Rightarrow> Change \<Rightarrow> resolve \<Rightarrow> db \<Rightarrow> store_error + (Result \<times> string \<times> Format)" where
  "write_outcome e key c resolve d =
     (case ValidateKey key of Some f \<Rightarrow> Inl (ErrInvalidKey f) | None \<Rightarrow>
     (case ValidateChange c of Some f \<Rightarrow> Inl (ErrInvalidChange f) | None \<Rightarrow>
     (case meta (tabs d) of None \<Rightarrow> Inl ErrNotMigrated | Some r \<Rightarrow>
      if max_int64 \<le> r then Inl (ErrDriver DBRange)
      else (case fst (resolve (config_row key (tabs d)) (bumped d)) of Inl err \<Rightarrow> Inl err
      | Inr (val, format) \<Rightarrow>
        (case ValidateValue (yaml e) val format of Some f \<Rightarrow> Inl (ErrInvalidValue f) | None \<Rightarrow>
         if max_int64 < next_id d then Inl (ErrDriver DBRange)
         else Inr (\<lparr>Revision = r + 1, Version = int64 (max_version key (tabs d) + 1)\<rparr>,
                   val, format))))))"

lemma run_no_fault: "no_fault e \<Longrightarrow>
    run e st q d = (case q d of (Inl x, d') \<Rightarrow> (Inl (ErrDriver x), d') | (Inr v, d') \<Rightarrow> (Inr v, d'))"
  by (simp add: run_def no_fault_def)

lemma query_no_fault [simp]: "no_fault e \<Longrightarrow> query e st q d = (Inr (q (tabs d)), d)"
  by (simp add: query_def run_no_fault)

lemma BumpRevision_no_fault:
  "no_fault e \<Longrightarrow> BumpRevision e dia d =
     (case meta (tabs d) of None \<Rightarrow> (Inl ErrNotMigrated, d)
      | Some r \<Rightarrow> if max_int64 \<le> r then (Inl (ErrDriver DBRange), d) else (Inr (r + 1), bumped d))"
  by (cases dia)
     (auto simp: andThen_def run_no_fault sql_update_revision_def bumped_def split: option.splits)

lemma write_body_no_fault:
  assumes nf: "no_fault e" and ro: "reads_only resolve" and fr: "fresh_version key (tabs d)"
    and m: "meta (tabs d) = Some r" "r < max_int64"
  shows "fst (write_body e dia key op c resolve d) =
      (case fst (resolve (config_row key (tabs d)) (bumped d)) of Inl err \<Rightarrow> Inl err
      | Inr (val, format) \<Rightarrow>
        (case ValidateValue (yaml e) val format of Some f \<Rightarrow> Inl (ErrInvalidValue f) | None \<Rightarrow>
         if max_int64 < next_id d then Inl (ErrDriver DBRange)
         else Inr \<lparr>Revision = r + 1, Version = int64 (max_version key (tabs d) + 1)\<rparr>))"
proof -
  define w where "w = resolve (config_row key (tabs d)) (bumped d)"
  have w: "w = (fst w, bumped d)"
    using ro unfolding reads_only_def w_def by (metis prod.collapse)
  have bump: "BumpRevision e dia d = (Inr (r + 1), bumped d)"
    using m by (simp add: BumpRevision_no_fault[OF nf])
  have cfg: "getConfig e key (bumped d) = (Inr (config_row key (tabs d)), bumped d)"
    by (simp add: getConfig_def nf)
  have mv: "max_version key (tabs d\<lparr>meta := x, config := y\<rparr>) = max_version key (tabs d)" for x y
    by (simp add: max_version_def history_rows_def)
  have dup: "\<not> (\<exists>g\<in>set (history (tabs d)). hKey g = key \<and>
      hVersion g = int64 (max_version key (tabs d) + 1))"
    using fr by (auto simp: fresh_version_def)
  show ?thesis
  proof (cases "fst w")
    case (Inl err)
    then have "w = (Inl err, bumped d)" using w by simp
    then show ?thesis using bump cfg by (simp add: write_body_def w_def)
  next
    case (Inr vf)
    obtain val format where vf: "vf = (val, format)" by (cases vf)
    have wr: "resolve (config_row key (tabs d)) (bumped d) = (Inr (val, format), bumped d)"
      using w Inr vf by (simp add: w_def)
    show ?thesis
      using bump cfg wr dup
      by (cases "ValidateValue (yaml e) val format")
         (auto simp: write_body_def andThen_def run_no_fault[OF nf] query_no_fault[OF nf]
           sql_delete_def sql_upsert_def sql_insert_history_def bumped_def mv Let_def
           split: if_splits)
  qed
qed

text \<open>
  The functional specification of a write: on a database whose next version of the key is
  unused, and with no fault reported, the outcome is \<open>write_outcome\<close> and the tables change
  exactly when it is a success, then to \<open>written\<close>. Nothing depends on the dialect.
\<close>

lemma db_write_no_fault:
  assumes nf: "no_fault e" and ro: "reads_only resolve" and fr: "fresh_version key (tabs d)"
  shows "\<exists>d'. db_write e dia key op c resolve d =
      (case write_outcome e key c resolve d of
         Inl err \<Rightarrow> (Inl err, d')
       | Inr (res, val, format) \<Rightarrow> (Inr res, written e key op c val format d)) \<and> tabs d' = tabs d"
proof -
  obtain r0 d0 where w: "db_write e dia key op c resolve d = (r0, d0)"
    by (cases "db_write e dia key op c resolve d")
  have commit: "fault e st = None" for st using nf by (simp add: no_fault_def)
  have fst_w: "r0 = map_sum id fst (write_outcome e key c resolve d)"
  proof (cases "ValidateKey key = None \<and> ValidateChange c = None")
    case False
    then show ?thesis using w by (auto simp: db_write_def write_outcome_def split: option.splits)
  next
    case True
    then have tx: "withTx e (write_body e dia key op c resolve) d = (r0, d0)"
      using w by (simp add: db_write_def)
    have fst_tx: "r0 = fst (write_body e dia key op c resolve d)"
      using tx commit by (auto simp: withTx_def split: prod.splits sum.splits)
    show ?thesis
    proof (cases "meta (tabs d)")
      case None
      then show ?thesis using True fst_tx
        by (simp add: write_body_def BumpRevision_no_fault[OF nf] andThen_def write_outcome_def)
    next
      case (Some r)
      show ?thesis
      proof (cases "max_int64 \<le> r")
        case T: True
        then show ?thesis using True fst_tx Some
          by (simp add: write_body_def BumpRevision_no_fault[OF nf] andThen_def write_outcome_def)
      next
        case F: False
        then show ?thesis
          using True fst_tx Some write_body_no_fault[OF nf ro fr Some, of dia op c]
          by (auto simp: write_outcome_def split: sum.splits option.splits)
      qed
    qed
  qed
  show ?thesis
  proof (cases "write_outcome e key c resolve d")
    case (Inl err)
    then have "tabs d0 = tabs d" using db_write_Inl[of e dia key op c resolve d err d0] w fst_w commit
      by auto
    then show ?thesis using Inl w fst_w by auto
  next
    case (Inr x)
    obtain res val format where x: "x = (res, val, format)" by (cases x)
    have "r0 = Inr res" using fst_w Inr x by simp
    with w have succ: "db_write e dia key op c resolve d = (Inr res, d0)" by simp
    then have "d0 = written e key op c val format d"
      using db_write_Inr[OF succ ro] Inr x
      by (auto simp: write_outcome_def split: option.splits sum.splits if_splits)
    then show ?thesis using Inr x succ by (intro exI[of _ d]) auto
  qed
qed

end
