(* ===== verification/Store_Inv.thy ===== *)
theory Store_Inv
  imports Store_Spec
begin

text \<open>
  The consistency of the store's tables, \<open>wf_db\<close>: one row per key, every stored row passes the
  validation of \<open>store/validate.go\<close>, the versions of each key are 1, 2, 3 and so on in the order
  of the history, identifiers grow, and \<open>lite_config\<close> is the projection of
  \<open>lite_config_history\<close>: the last entry of a key, unless that is a deletion. A write that
  succeeds preserves it, and so does one that fails.
\<close>

section \<open>Lemmas on rows\<close>

lemma config_row_key: "config_row key t = Some c \<Longrightarrow> cKey c = key \<and> c \<in> set (config t)"
  by (auto simp: config_row_def find_Some_iff)

lemma config_row_None: "config_row key t = None \<longleftrightarrow> (\<forall>c\<in>set (config t). cKey c \<noteq> key)"
  by (auto simp: config_row_def find_None_iff)

lemma find_key_in:
  "distinct (map cKey cs) \<Longrightarrow> c \<in> set cs \<Longrightarrow> find (\<lambda>x. cKey x = cKey c) cs = Some c"
  by (induction cs) (auto simp: image_iff)

lemma config_row_in:
  "distinct (map cKey (config t)) \<Longrightarrow> c \<in> set (config t) \<Longrightarrow> config_row (cKey c) t = Some c"
  by (simp add: config_row_def find_key_in)

lemma find_update_row:
  "find (\<lambda>c. cKey c = k) (map (\<lambda>c. if cKey c = cKey row then row else c) xs) =
     (if k = cKey row \<and> (\<exists>c\<in>set xs. cKey c = k) then Some row else find (\<lambda>c. cKey c = k) xs)"
  by (induction xs) auto

lemma find_upsert_row:
  "find (\<lambda>c. cKey c = k) (upsert_row row rows) =
     (if k = cKey row then Some row else find (\<lambda>c. cKey c = k) rows)"
proof (cases "\<exists>c\<in>set rows. cKey c = cKey row")
  case True
  then show ?thesis by (simp add: upsert_row_def find_update_row)
next
  case False
  then have "find (\<lambda>c. cKey c = cKey row) rows = None" by (auto simp: find_None_iff)
  then show ?thesis using False by (auto simp: upsert_row_def find_append_one split: option.splits)
qed

lemma find_delete_row:
  "find (\<lambda>c. cKey c = k) (filter (\<lambda>c. cKey c \<noteq> key) rows) =
     (if k = key then None else find (\<lambda>c. cKey c = k) rows)"
  by (induction rows) auto

lemma map_cKey_upsert:
  "map cKey (upsert_row row rows) =
     (if cKey row \<in> cKey ` set rows then map cKey rows else map cKey rows @ [cKey row])"
proof -
  have "(\<exists>c\<in>set rows. cKey c = cKey row) \<longleftrightarrow> cKey row \<in> cKey ` set rows"
    by (auto simp: image_iff) metis
  then show ?thesis by (simp add: upsert_row_def comp_def if_distrib cong: if_cong)
qed

lemma distinct_filter_map: "distinct (map f xs) \<Longrightarrow> distinct (map f (filter P xs))"
  by (induction xs) auto

lemma set_upsert_row: "set (upsert_row row rows) \<subseteq> insert row (set rows)"
  by (auto simp: upsert_row_def)

lemma history_rows_written [simp]:
  "history_rows k (tabs (written e key op c val format d)) =
     history_rows k (tabs d) @ (if k = key then [new_entry e key op c val format d] else [])"
  by (simp add: history_rows_def)

lemma config_row_written:
  "config_row k (tabs (written e key op c val format d)) =
     (if k \<noteq> key then config_row k (tabs d)
      else if op = OpDelete then None
      else Some \<lparr>cKey = key, cValue = val, cFormat = format,
          cUpdatedAt = clock e (SUpsert key val format (Author c)), cUpdatedBy = Author c\<rparr>)"
  by (auto simp: config_row_def new_config_def find_upsert_row find_delete_row)

section \<open>The invariant\<close>

definition config_ok :: "(string \<Rightarrow> string option) \<Rightarrow> Config \<Rightarrow> bool" where
  "config_ok y c \<longleftrightarrow>
     ValidateKey (cKey c) = None \<and> ValidateValue y (cValue c) (cFormat c) = None \<and>
     length (cUpdatedBy c) \<le> MaxAuthorLen"

definition entry_ok :: "(string \<Rightarrow> string option) \<Rightarrow> HistoryEntry \<Rightarrow> bool" where
  "entry_ok y h \<longleftrightarrow>
     ValidateKey (hKey h) = None \<and> ValidateValue y (hValue h) (hFormat h) = None \<and>
     length (hComment h) \<le> MaxCommentLen \<and> length (hCreatedBy h) \<le> MaxAuthorLen"

definition versions_ok :: "tables \<Rightarrow> bool" where
  "versions_ok t \<longleftrightarrow>
     (\<forall>key. map hVersion (history_rows key t) = map int [1..<length (history_rows key t) + 1])"

text \<open>What the history of a key says its current state is.\<close>

definition live_row :: "HistoryEntry list \<Rightarrow> (string \<times> Format \<times> string) option" where
  "live_row rows =
     (if rows = [] \<or> hOp (last rows) = OpDelete then None
      else Some (hValue (last rows), hFormat (last rows), hCreatedBy (last rows)))"

definition row_data :: "Config \<Rightarrow> string \<times> Format \<times> string" where
  "row_data c = (cValue c, cFormat c, cUpdatedBy c)"

definition projection_ok :: "tables \<Rightarrow> bool" where
  "projection_ok t \<longleftrightarrow>
     (\<forall>key. map_option row_data (config_row key t) = live_row (history_rows key t))"

definition ids_ok :: "db \<Rightarrow> bool" where
  "ids_ok d \<longleftrightarrow>
     sorted_wrt (<) (map hID (history (tabs d))) \<and> (\<forall>h\<in>set (history (tabs d)). hID h < next_id d) \<and>
     int (length (history (tabs d))) < next_id d \<and> next_id d \<le> max_int64 + 1"

definition wf_db :: "(string \<Rightarrow> string option) \<Rightarrow> db \<Rightarrow> bool" where
  "wf_db y d \<longleftrightarrow>
     distinct (map cKey (config (tabs d))) \<and>
     (\<forall>c\<in>set (config (tabs d)). config_ok y c) \<and>
     (\<forall>h\<in>set (history (tabs d)). entry_ok y h) \<and>
     versions_ok (tabs d) \<and> projection_ok (tabs d) \<and> ids_ok d"

lemma wf_dbD:
  assumes "wf_db y d"
  shows "distinct (map cKey (config (tabs d)))"
    "c \<in> set (config (tabs d)) \<Longrightarrow> config_ok y c"
    "h \<in> set (history (tabs d)) \<Longrightarrow> entry_ok y h"
    "versions_ok (tabs d)" "projection_ok (tabs d)" "ids_ok d"
  using assms by (simp_all add: wf_db_def)

text \<open>The empty, freshly migrated database.\<close>

definition empty_db :: db where
  "empty_db = \<lparr>tabs = \<lparr>meta = Some 0, config = [], history = []\<rparr>, next_id = 1\<rparr>"

lemma wf_empty_db [simp]: "wf_db y empty_db"
  by (simp add: wf_db_def empty_db_def versions_ok_def projection_ok_def ids_ok_def
      history_rows_def config_row_def live_row_def max_int64_def)

lemma max_version_versions_ok:
  assumes "versions_ok t"
  shows "max_version key t = int (length (history_rows key t))"
proof -
  define n where "n = length (history_rows key t)"
  have v: "map hVersion (history_rows key t) = map int [1..<n + 1]"
    using assms by (simp add: versions_ok_def n_def)
  have fold_max: "fold max (map int [a..<b]) i = max i (int b - 1)" if "a < b" for a b i
    using that by (induction b) (auto simp: less_Suc_eq)
  show ?thesis
  proof (cases n)
    case 0
    then show ?thesis using n_def by (simp add: max_version_def)
  next
    case (Suc m)
    have "map int [1..<n + 1] = 1 # map int [2..<n + 1]"
      using Suc by (simp add: upt_conv_Cons numeral_2_eq_2 del: upt_Suc)
    then have "max_version key t = fold max (map int [2..<n + 1]) 1"
      using v by (simp add: max_version_def)
    also have "\<dots> = int n"
    proof (cases m)
      case 0
      then show ?thesis using Suc by simp
    next
      case (Suc k)
      then show ?thesis using fold_max[of 2 "n + 1" 1] \<open>n = Suc m\<close> by simp
    qed
    finally show ?thesis by (simp add: n_def)
  qed
qed

lemma history_rows_length: "length (history_rows key t) \<le> length (history t)"
  by (simp add: history_rows_def)

text \<open>The version number of the next write of a key: no wrap-around can happen.\<close>

lemma next_version:
  assumes "wf_db y d" and "next_id d \<le> max_int64"
  shows "int64 (max_version key (tabs d) + 1) = int (length (history_rows key (tabs d))) + 1"
proof -
  have mv: "max_version key (tabs d) = int (length (history_rows key (tabs d)))"
    using assms(1) by (simp add: max_version_versions_ok wf_dbD(4))
  have "int (length (history_rows key (tabs d))) < max_int64"
    using history_rows_length[of key "tabs d"] wf_dbD(6)[OF assms(1)] assms(2)
    by (simp add: ids_ok_def)
  then show ?thesis using mv by (simp add: min_int64_def)
qed

lemma versions_bounds:
  assumes "versions_ok t" and "h \<in> set (history t)"
  shows "1 \<le> hVersion h \<and> hVersion h \<le> int (length (history_rows (hKey h) t))"
proof -
  have "h \<in> set (history_rows (hKey h) t)" using assms(2) by (simp add: history_rows_def)
  then have "hVersion h \<in> set (map hVersion (history_rows (hKey h) t))" by simp
  then show ?thesis using assms(1) unfolding versions_ok_def by auto
qed

lemma wf_fresh_version:
  assumes "wf_db y d"
  shows "fresh_version key (tabs d)"
proof -
  have mv: "max_version key (tabs d) = int (length (history_rows key (tabs d)))"
    using assms by (simp add: max_version_versions_ok wf_dbD(4))
  have len: "int (length (history_rows key (tabs d))) \<le> max_int64"
    using history_rows_length[of key "tabs d"] wf_dbD(6)[OF assms] by (simp add: ids_ok_def)
  have "hVersion h \<noteq> int64 (max_version key (tabs d) + 1)"
    if "h \<in> set (history (tabs d))" "hKey h = key" for h
  proof (cases "max_version key (tabs d) = max_int64")
    case True
    then have "int64 (max_version key (tabs d) + 1) = min_int64" by (simp add: int64_overflow)
    then show ?thesis using versions_bounds[OF wf_dbD(4)[OF assms] that(1)] by (simp add: min_int64_def)
  next
    case False
    then have "int64 (max_version key (tabs d) + 1) = max_version key (tabs d) + 1"
      using mv len by (simp add: min_int64_def)
    then show ?thesis using versions_bounds[OF wf_dbD(4)[OF assms] that(1)] mv that(2) by simp
  qed
  then show ?thesis by (auto simp: fresh_version_def)
qed

lemma wf_tabs_eq: "wf_db y d \<Longrightarrow> tabs d' = tabs d \<Longrightarrow> next_id d \<le> next_id d' \<Longrightarrow>
    next_id d' \<le> max_int64 + 1 \<Longrightarrow> wf_db y d'"
  by (auto simp: wf_db_def ids_ok_def)

section \<open>A successful write preserves the invariant\<close>

lemma wf_written:
  assumes wf: "wf_db (yaml e) d" and k: "ValidateKey key = None" and c: "ValidateChange c = None"
    and v: "ValidateValue (yaml e) val format = None" and n: "next_id d \<le> max_int64"
  shows "wf_db (yaml e) (written e key op c val format d)"
proof -
  let ?d' = "written e key op c val format d"
  have lens: "length (Author c) \<le> MaxAuthorLen" "length (Comment c) \<le> MaxCommentLen"
    using c by (auto simp: ValidateChange_def split: if_splits)
  have keys: "distinct (map cKey (config (tabs ?d')))"
    using wf_dbD(1)[OF wf] by (simp add: new_config_def map_cKey_upsert distinct_filter_map)
  have cfg: "config_ok (yaml e) r" if "r \<in> set (config (tabs ?d'))" for r
    using that wf_dbD(2)[OF wf] k v lens set_upsert_row
    by (fastforce simp: new_config_def config_ok_def split: if_splits)
  have ent: "entry_ok (yaml e) h" if "h \<in> set (history (tabs ?d'))" for h
    using that wf_dbD(3)[OF wf] k v lens by (auto simp: entry_ok_def)
  have vers: "versions_ok (tabs ?d')"
    using wf_dbD(4)[OF wf] next_version[OF wf n] by (auto simp: versions_ok_def)
  have "map_option row_data (config_row k (tabs ?d')) = live_row (history_rows k (tabs ?d'))" for k
  proof (cases "k = key")
    case True
    then show ?thesis by (simp add: config_row_written live_row_def row_data_def)
  next
    case False
    then show ?thesis using wf_dbD(5)[OF wf] by (simp add: config_row_written projection_ok_def)
  qed
  then have proj: "projection_ok (tabs ?d')" by (simp add: projection_ok_def)
  have ids: "ids_ok ?d'"
    using wf_dbD(6)[OF wf] n by (auto simp: ids_ok_def sorted_wrt_append)
  show ?thesis using keys cfg ent vers proj ids by (simp add: wf_db_def)
qed

end
