(* ===== verification/Store_Ops.thy ===== *)
theory Store_Ops
  imports Store_Inv "HOL-Library.Multiset"
begin

text \<open>
  The operations of \<open>store.DB\<close> one by one: what \<open>Set\<close>, \<open>Delete\<close> and \<open>Rollback\<close> report and leave
  behind on every branch, what \<open>Get\<close>, \<open>History\<close> and \<open>ListPrefixes\<close> then return, and the
  invariant along any sequence of them.
\<close>

section \<open>Identifiers only grow\<close>

definition ids_grow :: "db \<Rightarrow> db \<Rightarrow> bool" where
  "ids_grow d d' \<longleftrightarrow>
     next_id d \<le> next_id d' \<and> (next_id d \<le> max_int64 + 1 \<longrightarrow> next_id d' \<le> max_int64 + 1)"

lemma ids_grow_refl [simp]: "ids_grow d d"
  by (simp add: ids_grow_def)

lemma ids_grow_tabs [simp]: "ids_grow d (d\<lparr>tabs := t\<rparr>)" "ids_grow d (d'\<lparr>tabs := t\<rparr>) = ids_grow d d'"
  by (simp_all add: ids_grow_def)

lemma ids_grow_trans: "ids_grow a b \<Longrightarrow> ids_grow b c \<Longrightarrow> ids_grow a c"
  by (auto simp: ids_grow_def)

lemma andThen_grow [pres]:
  "(\<And>d. ids_grow d (snd (m d))) \<Longrightarrow> (\<And>x d. ids_grow d (snd (f x d))) \<Longrightarrow>
   ids_grow d (snd (andThen m f d))"
  by (auto simp: andThen_def split: prod.splits sum.splits) (metis ids_grow_trans snd_conv)+

lemma check_grow [pres]: "ids_grow d (snd (check r d))"
  by (cases r) auto

lemma run_grow [pres]: "(\<And>d. ids_grow d (snd (q d))) \<Longrightarrow> ids_grow d (snd (run e st q d))"
  by (auto simp: run_def split: option.splits prod.splits sum.splits) (metis snd_conv)+

lemma query_grow [pres]: "ids_grow d (snd (query e st q d))"
  by (simp add: query_state)

lemma sql_grow [pres]:
  "ids_grow d (snd (sql_update_revision d))" "ids_grow d (snd (sql_delete key d))"
  "ids_grow d (snd (sql_upsert now key val format author d))"
  "ids_grow d (snd (sql_insert_history now key val format ver op comment author d))"
  by (auto simp: sql_update_revision_def sql_delete_def sql_upsert_def sql_insert_history_def
      ids_grow_def Let_def split: option.splits)

lemma BumpRevision_grow [pres]: "ids_grow d (snd (BumpRevision e dia d))"
proof (cases dia)
  case MySQL
  then show ?thesis by (auto intro!: pres split: option.splits)
next
  case Postgres
  have "ids_grow d (snd (case sql_update_revision d of
      (Inl x, d') \<Rightarrow> (Inl x, d') | (Inr n, d') \<Rightarrow> (Inr (if n = 0 then None else meta (tabs d')), d')))" for d
    using sql_grow(1)[of d] by (auto split: prod.splits sum.splits)
  then show ?thesis using Postgres by (auto intro!: pres split: option.splits)
qed

lemma write_body_grow:
  assumes "reads_only resolve"
  shows "ids_grow d (snd (write_body e dia key op c resolve d))"
proof -
  have "ids_grow d (snd (resolve cur d))" for cur d
    using assms by (simp add: reads_only_def)
  then show ?thesis
    unfolding write_body_def getConfig_def Let_def
    by (auto intro!: pres split: prod.splits)
qed

lemma db_write_grow:
  assumes "reads_only resolve"
  shows "ids_grow d (snd (db_write e dia key op c resolve d))"
proof -
  have "ids_grow d (snd (withTx e (write_body e dia key op c resolve) d))" for d
    using write_body_grow[OF assms, of d e dia key op c]
    by (auto simp: withTx_def split: option.splits prod.splits sum.splits)
  then show ?thesis unfolding db_write_def by (auto intro!: pres)
qed

section \<open>A write keeps the invariant, whether it succeeds or not\<close>

lemma db_write_cases:
  assumes "reads_only resolve"
  obtains (unchanged) "tabs (snd (db_write e dia key op c resolve d)) = tabs d"
  | (wrote) r val format where "ValidateKey key = None" "ValidateChange c = None"
      "meta (tabs d) = Some r" "r < max_int64"
      "fst (resolve (config_row key (tabs d)) (bumped d)) = Inr (val, format)"
      "ValidateValue (yaml e) val format = None" "next_id d \<le> max_int64"
      "snd (db_write e dia key op c resolve d) = written e key op c val format d"
proof (cases "db_write e dia key op c resolve d")
  case (Pair r0 d')
  show thesis
  proof (cases r0)
    case (Inl err)
    with Pair have "db_write e dia key op c resolve d = (Inl err, d')" by simp
    from db_write_Inl[OF this] consider "tabs d' = tabs d"
      | res where "ValidateKey key = None" "ValidateChange c = None"
          "write_body e dia key op c resolve d = (Inr res, d')" by blast
    then show thesis
    proof cases
      case 1
      then show thesis using Pair unchanged by simp
    next
      case 2
      from write_body_Inr[OF 2(3) assms] obtain r val format where w: "meta (tabs d) = Some r" "r < max_int64"
          "fst (resolve (config_row key (tabs d)) (bumped d)) = Inr (val, format)"
          "ValidateValue (yaml e) val format = None" "next_id d \<le> max_int64"
          "d' = written e key op c val format d" by blast
      show thesis by (rule wrote[OF 2(1,2) w(1-5)]) (simp add: Pair w(6))
    qed
  next
    case (Inr res)
    with Pair have "db_write e dia key op c resolve d = (Inr res, d')" by simp
    from db_write_Inr[OF this assms] obtain r val format where
        v: "ValidateKey key = None" "ValidateChange c = None" and w: "meta (tabs d) = Some r" "r < max_int64"
          "fst (resolve (config_row key (tabs d)) (bumped d)) = Inr (val, format)"
          "ValidateValue (yaml e) val format = None" "next_id d \<le> max_int64"
          "d' = written e key op c val format d" by blast
    show thesis by (rule wrote[OF v w(1-5)]) (simp add: Pair w(6))
  qed
qed

lemma wf_db_write [pres]:
  assumes "wf_db (yaml e) d" and "reads_only resolve"
  shows "wf_db (yaml e) (snd (db_write e dia key op c resolve d))"
proof (rule db_write_cases[OF assms(2), of e dia key op c d])
  assume "tabs (snd (db_write e dia key op c resolve d)) = tabs d"
  moreover have "next_id d \<le> max_int64 + 1" using wf_dbD(6)[OF assms(1)] by (simp add: ids_ok_def)
  moreover note db_write_grow[OF assms(2), of d e dia key op c]
  ultimately show ?thesis by (intro wf_tabs_eq[OF assms(1)]) (simp_all add: ids_grow_def)
next
  fix r val format
  assume "ValidateKey key = None" "ValidateChange c = None"
    "ValidateValue (yaml e) val format = None" "next_id d \<le> max_int64"
    and "snd (db_write e dia key op c resolve d) = written e key op c val format d"
  then show ?thesis using wf_written[OF assms(1)] by simp
qed

section \<open>Sequences of operations\<close>

datatype request =
  ReqSet string string Format Change
| ReqDelete string Change
| ReqRollback string int Change

fun perform :: "dbenv \<Rightarrow> Dialect \<Rightarrow> request \<Rightarrow> Result dbact" where
  "perform e dia (ReqSet key val format c) = Set e dia key val format c"
| "perform e dia (ReqDelete key c) = Delete e dia key c"
| "perform e dia (ReqRollback key ver c) = Rollback e dia key ver c"

fun req_key :: "request \<Rightarrow> string" where
  "req_key (ReqSet key val format c) = key"
| "req_key (ReqDelete key c) = key"
| "req_key (ReqRollback key ver c) = key"

fun req_change :: "request \<Rightarrow> Change" where
  "req_change (ReqSet key val format c) = c"
| "req_change (ReqDelete key c) = c"
| "req_change (ReqRollback key ver c) = c"

fun req_op :: "request \<Rightarrow> Op" where
  "req_op (ReqSet key val format c) = OpSet"
| "req_op (ReqDelete key c) = OpDelete"
| "req_op (ReqRollback key ver c) = OpRollback"

fun req_resolve :: "dbenv \<Rightarrow> request \<Rightarrow> resolve" where
  "req_resolve e (ReqSet key val format c) = resolve_set val (if format = [] then FormatRaw else format)"
| "req_resolve e (ReqDelete key c) = resolve_delete key"
| "req_resolve e (ReqRollback key ver c) = resolve_rollback e key ver"

lemma perform_db_write:
  "perform e dia q = db_write e dia (req_key q) (req_op q) (req_change q) (req_resolve e q)"
  by (cases q) (simp_all add: Set_def Delete_def Rollback_def)

lemma reads_only_req [simp]: "reads_only (req_resolve e q)"
  by (cases q) simp_all

text \<open>The databases that the operations can produce, each with an environment of its own.\<close>

inductive store_reach :: "(string \<Rightarrow> string option) \<Rightarrow> db \<Rightarrow> bool" for y where
  fresh: "store_reach y empty_db"
| step: "store_reach y d \<Longrightarrow> yaml e = y \<Longrightarrow> store_reach y (snd (perform e dia q d))"

lemma store_reach_wf: "store_reach y d \<Longrightarrow> wf_db y d"
  by (induction rule: store_reach.induct) (auto simp: perform_db_write intro!: pres)

text \<open>The watermark counts the history: no write is skipped and none is counted twice.\<close>

lemma perform_meta_length:
  assumes "meta (tabs d) = Some (int (length (history (tabs d))))"
  shows "meta (tabs (snd (perform e dia q d))) =
    Some (int (length (history (tabs (snd (perform e dia q d))))))"
  unfolding perform_db_write
  by (rule db_write_cases[of "req_resolve e q" e dia "req_key q" "req_op q" "req_change q" d])
     (use assms in auto)

lemma store_reach_meta: "store_reach y d \<Longrightarrow> meta (tabs d) = Some (int (length (history (tabs d))))"
proof (induction rule: store_reach.induct)
  case fresh
  then show ?case by (simp add: empty_db_def)
next
  case (step d e dia q)
  then show ?case by (intro perform_meta_length)
qed

section \<open>Reading back\<close>

lemma Get_no_fault:
  assumes "no_fault e"
  shows "Get e key d =
    (case ValidateKey key of Some f \<Rightarrow> Inl (ErrInvalidKey f)
     | None \<Rightarrow> (case config_row key (tabs d) of None \<Rightarrow> Inl (ErrNotFound (NoKey key)) | Some c \<Rightarrow> Inr c), d)"
  using assms by (auto simp: Get_def getConfig_def andThen_def check_def split: option.splits)

lemma History_no_fault:
  assumes "no_fault e"
  shows "History e key limit d =
    (case ValidateKey key of Some f \<Rightarrow> Inl (ErrInvalidKey f)
     | None \<Rightarrow> Inr (select_history key limit (tabs d)), d)"
  using assms by (auto simp: History_def andThen_def check_def split: option.splits)

lemma ListPrefixes_no_fault:
  assumes "no_fault e"
  shows "ListPrefixes e dia ps d =
    (Inr (select_configs (collate e) (list_all_rows dia ps) (list_args dia ps) (tabs d)), d)"
  using assms by (simp add: ListPrefixes_def)

lemma ReadRevision_no_fault:
  assumes "no_fault e"
  shows "ReadRevision e d =
    (case meta (tabs d) of None \<Rightarrow> Inl ErrNotMigrated | Some r \<Rightarrow> Inr r, d)"
  using assms by (auto simp: ReadRevision_def andThen_def split: option.splits)

text \<open>Which rows a list of prefixes selects.\<close>

definition under :: "string list \<Rightarrow> string \<Rightarrow> bool" where
  "under ps key \<longleftrightarrow> ps = [] \<or> (\<exists>p\<in>set ps. prefix p key)"

lemma select_configs_under:
  "select_configs coll (list_all_rows dia ps) (list_args dia ps) t =
     sort_key (\<lambda>c. coll (cKey c)) (filter (\<lambda>c. under ps (cKey c)) (config t))"
proof -
  have "(list_all_rows dia ps \<or> list_ex (\<lambda>pat. like_match pat k) (list_args dia ps)) \<longleftrightarrow> under ps k" for k
    by (auto simp: list_all_rows_iff list_args_eq under_def list_ex_iff like_match_likePrefix
        intro: bexI[of _ "[]"])
  then show ?thesis by (simp add: select_configs_def)
qed

lemma select_history_rows:
  assumes "versions_ok t"
  shows "select_history key limit t =
    (if 0 < limit then take (nat limit) else (\<lambda>x. x)) (rev (history_rows key t))"
proof -
  let ?rows = "history_rows key t"
  have v: "map hVersion ?rows = map int [1..<length ?rows + 1]"
    using assms by (simp add: versions_ok_def)
  have "map (\<lambda>h. - hVersion h) (rev ?rows) = rev (map uminus (map hVersion ?rows))"
    by (simp add: rev_map comp_def)
  also have "\<dots> = rev (map (\<lambda>i. - int i) [1..<length ?rows + 1])" by (simp add: v comp_def)
  finally have eq: "map (\<lambda>h. - hVersion h) (rev ?rows) = rev (map (\<lambda>i. - int i) [1..<length ?rows + 1])" .
  have sorted: "sorted (map (\<lambda>h. - hVersion h) (rev ?rows))"
    unfolding eq by (simp add: sorted_wrt_rev sorted_wrt_map del: upt_Suc)
  have dist: "distinct (map (\<lambda>h. - hVersion h) ?rows)"
  proof -
    have "map (\<lambda>h. - hVersion h) ?rows = map uminus (map hVersion ?rows)" by simp
    then show ?thesis unfolding v by (simp add: distinct_map inj_on_def del: upt_Suc)
  qed
  have "sort_key (\<lambda>h. - hVersion h) ?rows = rev ?rows"
    using sorted dist by (intro sort_key_inj_key_eq) (auto simp: distinct_map)
  then show ?thesis by (simp add: select_history_def Let_def)
qed

end
