(* ===== verification/Store_Props.thy ===== *)
theory Store_Props
  imports Store_Ops
begin

text \<open>
  The properties of the store: consistency of the tables along every run, atomicity, the exact
  outcome of every write, read-your-write, recovery of deleted keys, rollback, prefix listing
  and history.
\<close>

section \<open>Writes that succeed\<close>

definition ready :: "string \<Rightarrow> Change \<Rightarrow> db \<Rightarrow> bool" where
  "ready key c d \<longleftrightarrow> ValidateKey key = None \<and> ValidateChange c = None \<and>
     (\<exists>r. meta (tabs d) = Some r \<and> r < max_int64) \<and> next_id d \<le> max_int64"

lemma perform_no_fault:
  assumes "no_fault e" and "wf_db (yaml e) d"
  shows "\<exists>d'. perform e dia q d =
      (case write_outcome e (req_key q) (req_change q) (req_resolve e q) d of
         Inl err \<Rightarrow> (Inl err, d')
       | Inr (res, val, format) \<Rightarrow>
           (Inr res, written e (req_key q) (req_op q) (req_change q) val format d)) \<and>
      tabs d' = tabs d"
  unfolding perform_db_write
  by (rule db_write_no_fault[OF assms(1) reads_only_req wf_fresh_version[OF assms(2)]])

lemma write_success:
  assumes nf: "no_fault e" and wf: "wf_db (yaml e) d" and rd: "ready (req_key q) (req_change q) d"
    and res: "fst (req_resolve e q (config_row (req_key q) (tabs d)) (bumped d)) = Inr (val, format)"
    and v: "ValidateValue (yaml e) val format = None"
  shows "perform e dia q d =
      (Inr \<lparr>Revision = the (meta (tabs d)) + 1,
            Version = int (length (history_rows (req_key q) (tabs d))) + 1\<rparr>,
       written e (req_key q) (req_op q) (req_change q) val format d)"
proof -
  obtain r where r: "meta (tabs d) = Some r" "r < max_int64" using rd by (auto simp: ready_def)
  have n: "next_id d \<le> max_int64" using rd by (simp add: ready_def)
  have "write_outcome e (req_key q) (req_change q) (req_resolve e q) d =
      Inr (\<lparr>Revision = r + 1, Version = int (length (history_rows (req_key q) (tabs d))) + 1\<rparr>, val, format)"
    using rd r n res v next_version[OF wf n] by (simp add: write_outcome_def ready_def)
  with perform_no_fault[OF nf wf, of dia q] r show ?thesis by auto
qed

lemma history_at_in: "history_at key ver t = Some (val, format) \<Longrightarrow>
    \<exists>h\<in>set (history t). hKey h = key \<and> hVersion h = ver \<and> hValue h = val \<and> hFormat h = format"
  by (auto simp: history_at_def find_Some_iff)

lemma history_at_row:
  assumes "versions_ok t" and "i < length (history_rows key t)"
  shows "history_at key (int i + 1) t =
    Some (hValue (history_rows key t ! i), hFormat (history_rows key t ! i))"
proof -
  let ?rows = "history_rows key t"
  have vi: "hVersion (?rows ! j) = int j + 1" if "j < length ?rows" for j
  proof -
    have "map hVersion ?rows ! j = map int [1..<length ?rows + 1] ! j"
      using assms(1) by (simp add: versions_ok_def)
    then show ?thesis using that by (simp del: upt_Suc)
  qed
  have find_filter: "find (\<lambda>h. P h \<and> Q h) xs = find Q (filter P xs)" for P Q and xs :: "HistoryEntry list"
    by (induction xs) auto
  have "find (\<lambda>h. hVersion h = int i + 1) ?rows = Some (?rows ! i)"
    using assms(2) vi by (auto simp: find_Some_iff intro!: exI[of _ i])
  then show ?thesis by (simp add: history_at_def find_filter history_rows_def)
qed

lemma rollback_success:
  assumes "no_fault e" "wf_db (yaml e) d" "ready key c d"
    and "history_at key ver (tabs d) = Some (val, format)"
  shows "Rollback e dia key ver c d =
    (Inr \<lparr>Revision = the (meta (tabs d)) + 1, Version = int (length (history_rows key (tabs d))) + 1\<rparr>,
     written e key OpRollback c val format d)"
proof -
  have "ValidateValue (yaml e) val format = None"
    using history_at_in[OF assms(4)] wf_dbD(3)[OF assms(2)] by (auto simp: entry_ok_def)
  moreover have "fst (resolve_rollback e key ver cur (bumped d)) = Inr (val, format)" for cur
    using assms(1,4) by (simp add: resolve_rollback_def andThen_def)
  ultimately show ?thesis
    using write_success[of e d "ReqRollback key ver c" val format dia] assms by simp
qed

lemma delete_success:
  assumes "no_fault e" "wf_db (yaml e) d" "ready key c d" and "config_row key (tabs d) = Some row"
  shows "Delete e dia key c d =
    (Inr \<lparr>Revision = the (meta (tabs d)) + 1, Version = int (length (history_rows key (tabs d))) + 1\<rparr>,
     written e key OpDelete c (cValue row) (cFormat row) d)"
proof -
  have "ValidateValue (yaml e) (cValue row) (cFormat row) = None"
    using config_row_key[OF assms(4)] wf_dbD(2)[OF assms(2)] by (auto simp: config_ok_def)
  then show ?thesis
    using write_success[of e d "ReqDelete key c" "cValue row" "cFormat row" dia] assms
    by (simp add: resolve_delete_def)
qed

lemma set_success:
  assumes "no_fault e" "wf_db (yaml e) d" "ready key c d"
    and "ValidateValue (yaml e) val (if format = [] then FormatRaw else format) = None"
  shows "Set e dia key val format c d =
    (Inr \<lparr>Revision = the (meta (tabs d)) + 1, Version = int (length (history_rows key (tabs d))) + 1\<rparr>,
     written e key OpSet c val (if format = [] then FormatRaw else format) d)"
  using write_success[of e d "ReqSet key val format c" val "if format = [] then FormatRaw else format" dia]
    assms by (simp add: resolve_set_def)

text \<open>A key that has a current row has a history whose last entry holds the same value.\<close>

lemma row_last_entry:
  assumes "wf_db y d" and "config_row key (tabs d) = Some row"
  shows "history_rows key (tabs d) \<noteq> []"
    "hOp (last (history_rows key (tabs d))) \<noteq> OpDelete"
    "hValue (last (history_rows key (tabs d))) = cValue row"
    "hFormat (last (history_rows key (tabs d))) = cFormat row"
  using wf_dbD(5)[OF assms(1)] assms(2)
  by (auto simp: projection_ok_def live_row_def row_data_def split: if_splits
      dest!: spec[of _ key])

section \<open>Example environment\<close>

definition env0 :: dbenv where
  "env0 = \<lparr>fault = (\<lambda>_. None), commit_applied = False, clock = (\<lambda>_. 0), collate = (\<lambda>s. s),
           yaml = (\<lambda>_. None)\<rparr>"

definition chg0 :: Change where "chg0 = \<lparr>Author = ''ops'', Comment = []\<rparr>"

lemma env0_simps [simp]: "no_fault env0" "yaml env0 = (\<lambda>_. None)" "fault env0 st = None" "collate env0 = (\<lambda>s. s)"
  by (simp_all add: env0_def no_fault_def)

lemma ready_empty: "ready ''app:a'' chg0 empty_db"
  by (simp add: ready_def ValidateKey_None ValidateChange_def chg0_def empty_db_def limit_defs
      max_int64_def key_char_def)

lemma empty_db_simps [simp]:
  "meta (tabs empty_db) = Some 0" "history_rows key (tabs empty_db) = []" "next_id empty_db = 1"
  by (simp_all add: empty_db_def history_rows_def)

definition db1 :: db where
  "db1 = written env0 ''app:a'' OpSet chg0 ''30s'' FormatRaw empty_db"

lemma set_db1: "Set env0 MySQL ''app:a'' ''30s'' ''raw'' chg0 empty_db =
    (Inr \<lparr>Revision = 1, Version = 1\<rparr>, db1)"
proof -
  have "ValidateValue (yaml env0) ''30s'' (if ''raw'' = [] then FormatRaw else ''raw'') = None"
    by (simp add: ValidateValue_def limit_defs FormatRaw_def)
  from set_success[OF _ _ ready_empty this, of MySQL] show ?thesis by (simp add: db1_def FormatRaw_def)
qed

lemma reach_db1: "store_reach (\<lambda>_. None) db1"
  using store_reach.step[OF store_reach.fresh, of env0 "\<lambda>_. None" MySQL "ReqSet ''app:a'' ''30s'' ''raw'' chg0"]
  by (simp add: set_db1)

lemma wf_db1: "wf_db (\<lambda>_. None) db1"
  by (rule store_reach_wf[OF reach_db1])

lemma rows_db1 [simp]:
  "config_row ''app:a'' (tabs db1) =
     Some \<lparr>cKey = ''app:a'', cValue = ''30s'', cFormat = FormatRaw, cUpdatedAt = 0, cUpdatedBy = ''ops''\<rparr>"
  "meta (tabs db1) = Some 1" "next_id db1 = 2"
  by (simp_all add: db1_def config_row_written) (simp_all add: env0_def chg0_def empty_db_def)

lemma ready_db1: "ready ''app:a'' chg0 db1"
  using ready_empty by (simp add: ready_def max_int64_def)

section \<open>Properties\<close>

text \<open>
  C1. Starting from a freshly migrated database, after any sequence of set, delete and rollback
  requests, with any faults of the server along the way, the tables are consistent: one
  valid row per key, versions 1, 2, 3 and so on per key, and \<open>lite_config\<close> equal to what the
  last history entry of each key says; and the revision equals the number of history
  entries, so it is strictly increasing and has no gap.
\<close>

theorem store_reachable_consistent:
  assumes "store_reach y d"
  shows "wf_db y d \<and> meta (tabs d) = Some (int (length (history (tabs d))))"
  using assms by (simp add: store_reach_wf store_reach_meta)

theorem store_reachable_consistent_witness:
  "store_reach (\<lambda>_. None) db1 \<and> wf_db (\<lambda>_. None) db1 \<and>
   meta (tabs db1) = Some (int (length (history (tabs db1))))"
  using reach_db1 store_reachable_consistent[OF reach_db1] by simp

text \<open>
  C2. A write is all or nothing, whatever statement fails: afterwards the tables are untouched or
  hold exactly the complete write. They hold it if success was reported, and if an error was
  reported they hold it only when the commit itself was reported as failed but took effect.
\<close>

theorem write_all_or_nothing:
  assumes "perform e dia q d = (r, d')"
  shows "(case r of
      Inr res \<Rightarrow> \<exists>val format. d' = written e (req_key q) (req_op q) (req_change q) val format d
    | Inl err \<Rightarrow> tabs d' = tabs d \<or>
        commit_applied e \<and> fault e SCommit \<noteq> None \<and>
        (\<exists>val format. d' = written e (req_key q) (req_op q) (req_change q) val format d))"
proof (cases r)
  case (Inl err)
  have w: "db_write e dia (req_key q) (req_op q) (req_change q) (req_resolve e q) d = (Inl err, d')"
    using assms Inl by (simp add: perform_db_write)
  have "\<exists>val format. d' = written e (req_key q) (req_op q) (req_change q) val format d"
    if "write_body e dia (req_key q) (req_op q) (req_change q) (req_resolve e q) d = (Inr res, d')" for res
    using write_body_Inr[OF that reads_only_req] by blast
  then show ?thesis using db_write_Inl[OF w] Inl by auto
next
  case (Inr res)
  have w: "db_write e dia (req_key q) (req_op q) (req_change q) (req_resolve e q) d = (Inr res, d')"
    using assms Inr by (simp add: perform_db_write)
  show ?thesis using db_write_Inr[OF w reads_only_req] Inr by auto
qed

text \<open>A server that fails to insert into the history, after the configuration row was written.\<close>

definition env_hist_down :: dbenv where
  "env_hist_down = env0\<lparr>fault := (\<lambda>st. case st of SInsertHistory _ _ _ _ _ _ _ \<Rightarrow> Some (DBOther ''io'') | _ \<Rightarrow> None)\<rparr>"

theorem write_all_or_nothing_witness:
  "fst (perform env_hist_down Postgres (ReqSet ''app:a'' ''60s'' ''raw'' chg0) db1) =
     Inl (ErrDriver (DBOther ''io'')) \<and>
   tabs (snd (perform env_hist_down Postgres (ReqSet ''app:a'' ''60s'' ''raw'' chg0) db1)) = tabs db1"
proof -
  let ?w = "perform env_hist_down Postgres (ReqSet ''app:a'' ''60s'' ''raw'' chg0) db1"
  have key: "ValidateKey ''app:a'' = None" "ValidateChange chg0 = None"
    using ready_db1 by (simp_all add: ready_def)
  have fst_w: "fst ?w = Inl (ErrDriver (DBOther ''io''))"
    using key
    by (simp add: perform_db_write db_write_def withTx_def write_body_def andThen_def getConfig_def
        query_def run_def env_hist_down_def sql_update_revision_def sql_upsert_def sql_insert_history_def
        resolve_set_def ValidateValue_def FormatRaw_def limit_defs max_int64_def Let_def check_def
        env0_def)
  have "?w = (Inl (ErrDriver (DBOther ''io'')), snd ?w)" using fst_w by (metis prod.collapse)
  from write_all_or_nothing[OF this] show ?thesis
    using fst_w by (auto simp: env_hist_down_def env0_def)
qed

text \<open>
  C3. The exact outcome of every write on a consistent database when the server reports no
  fault: key, audit data, seed row, revision range, existence (for delete and rollback), value
  and identifier range are checked in this order and the first failed check is the error;
  otherwise the result is the next revision and the next version of the key, and the tables
  become \<open>written\<close>. The outcome does not depend on the database dialect.
\<close>

theorem write_outcome_exact:
  assumes "no_fault e" and "wf_db (yaml e) d"
  shows "\<exists>d'. perform e dia q d =
      (case write_outcome e (req_key q) (req_change q) (req_resolve e q) d of
         Inl err \<Rightarrow> (Inl err, d')
       | Inr (res, val, format) \<Rightarrow>
           (Inr res, written e (req_key q) (req_op q) (req_change q) val format d)) \<and>
      tabs d' = tabs d"
  using assms by (rule perform_no_fault)

theorem write_outcome_exact_witness:
  "fst (perform env0 MySQL (ReqDelete ''app:b'' chg0) db1) = Inl (ErrNotFound (NoKey ''app:b''))"
proof -
  have "config_row ''app:b'' (tabs db1) = None"
    by (simp add: db1_def config_row_written) (simp add: empty_db_def config_row_def)
  moreover have "ValidateKey ''app:b'' = None" by (simp add: ValidateKey_None limit_defs key_char_def)
  moreover have "ValidateChange chg0 = None" using ready_db1 by (simp add: ready_def)
  ultimately have "write_outcome env0 ''app:b'' chg0 (resolve_delete ''app:b'') db1 =
      Inl (ErrNotFound (NoKey ''app:b''))"
    by (simp add: write_outcome_def resolve_delete_def max_int64_def)
  then show ?thesis
    using write_outcome_exact[of env0 db1 MySQL "ReqDelete ''app:b'' chg0"] wf_db1 by auto
qed

text \<open>
  C4. A successful \<open>Set\<close> is read back: \<open>Get\<close> returns the value, its format (raw when none was
  given) and the author; the newest history entry is this write, with the version that was
  reported; and every other key reads as before.
\<close>

theorem set_then_get:
  assumes "Set e dia key val format c d = (Inr res, d1)" and "wf_db (yaml e) d" and "no_fault e'"
  shows "(\<exists>row. Get e' key d1 = (Inr row, d1) \<and> cKey row = key \<and> cValue row = val \<and>
        cFormat row = (if format = [] then FormatRaw else format) \<and> cUpdatedBy row = Author c) \<and>
    (\<exists>h. History e' key 1 d1 = (Inr [h], d1) \<and> hVersion h = Version res \<and> hOp h = OpSet \<and>
        hValue h = val \<and> hComment h = Comment c) \<and>
    (\<forall>k. k \<noteq> key \<longrightarrow> fst (Get e' k d1) = fst (Get e' k d))"
proof -
  have w: "db_write e dia key OpSet c (resolve_set val (if format = [] then FormatRaw else format)) d =
      (Inr res, d1)" using assms(1) by (simp add: Set_def)
  obtain r where k: "ValidateKey key = None" and n: "next_id d \<le> max_int64"
      and res: "res = \<lparr>Revision = r + 1, Version = int64 (max_version key (tabs d) + 1)\<rparr>"
      and d1: "d1 = written e key OpSet c val (if format = [] then FormatRaw else format) d"
      and v: "ValidateValue (yaml e) val (if format = [] then FormatRaw else format) = None"
      and c: "ValidateChange c = None"
    using db_write_Inr[OF w] by (auto simp: resolve_set_def)
  have wf1: "wf_db (yaml e) d1" unfolding d1 by (rule wf_written[OF assms(2) k c v n])
  have "select_history key 1 (tabs d1) = [new_entry e key OpSet c val (if format = [] then FormatRaw else format) d]"
    using select_history_rows[OF wf_dbD(4)[OF wf1], of key 1] by (simp add: d1)
  then have hist: "\<exists>h. History e' key 1 d1 = (Inr [h], d1) \<and> hVersion h = Version res \<and> hOp h = OpSet \<and>
      hValue h = val \<and> hComment h = Comment c"
    using k by (simp add: History_no_fault[OF assms(3)] res)
  have other: "fst (Get e' k d1) = fst (Get e' k d)" if "k \<noteq> key" for k
  proof -
    have "config_row k (tabs d1) = config_row k (tabs d)" using that by (simp add: d1 config_row_written)
    then show ?thesis by (cases "ValidateKey k") (simp_all add: Get_no_fault[OF assms(3)])
  qed
  have "\<exists>row. Get e' key d1 = (Inr row, d1) \<and> cKey row = key \<and> cValue row = val \<and>
      cFormat row = (if format = [] then FormatRaw else format) \<and> cUpdatedBy row = Author c"
    using k by (simp add: Get_no_fault[OF assms(3)] d1 config_row_written)
  then show ?thesis using hist other by blast
qed

theorem set_then_get_witness:
  "fst (Get env0 ''app:a'' db1) =
     Inr \<lparr>cKey = ''app:a'', cValue = ''30s'', cFormat = FormatRaw, cUpdatedAt = 0, cUpdatedBy = ''ops''\<rparr> \<and>
   (\<exists>h. fst (History env0 ''app:a'' 1 db1) = Inr [h] \<and> hVersion h = 1)"
  using set_then_get[OF set_db1, of env0] ready_db1
  by (auto simp: Get_no_fault ready_def)

text \<open>
  C5. Deletion is recoverable. After a successful \<open>Delete\<close> the key is gone from the current
  state, but a rollback to the version before it, or to the version the deletion itself
  recorded, succeeds and brings back the value and format that were deleted, as a new version.
\<close>

theorem delete_then_rollback:
  assumes del: "Delete e dia key c d = (Inr res, d1)" and wf: "wf_db (yaml e) d" and nf: "no_fault e"
    and rd: "ready key c' d1" and ver: "ver = Version res - 1 \<or> ver = Version res"
  shows "config_row key (tabs d1) = None \<and>
    (\<exists>row res' d2 row'. config_row key (tabs d) = Some row \<and>
       Rollback e dia key ver c' d1 = (Inr res', d2) \<and>
       Revision res' = Revision res + 1 \<and> Version res' = Version res + 1 \<and>
       config_row key (tabs d2) = Some row' \<and>
       cValue row' = cValue row \<and> cFormat row' = cFormat row)"
proof -
  have w: "db_write e dia key OpDelete c (resolve_delete key) d = (Inr res, d1)"
    using del by (simp add: Delete_def)
  obtain row r where row: "config_row key (tabs d) = Some row"
      and k: "ValidateKey key = None" and c: "ValidateChange c = None" and n: "next_id d \<le> max_int64"
      and res: "res = \<lparr>Revision = r + 1, Version = int64 (max_version key (tabs d) + 1)\<rparr>"
      and m: "meta (tabs d) = Some r"
      and v: "ValidateValue (yaml e) (cValue row) (cFormat row) = None"
      and d1: "d1 = written e key OpDelete c (cValue row) (cFormat row) d"
    using db_write_Inr[OF w] by (auto simp: resolve_delete_def split: option.splits)
  have wf1: "wf_db (yaml e) d1" unfolding d1 by (rule wf_written[OF wf k c v n])
  let ?rows = "history_rows key (tabs d)" and ?rows1 = "history_rows key (tabs d1)"
  define m where "m = length ?rows"
  have rows1: "?rows1 = ?rows @ [new_entry e key OpDelete c (cValue row) (cFormat row) d]"
    by (simp add: d1)
  have vres: "Version res = int m + 1" using next_version[OF wf n] by (simp add: res m_def)
  have m0: "0 < m" using row_last_entry(1)[OF wf row] by (simp add: m_def)
  have last: "hValue (?rows ! (m - 1)) = cValue row" "hFormat (?rows ! (m - 1)) = cFormat row"
    using row_last_entry[OF wf row] by (simp_all add: last_conv_nth m_def)
  have "history_at key ver (tabs d1) = Some (cValue row, cFormat row)"
  proof (cases "ver = Version res")
    case True
    then show ?thesis using history_at_row[OF wf_dbD(4)[OF wf1], of m key] vres rows1
      by (simp add: m_def nth_append)
  next
    case False
    then have vm: "ver = int (m - 1) + 1" using ver vres m0 by (simp add: of_nat_diff)
    have nth: "?rows1 ! (m - 1) = ?rows ! (m - 1)" "m - 1 < length ?rows1"
      using m0 rows1 by (simp_all add: nth_append m_def)
    show ?thesis unfolding vm history_at_row[OF wf_dbD(4)[OF wf1] nth(2)] nth(1) using last by simp
  qed
  from rollback_success[OF nf wf1 rd this, of dia] row show ?thesis
    by (auto simp: config_row_written rows1 m_def res m next_version[OF wf n] d1)
qed

theorem delete_then_rollback_witness:
  "\<exists>d1 res. Delete env0 MySQL ''app:a'' chg0 db1 = (Inr res, d1) \<and> config_row ''app:a'' (tabs d1) = None \<and>
     (\<exists>res' d2 row'. Rollback env0 MySQL ''app:a'' 1 chg0 d1 = (Inr res', d2) \<and>
        config_row ''app:a'' (tabs d2) = Some row' \<and> cValue row' = ''30s'')"
proof -
  let ?d1 = "written env0 ''app:a'' OpDelete chg0 ''30s'' FormatRaw db1"
  have h: "history_rows ''app:a'' (tabs db1) = [new_entry env0 ''app:a'' OpSet chg0 ''30s'' FormatRaw empty_db]"
    by (simp add: db1_def)
  have del: "Delete env0 MySQL ''app:a'' chg0 db1 = (Inr \<lparr>Revision = 2, Version = 2\<rparr>, ?d1)"
    using delete_success[of env0 db1 "''app:a''" chg0 _ MySQL] wf_db1 ready_db1 h by simp
  have rd: "ready ''app:a'' chg0 ?d1" using ready_db1 by (simp add: ready_def max_int64_def)
  show ?thesis
    using delete_then_rollback[OF del _ _ rd, of 1] wf_db1 del
    by (intro exI[of _ ?d1] exI[of _ "\<lparr>Revision = 2, Version = 2\<rparr>"]) auto
qed

text \<open>
  A rollback to a version that the history has publishes that version's value and format as
  a new version: nothing of the history is changed or removed, the entries of other keys
  included, and the state before the rollback is itself a version to roll back to.
\<close>

theorem rollback_appends:
  assumes "no_fault e" "wf_db (yaml e) d" "ready key c d"
    and "history_at key ver (tabs d) = Some (val, format)"
  shows "\<exists>res d' h row. Rollback e dia key ver c d = (Inr res, d') \<and>
      history (tabs d') = history (tabs d) @ [h] \<and> hKey h = key \<and> hOp h = OpRollback \<and>
      hValue h = val \<and> hFormat h = format \<and> hVersion h = Version res \<and>
      Version res = int (length (history_rows key (tabs d))) + 1 \<and>
      meta (tabs d') = Some (Revision res) \<and>
      config_row key (tabs d') = Some row \<and> cValue row = val \<and> cFormat row = format \<and>
      (\<forall>old. config_row key (tabs d) = Some old \<longrightarrow>
         history_at key (Version res - 1) (tabs d') = Some (cValue old, cFormat old))"
proof -
  let ?d' = "written e key OpRollback c val format d" and ?n = "length (history_rows key (tabs d))"
  have n: "next_id d \<le> max_int64" and k: "ValidateKey key = None" and c: "ValidateChange c = None"
    using assms(3) by (simp_all add: ready_def)
  have "ValidateValue (yaml e) val format = None"
    using history_at_in[OF assms(4)] wf_dbD(3)[OF assms(2)] by (auto simp: entry_ok_def)
  then have wf': "wf_db (yaml e) ?d'" by (rule wf_written[OF assms(2) k c _ n])
  have old: "history_at key (int ?n) (tabs ?d') = Some (cValue r, cFormat r)"
    if r: "config_row key (tabs d) = Some r" for r
  proof -
    have ne: "0 < ?n" using row_last_entry(1)[OF assms(2) r] by simp
    have "history_rows key (tabs ?d') ! (?n - 1) = last (history_rows key (tabs d))"
      using ne by (simp add: nth_append last_conv_nth)
    then show ?thesis
      using history_at_row[OF wf_dbD(4)[OF wf'], of "?n - 1" key] row_last_entry[OF assms(2) r] ne
      by (simp add: of_nat_diff)
  qed
  have "int64 (max_version key (tabs d) + 1) = int ?n + 1" using next_version[OF assms(2) n] .
  then show ?thesis
    using rollback_success[OF assms, of dia] assms(3) old
    by (auto simp: config_row_written ready_def)
qed

theorem rollback_appends_witness:
  "\<exists>res d' row. Rollback env0 Postgres ''app:a'' 1 chg0 db1 = (Inr res, d') \<and>
     config_row ''app:a'' (tabs d') = Some row \<and> cValue row = ''30s'' \<and> Version res = 2"
proof -
  have h: "history_rows ''app:a'' (tabs db1) = [new_entry env0 ''app:a'' OpSet chg0 ''30s'' FormatRaw empty_db]"
    by (simp add: db1_def)
  have "history_at ''app:a'' 1 (tabs db1) = Some (''30s'', FormatRaw)"
    using history_at_row[OF wf_dbD(4)[OF wf_db1], of 0 "''app:a''"] h by simp
  from rollback_appends[OF _ _ ready_db1 this, of env0 Postgres] wf_db1 h show ?thesis by auto
qed

text \<open>
  C7. \<open>ListPrefixes\<close> returns, in one statement, exactly the rows whose key starts with one of the
  prefixes (all rows when there is none or one is empty), each once however the prefixes
  overlap, in the order of the column's collation.
\<close>

theorem list_prefixes_exact:
  assumes "no_fault e" and "wf_db y d"
  shows "\<exists>rows. ListPrefixes e dia ps d = (Inr rows, d) \<and>
    set rows = {c \<in> set (config (tabs d)). ps = [] \<or> (\<exists>p\<in>set ps. prefix p (cKey c))} \<and>
    distinct (map cKey rows) \<and> sorted (map (\<lambda>c. collate e (cKey c)) rows)"
proof -
  let ?sel = "filter (\<lambda>c. under ps (cKey c)) (config (tabs d))"
  let ?rows = "sort_key (\<lambda>c. collate e (cKey c)) ?sel"
  have "mset (map cKey ?rows) = mset (map cKey ?sel)" by simp
  then have "distinct (map cKey ?rows)"
    using distinct_filter_map[OF wf_dbD(1)[OF assms(2)]] mset_eq_imp_distinct_iff by blast
  then show ?thesis
    by (auto simp: ListPrefixes_no_fault[OF assms(1)] select_configs_under under_def)
qed

theorem list_prefixes_exact_witness:
  "\<exists>rows. ListPrefixes env0 MySQL [''app:'', ''a''] db1 = (Inr rows, db1) \<and> length rows = 1"
proof -
  obtain rows where r: "ListPrefixes env0 MySQL [''app:'', ''a''] db1 = (Inr rows, db1)"
      "set rows = {c \<in> set (config (tabs db1)). \<exists>p\<in>set [''app:'', ''a'']. prefix p (cKey c)}"
      "distinct (map cKey rows)"
    using list_prefixes_exact[of env0 "\<lambda>_. None" db1 MySQL "[''app:'', ''a'']"] wf_db1 by auto
  have "config (tabs db1) = [\<lparr>cKey = ''app:a'', cValue = ''30s'', cFormat = FormatRaw, cUpdatedAt = 0,
      cUpdatedBy = ''ops''\<rparr>]"
    by (simp add: db1_def new_config_def upsert_row_def empty_db_def env0_def chg0_def)
  moreover have "{c \<in> set [x]. \<exists>p\<in>set [''app:'', ''a'']. prefix p (cKey c)} = {x}"
    if "cKey x = ''app:a''" for x :: Config using that by auto
  ultimately have "card (set rows) = 1" using r(2) by simp
  then show ?thesis using r(1,3) distinct_card[of rows] by (auto simp: distinct_map)
qed

text \<open>
  C8. \<open>History\<close> lists the versions of a key newest first: version n, n - 1, and so on down to 1,
  where n is the number of writes of the key, cut after \<open>limit\<close> entries when \<open>limit\<close> is positive.
  It does not look at the current state, so a deleted key still has its history.
\<close>

theorem history_newest_first:
  assumes "no_fault e" and "wf_db y d" and "ValidateKey key = None"
  shows "\<exists>rows. History e key limit d = (Inr rows, d) \<and>
    rows = (if 0 < limit then take (nat limit) else id) (rev (history_rows key (tabs d))) \<and>
    map hVersion rows = (if 0 < limit then take (nat limit) else id)
      (rev (map int [1..<length (history_rows key (tabs d)) + 1]))"
proof -
  have "map hVersion (history_rows key (tabs d)) = map int [1..<length (history_rows key (tabs d)) + 1]"
    using wf_dbD(4)[OF assms(2)] by (simp add: versions_ok_def)
  then show ?thesis
    using assms(3) by (auto simp: History_no_fault[OF assms(1)] select_history_rows[OF wf_dbD(4)[OF assms(2)]]
        take_map[symmetric] rev_map[symmetric] simp del: upt_Suc)
qed

theorem history_newest_first_witness:
  "\<exists>rows. History env0 ''app:a'' 5 db1 = (Inr rows, db1) \<and> map hVersion rows = [1]"
proof -
  have h: "length (history_rows ''app:a'' (tabs db1)) = 1" by (simp add: db1_def)
  have "ValidateKey ''app:a'' = None" using ready_db1 by (simp add: ready_def)
  from history_newest_first[OF _ _ this, of env0 "\<lambda>_. None" db1 5] wf_db1 h show ?thesis by auto
qed

end
