(* ===== verification/Store_Tx.thy ===== *)
theory Store_Tx
  imports Store_Props
begin

text \<open>
  Writes of \<open>store.DB\<close> that run at the same time. The body of \<open>DB.write\<close> is reified as a program of
  statements (\<open>write_prog\<close>, shown to be \<open>write_body\<close>), so that the statements of several transactions
  may interleave in any way. The database is not part of the repository; of it the model assumes what
  both databases document: the \<open>UPDATE\<close> of the row \<open>id = 1\<close> waits for, and then holds, the lock of
  that row until its transaction ends; a transaction sees what is committed together with its own
  changes; a statement outside of a transaction sees what is committed. The main result is that the
  interleaved writes are the writes one after the other, in the order in which they end.
\<close>

section \<open>Programs of statements\<close>

datatype 'a prog = Done "store_error + 'a" | Stmt stmt "db \<Rightarrow> 'a prog \<times> db"

primrec exec_prog :: "'a prog \<Rightarrow> 'a dbact" where
  "exec_prog (Done r) = (\<lambda>d. (r, d))"
| "exec_prog (Stmt st f) = (\<lambda>d. (\<lambda>(m, d'). m d') ((map_prod exec_prog id \<circ> f) d))"

primrec bind_prog :: "'a prog \<Rightarrow> ('a \<Rightarrow> 'b prog) \<Rightarrow> 'b prog" where
  "bind_prog (Done r) k = (case r of Inl err \<Rightarrow> Done (Inl err) | Inr x \<Rightarrow> k x)"
| "bind_prog (Stmt st f) k = Stmt st (map_prod (\<lambda>p. bind_prog p k) id \<circ> f)"

definition stmt_prog :: "stmt \<Rightarrow> 'a dbact \<Rightarrow> 'a prog" where
  "stmt_prog st m = Stmt st (\<lambda>d. case m d of (r, d') \<Rightarrow> (Done r, d'))"

lemma exec_stmt_prog [simp]: "exec_prog (stmt_prog st m) = m"
  by (rule ext) (simp add: stmt_prog_def split: prod.split)

lemma exec_bind_prog [simp]: "exec_prog (bind_prog p k) = andThen (exec_prog p) (\<lambda>x. exec_prog (k x))"
proof (induction p)
  case (Done r)
  then show ?case by (cases r) (simp_all add: andThen_def fun_eq_iff)
next
  case (Stmt st f)
  have "exec_prog (bind_prog (Stmt st f) k) d = andThen (exec_prog (Stmt st f)) (\<lambda>x. exec_prog (k x)) d" for d
  proof -
    obtain p d' where f: "f d = (p, d')" by (cases "f d")
    have "exec_prog (bind_prog p k) = andThen (exec_prog p) (\<lambda>x. exec_prog (k x))"
      using Stmt[OF rangeI[of f d], of p] by (simp add: f prod_set_simps)
    then show ?thesis by (simp add: f andThen_def)
  qed
  then show ?case by (rule ext)
qed

text \<open>\<open>BumpRevision\<close>, \<open>resolve\<close> and the body of \<open>DB.write\<close>, statement by statement.\<close>

fun bump_prog :: "dbenv \<Rightarrow> Dialect \<Rightarrow> int prog" where
  "bump_prog e MySQL =
     bind_prog (stmt_prog SBump (run e SBump sql_update_revision)) (\<lambda>n.
       if n = 0 then Done (Inl ErrNotMigrated)
       else bind_prog (stmt_prog SReadBump (query e SReadBump meta)) (\<lambda>r.
         case r of Some rv \<Rightarrow> Done (Inr rv) | None \<Rightarrow> Done (Inl (ErrDriver (DBOther ''no rows'')))))"
| "bump_prog e Postgres =
     bind_prog (stmt_prog SBump (run e SBump (\<lambda>d. case sql_update_revision d of
         (Inl x, d') \<Rightarrow> (Inl x, d')
       | (Inr n, d') \<Rightarrow> (Inr (if n = 0 then None else meta (tabs d')), d')))) (\<lambda>r.
       case r of Some rv \<Rightarrow> Done (Inr rv) | None \<Rightarrow> Done (Inl ErrNotMigrated))"

fun resolve_prog :: "dbenv \<Rightarrow> request \<Rightarrow> Config option \<Rightarrow> (string \<times> Format) prog" where
  "resolve_prog e (ReqSet key val format c) cur = Done (Inr (val, if format = [] then FormatRaw else format))"
| "resolve_prog e (ReqDelete key c) cur =
     (case cur of None \<Rightarrow> Done (Inl (ErrNotFound (NoKey key))) | Some row \<Rightarrow> Done (Inr (cValue row, cFormat row)))"
| "resolve_prog e (ReqRollback key ver c) cur =
     bind_prog (stmt_prog (SHistoryAt key ver) (query e (SHistoryAt key ver) (history_at key ver))) (\<lambda>r.
       case r of None \<Rightarrow> Done (Inl (ErrNotFound (NoVersion key ver))) | Some vf \<Rightarrow> Done (Inr vf))"

definition write_prog :: "dbenv \<Rightarrow> Dialect \<Rightarrow> request \<Rightarrow> Result prog" where
  "write_prog e dia q =
     (let key = req_key q; op = req_op q; c = req_change q in
      bind_prog (bump_prog e dia) (\<lambda>rv.
      bind_prog (stmt_prog (SGetConfig key) (getConfig e key)) (\<lambda>cur.
      bind_prog (resolve_prog e q cur) (\<lambda>(val, format).
      case ValidateValue (yaml e) val format of Some x \<Rightarrow> Done (Inl (ErrInvalidValue x)) | None \<Rightarrow>
      bind_prog (if op = OpDelete then stmt_prog (SDelete key) (run e (SDelete key) (sql_delete key))
          else stmt_prog (SUpsert key val format (Author c)) (run e (SUpsert key val format (Author c))
            (sql_upsert (clock e (SUpsert key val format (Author c))) key val format (Author c)))) (\<lambda>_.
      bind_prog (stmt_prog (SMaxVersion key) (query e (SMaxVersion key) (max_version key))) (\<lambda>prev.
      let version = int64 (prev + 1);
          st = SInsertHistory key val format version op (Comment c) (Author c) in
      bind_prog (stmt_prog st (run e st
          (sql_insert_history (clock e st) key val format version op (Comment c) (Author c)))) (\<lambda>_.
      Done (Inr \<lparr>Revision = rv, Version = version\<rparr>))))))))"

lemma exec_Done [simp]: "exec_prog (Done (Inr x)) = ret x" "exec_prog (Done (Inl err)) = throw err"
  by (simp_all add: fun_eq_iff)

declare exec_prog.simps(1) [simp del]

lemma exec_bump_prog: "exec_prog (bump_prog e dia) = BumpRevision e dia"
  by (cases dia) (auto simp: if_distrib[where f = exec_prog] option.case_distrib[where h = exec_prog] cong: if_cong option.case_cong)

lemma exec_resolve_prog: "exec_prog (resolve_prog e q cur) = req_resolve e q cur"
  by (cases q) (auto simp: resolve_set_def resolve_delete_def resolve_rollback_def fun_eq_iff option.case_distrib[where h = exec_prog]
      split: option.splits cong: option.case_cong)

lemma check_apply: "check r d = (case r of None \<Rightarrow> (Inr (), d) | Some x \<Rightarrow> (Inl x, d))"
  by (cases r) simp_all

lemma andThen_check: "andThen (check (map_option g r)) k d = (case r of Some x \<Rightarrow> (Inl (g x), d) | None \<Rightarrow> k () d)"
  by (cases r) (simp_all add: andThen_def)

lemma andThen_cong: "(\<And>x d. k x d = k' x d) \<Longrightarrow> andThen m k = andThen m k'"
  by (simp add: fun_eq_iff andThen_def split: prod.split sum.split)

lemma exec_write_prog:
  "exec_prog (write_prog e dia q) = write_body e dia (req_key q) (req_op q) (req_change q) (req_resolve e q)"
  unfolding write_prog_def write_body_def Let_def exec_bind_prog exec_bump_prog exec_stmt_prog
  by (intro andThen_cong)
     (auto simp: exec_resolve_prog andThen_check if_distrib[where f = exec_prog] split: option.split
       intro!: fun_cong[OF andThen_cong])

section \<open>Transactions that interleave\<close>

record tx_call =
  tcEnv :: dbenv
  tcDialect :: Dialect
  tcRequest :: request

definition perform_call :: "tx_call \<Rightarrow> Result dbact" where
  "perform_call c = perform (tcEnv c) (tcDialect c) (tcRequest c)"

text \<open>\<open>DB.write\<close> up to the start of its transaction.\<close>

definition begin_tx :: "tx_call \<Rightarrow> store_error + Result prog" where
  "begin_tx c =
     (case ValidateKey (req_key (tcRequest c)) of
        Some x \<Rightarrow> Inl (ErrInvalidKey x)
      | None \<Rightarrow>
          (case ValidateChange (req_change (tcRequest c)) of
             Some x \<Rightarrow> Inl (ErrInvalidChange x)
           | None \<Rightarrow>
               (case fault (tcEnv c) SBegin of
                  Some x \<Rightarrow> Inl (ErrDriver x)
                | None \<Rightarrow> Inr (write_prog (tcEnv c) (tcDialect c) (tcRequest c)))))"

text \<open>The end of \<open>withTx\<close>: what the body returned, from \<open>d\<close> to \<open>d'\<close>.\<close>

fun end_tx :: "dbenv \<Rightarrow> db \<Rightarrow> (store_error + 'a) \<times> db \<Rightarrow> (store_error + 'a) \<times> db" where
  "end_tx e d (Inl err, d') = (Inl err, d'\<lparr>tabs := tabs d\<rparr>)"
| "end_tx e d (Inr res, d') =
     (case fault e SCommit of
        None \<Rightarrow> (Inr res, d')
      | Some x \<Rightarrow> (Inl (ErrDriver x), if commit_applied e then d' else d'\<lparr>tabs := tabs d\<rparr>))"

text \<open>A transaction that is open has the rest of its program and its own version of the tables.\<close>

datatype tx = Idle | Running "Result prog" tables | Ended "store_error + Result"

record tx_sys =
  committed :: tables
  ids :: int
  holder :: "nat option"
  txs :: "tx list"
  ended :: "nat list"
  seen_tabs :: "tables list"

definition release :: "nat \<Rightarrow> tx_sys \<Rightarrow> tx_sys" where
  "release i s = (if holder s = Some i then s\<lparr>holder := None\<rparr> else s)"

definition set_tx :: "nat \<Rightarrow> tx \<Rightarrow> tx_sys \<Rightarrow> tx_sys" where
  "set_tx i t s = s\<lparr>txs := (txs s)[i := t]\<rparr>"

definition end_call :: "nat \<Rightarrow> store_error + Result \<Rightarrow> tx_sys \<Rightarrow> tx_sys" where
  "end_call i r s = (set_tx i (Ended r) s)\<lparr>ended := ended s @ [i]\<rparr>"

text \<open>
  \<open>bump\<close> is the statement that takes the lock, when nobody has it; waiting for it may fail
  (\<open>bump_fails\<close>). Where the row is missing there is no lock to take; the transaction then fails by itself,
  and holding the others back until it has ended changes none of their results. Any other statement runs, with the lock or without. \<open>finish\<close> is \<open>Commit\<close> or \<open>Rollback\<close>.
\<close>

inductive tx_step :: "tx_call list \<Rightarrow> tx_sys \<Rightarrow> tx_sys \<Rightarrow> bool" for calls where
  refused: "i < length calls \<Longrightarrow> txs s ! i = Idle \<Longrightarrow> begin_tx (calls ! i) = Inl err \<Longrightarrow>
    tx_step calls s (end_call i (Inl err) s)"
| begins: "i < length calls \<Longrightarrow> txs s ! i = Idle \<Longrightarrow> begin_tx (calls ! i) = Inr p \<Longrightarrow>
    tx_step calls s (set_tx i (Running p (committed s)) s)"
| bump: "i < length calls \<Longrightarrow> txs s ! i = Running (Stmt SBump f) v \<Longrightarrow> holder s = None \<Longrightarrow>
    f \<lparr>tabs = committed s, next_id = ids s\<rparr> = (p, d) \<Longrightarrow>
    tx_step calls s (set_tx i (Running p (tabs d)) (s\<lparr>ids := next_id d, holder := Some i\<rparr>))"
| bump_fails: "i < length calls \<Longrightarrow> txs s ! i = Running (Stmt SBump f) v \<Longrightarrow> holder s = Some j \<Longrightarrow> j \<noteq> i \<Longrightarrow>
    fault (tcEnv (calls ! i)) SBump = Some x \<Longrightarrow> tx_step calls s (end_call i (Inl (ErrDriver x)) s)"
| statement: "i < length calls \<Longrightarrow> txs s ! i = Running (Stmt st f) v \<Longrightarrow> st \<noteq> SBump \<Longrightarrow>
    f \<lparr>tabs = (if holder s = Some i then v else committed s), next_id = ids s\<rparr> = (p, d) \<Longrightarrow>
    tx_step calls s (set_tx i (Running p (tabs d)) (s\<lparr>ids := next_id d\<rparr>))"
| finish: "i < length calls \<Longrightarrow> txs s ! i = Running (Done r) v \<Longrightarrow>
    end_tx (tcEnv (calls ! i)) \<lparr>tabs = committed s, next_id = ids s\<rparr> (r, \<lparr>tabs = v, next_id = ids s\<rparr>) = (res, d) \<Longrightarrow>
    tx_step calls s (end_call i res (release i (s\<lparr>committed := tabs d\<rparr>)))"
| reads: "tx_step calls s (s\<lparr>seen_tabs := seen_tabs s @ [committed s]\<rparr>)"

inductive tx_run :: "tx_call list \<Rightarrow> db \<Rightarrow> tx_sys \<Rightarrow> bool" for calls d0 where
  start: "tx_run calls d0
    \<lparr>committed = tabs d0, ids = next_id d0, holder = None, txs = replicate (length calls) Idle, ended = [], seen_tabs = []\<rparr>"
| more: "tx_run calls d0 s \<Longrightarrow> tx_step calls s s' \<Longrightarrow> tx_run calls d0 s'"

section \<open>One after the other\<close>

definition serial :: "tx_call list \<Rightarrow> nat list \<Rightarrow> db \<Rightarrow> db" where
  "serial calls is d = fold (\<lambda>i d. snd (perform_call (calls ! i) d)) is d"

lemma serial_snoc [simp]: "serial calls (is @ [i]) d = snd (perform_call (calls ! i) (serial calls is d))"
  by (simp add: serial_def)

lemma serial_Nil [simp]: "serial calls [] d = d"
  by (simp add: serial_def)

lemma perform_refused: "begin_tx c = Inl err \<Longrightarrow> perform_call c d = (Inl err, d)"
  by (auto simp: perform_call_def perform_db_write db_write_def begin_tx_def withTx_def andThen_check
      split: option.splits)

lemma perform_begun: "begin_tx c = Inr p \<Longrightarrow> perform_call c d = end_tx (tcEnv c) d (exec_prog p d)"
  by (cases "exec_prog p d"; cases "fst (exec_prog p d)")
     (auto simp: perform_call_def perform_db_write db_write_def begin_tx_def withTx_def andThen_check exec_write_prog
      split: option.splits)

section \<open>Invariant\<close>

lemma exec_Stmt: "f d = (p, d') \<Longrightarrow> exec_prog (Stmt st f) d = exec_prog p d'"
  by simp

lemma exec_Done_apply: "exec_prog (Done r) d = (r, d)"
  by (simp add: exec_prog.simps(1))

declare exec_prog.simps(2) [simp del]

lemma begun_prog: "begin_tx c = Inr p \<Longrightarrow> p = write_prog (tcEnv c) (tcDialect c) (tcRequest c)"
  by (auto simp: begin_tx_def split: option.splits)

text \<open>The \<open>UPDATE\<close> of the revision is the transaction's first statement.\<close>

lemma begun_bump: "begin_tx c = Inr p \<Longrightarrow> \<exists>f. p = Stmt SBump f"
  by (cases "tcDialect c") (auto dest!: begun_prog simp: write_prog_def stmt_prog_def Let_def)

lemma bump_fault:
  "begin_tx c = Inr p \<Longrightarrow> fault (tcEnv c) SBump = Some x \<Longrightarrow> exec_prog p d = (Inl (ErrDriver x), d)"
  by (cases "tcDialect c")
     (auto dest!: begun_prog simp: exec_write_prog write_body_def andThen_def run_def)

text \<open>A transaction asks for the lock once, with its first statement; with the lock it needs nobody else.\<close>

primrec no_bump :: "'a prog \<Rightarrow> bool" where
  "no_bump (Done r) \<longleftrightarrow> True"
| "no_bump (Stmt st f) \<longleftrightarrow> st \<noteq> SBump \<and> (\<forall>d. fst ((map_prod no_bump id \<circ> f) d))"

lemma no_bump_stmt [simp]: "no_bump (stmt_prog st m) \<longleftrightarrow> st \<noteq> SBump"
  by (auto simp: stmt_prog_def split: prod.split)

lemma no_bump_bind: "no_bump p \<Longrightarrow> (\<And>x. no_bump (k x)) \<Longrightarrow> no_bump (bind_prog p k)"
proof (induction p)
  case (Done r)
  then show ?case by (cases r) simp_all
next
  case (Stmt st f)
  have "no_bump (bind_prog (fst (f d)) k)" for d
  proof (rule Stmt.IH[OF rangeI[of f d]])
    show "fst (f d) \<in> Basic_BNFs.fsts (f d)" by (cases "f d") (simp add: prod_set_simps)
    show "no_bump (fst (f d))" using Stmt.prems(1) by simp
  qed (rule Stmt.prems(2))
  then show ?case using Stmt.prems(1) by simp
qed

lemma no_bump_resolve: "no_bump (resolve_prog e q cur)"
  by (cases q) (auto intro!: no_bump_bind split: option.split)

definition bumps_once :: "'a prog \<Rightarrow> bool" where
  "bumps_once p \<longleftrightarrow> (\<exists>f. p = Stmt SBump f \<and> (\<forall>d. no_bump (fst (f d))))"

lemma bumps_once_stmt: "bumps_once (stmt_prog SBump m)"
  by (auto simp: bumps_once_def stmt_prog_def split: prod.split)

lemma bumps_once_bind: "bumps_once p \<Longrightarrow> (\<And>x. no_bump (k x)) \<Longrightarrow> bumps_once (bind_prog p k)"
  by (auto simp: bumps_once_def intro!: no_bump_bind)

lemma write_prog_bumps_once: "bumps_once (write_prog e dia q)"
proof -
  have "bumps_once (bump_prog e dia)"
    by (cases dia) (auto intro!: bumps_once_bind bumps_once_stmt no_bump_bind split: option.split)
  then show ?thesis
    unfolding write_prog_def Let_def
    by (rule bumps_once_bind) (auto intro!: no_bump_bind no_bump_resolve split: option.split)
qed

lemma begun_rest: "begin_tx c = Inr (Stmt SBump f) \<Longrightarrow> no_bump (fst (f d))"
  using begun_prog[of c "Stmt SBump f"] write_prog_bumps_once[of "tcEnv c" "tcDialect c" "tcRequest c"]
  by (auto simp: bumps_once_def)

definition log_ok :: "tx_call list \<Rightarrow> db \<Rightarrow> tx_sys \<Rightarrow> bool" where
  "log_ok calls d0 s \<longleftrightarrow>
     length (txs s) = length calls \<and> committed s = tabs (serial calls (ended s) d0) \<and>
     distinct (ended s) \<and> set (ended s) = {i. i < length calls \<and> (\<exists>r. txs s ! i = Ended r)} \<and>
     (\<forall>k<length (ended s).
        txs s ! (ended s ! k) = Ended (fst (perform_call (calls ! (ended s ! k)) (serial calls (take k (ended s)) d0)))) \<and>
     (\<forall>t\<in>set (seen_tabs s). \<exists>k\<le>length (ended s). t = tabs (serial calls (take k (ended s)) d0))"

definition lock_ok :: "tx_call list \<Rightarrow> db \<Rightarrow> tx_sys \<Rightarrow> bool" where
  "lock_ok calls d0 s \<longleftrightarrow>
     (holder s = None \<longrightarrow> ids s = next_id (serial calls (ended s) d0)) \<and>
     (\<forall>i<length calls. \<forall>p v. txs s ! i = Running p v \<longrightarrow> holder s \<noteq> Some i \<longrightarrow> begin_tx (calls ! i) = Inr p) \<and>
     (\<forall>i. holder s = Some i \<longrightarrow> i < length calls \<and> (\<exists>p v p0. txs s ! i = Running p v \<and> begin_tx (calls ! i) = Inr p0 \<and>
        no_bump p \<and> exec_prog p \<lparr>tabs = v, next_id = ids s\<rparr> = exec_prog p0 (serial calls (ended s) d0)))"

lemma log_ok_running:
  assumes "log_ok calls d0 s" and "\<And>r. txs s ! i \<noteq> Ended r" "\<And>r. t \<noteq> Ended r"
    and "txs s' = (txs s)[i := t]" "ended s' = ended s" "committed s' = committed s" "seen_tabs s' = seen_tabs s"
  shows "log_ok calls d0 s'"
proof -
  have e: "(txs s)[i := t] ! j = Ended r \<longleftrightarrow> txs s ! j = Ended r" for j r
    using assms(2,3) by (cases "j = i"; cases "i < length (txs s)") (auto simp: list_update_beyond)
  show ?thesis using assms(1,4-) by (simp add: log_ok_def e)
qed

lemma log_ok_ended:
  assumes "log_ok calls d0 s" and "i < length calls" "\<And>r. txs s ! i \<noteq> Ended r"
    and "perform_call (calls ! i) (serial calls (ended s) d0) = (r, b)"
    and "txs s' = (txs s)[i := Ended r]" "ended s' = ended s @ [i]" "committed s' = tabs b" "seen_tabs s' = seen_tabs s"
  shows "log_ok calls d0 s'"
proof -
  have len: "length (txs s) = length calls" and i: "i \<notin> set (ended s)"
    using assms(1,3) by (auto simp: log_ok_def)
  have "set (ended s') = {j. j < length calls \<and> (\<exists>r. txs s' ! j = Ended r)}"
    using assms(1,2) len by (auto simp: log_ok_def assms(5,6) nth_list_update)
  moreover have "txs s' ! (ended s' ! k) =
      Ended (fst (perform_call (calls ! (ended s' ! k)) (serial calls (take k (ended s')) d0)))"
    if "k < length (ended s')" for k
  proof (cases "k < length (ended s)")
    case True
    then have "ended s ! k \<noteq> i" using i by auto
    then show ?thesis using assms(1) True by (simp add: log_ok_def assms(5,6) nth_append)
  next
    case False
    then have "k = length (ended s)" using that by (simp add: assms(6))
    then show ?thesis using assms(2,4) len by (simp add: assms(5,6))
  qed
  moreover have "\<exists>k\<le>length (ended s'). t = tabs (serial calls (take k (ended s')) d0)" if "t \<in> set (seen_tabs s')" for t
  proof -
    from that assms(1,8) obtain k where "k \<le> length (ended s)" "t = tabs (serial calls (take k (ended s)) d0)"
      by (auto simp: log_ok_def)
    then show ?thesis by (intro exI[of _ k]) (simp add: assms(6))
  qed
  ultimately show ?thesis
    using assms(1,4,7) i len by (simp add: log_ok_def assms(5,6))
qed

lemma db_eta [simp]: "\<lparr>tabs = tabs d, next_id = next_id d\<rparr> = d"
  by simp

text \<open>A call that changes nothing ends, while another transaction may hold the lock.\<close>

lemma quiet_end:
  assumes "log_ok calls d0 s" "lock_ok calls d0 s" "i < length calls" "holder s \<noteq> Some i"
    and "\<And>r. txs s ! i \<noteq> Ended r"
    and "perform_call (calls ! i) (serial calls (ended s) d0) = (r, serial calls (ended s) d0)"
  shows "log_ok calls d0 (end_call i r s) \<and> lock_ok calls d0 (end_call i r s)"
proof
  show "log_ok calls d0 (end_call i r s)"
    by (rule log_ok_ended[OF assms(1,3,5,6)]) (use assms(1) in \<open>simp_all add: end_call_def set_tx_def log_ok_def\<close>)
  show "lock_ok calls d0 (end_call i r s)"
    using assms(1-4,6) by (auto simp: lock_ok_def log_ok_def end_call_def set_tx_def nth_list_update split: if_splits)
qed

lemma finish_call:
  assumes log: "log_ok calls d0 s" and lock: "lock_ok calls d0 s" and "i < length calls"
    and run: "txs s ! i = Running (Done r) v"
    and e: "end_tx (tcEnv (calls ! i)) \<lparr>tabs = committed s, next_id = ids s\<rparr> (r, \<lparr>tabs = v, next_id = ids s\<rparr>) = (res, d)"
  shows "holder s = Some i \<and> perform_call (calls ! i) (serial calls (ended s) d0) = (res, d) \<and> next_id d = ids s"
proof -
  have h: "holder s = Some i"
    using lock run assms(3) begun_bump[of "calls ! i" "Done r"] by (auto simp: lock_ok_def)
  let ?base = "serial calls (ended s) d0"
  from lock h run obtain p0 where p0: "begin_tx (calls ! i) = Inr p0" "exec_prog p0 ?base = (r, \<lparr>tabs = v, next_id = ids s\<rparr>)"
    by (force simp: lock_ok_def exec_Done_apply)
  have "committed s = tabs ?base" using log by (simp add: log_ok_def)
  then have "end_tx (tcEnv (calls ! i)) ?base (r, \<lparr>tabs = v, next_id = ids s\<rparr>) = (res, d)"
    using e by (cases r) (auto split: option.splits)
  moreover have "next_id d = ids s" using e by (cases r) (auto split: option.splits if_splits)
  ultimately show ?thesis using h perform_begun[OF p0(1), of ?base] p0(2) by simp
qed

lemma step_ok:
  assumes "tx_step calls s s'" and log: "log_ok calls d0 s" and lock: "lock_ok calls d0 s"
  shows "log_ok calls d0 s' \<and> lock_ok calls d0 s'"
  using assms(1)
proof cases
  case (refused i err)
  moreover have "holder s \<noteq> Some i" using lock refused by (auto simp: lock_ok_def)
  ultimately show ?thesis using quiet_end[OF log lock] perform_refused by simp
next
  case (begins i p)
  have "log_ok calls d0 s'"
    by (rule log_ok_running[OF log, of i "Running p (committed s)"]) (use begins in \<open>auto simp: set_tx_def\<close>)
  moreover have "lock_ok calls d0 s'"
    using begins lock log by (auto simp: lock_ok_def log_ok_def set_tx_def nth_list_update split: if_splits)
  ultimately show ?thesis by simp
next
  case (bump i f v p d)
  have "log_ok calls d0 s'"
    by (rule log_ok_running[OF log, of i "Running p (tabs d)"]) (use bump in \<open>auto simp: set_tx_def\<close>)
  moreover have "\<lparr>tabs = committed s, next_id = ids s\<rparr> = serial calls (ended s) d0"
    using log lock bump(4) by (simp add: log_ok_def lock_ok_def)
  then have x: "exec_prog p d = exec_prog (Stmt SBump f) (serial calls (ended s) d0)"
    using exec_Stmt[of f _ p d SBump] bump(5) by simp
  have "begin_tx (calls ! i) = Inr (Stmt SBump f)" using lock bump by (auto simp: lock_ok_def)
  from begun_rest[OF this] have "no_bump p" using bump(5) by (metis fst_conv)
  with x have "lock_ok calls d0 s'"
    using bump lock log by (auto simp: lock_ok_def log_ok_def set_tx_def nth_list_update split: if_splits)
  ultimately show ?thesis by simp
next
  case (bump_fails i f v j x)
  then have "begin_tx (calls ! i) = Inr (Stmt SBump f)" using lock by (auto simp: lock_ok_def)
  from perform_begun[OF this] bump_fault[OF this bump_fails(6)]
  have "perform_call (calls ! i) (serial calls (ended s) d0) = (Inl (ErrDriver x), serial calls (ended s) d0)" by simp
  then show ?thesis using quiet_end[OF log lock] bump_fails by simp
next
  case (statement i st f v p d)
  have h: "holder s = Some i"
    using lock statement begun_bump[of "calls ! i" "Stmt st f"] by (auto simp: lock_ok_def)
  have "log_ok calls d0 s'"
    by (rule log_ok_running[OF log, of i "Running p (tabs d)"]) (use statement in \<open>auto simp: set_tx_def\<close>)
  moreover have x: "exec_prog p d = exec_prog (Stmt st f) \<lparr>tabs = v, next_id = ids s\<rparr>"
    using exec_Stmt[of f _ p d st] statement(5) h by simp
  have "no_bump (Stmt st f)" using lock statement(3) h by (auto simp: lock_ok_def)
  then have "no_bump (fst (f \<lparr>tabs = v, next_id = ids s\<rparr>))" by simp
  then have "no_bump p" using statement(5) h by simp
  with x have "lock_ok calls d0 s'"
    using statement lock log h by (auto simp: lock_ok_def log_ok_def set_tx_def nth_list_update split: if_splits)
  ultimately show ?thesis by simp
next
  case (finish i r v res d)
  from finish_call[OF log lock finish(2-4)] have f: "holder s = Some i"
      "perform_call (calls ! i) (serial calls (ended s) d0) = (res, d)" "next_id d = ids s" by simp_all
  have "log_ok calls d0 s'"
    by (rule log_ok_ended[OF log finish(2) _ f(2)]) (use finish f(1) in \<open>simp_all add: end_call_def set_tx_def release_def\<close>)
  moreover have "lock_ok calls d0 s'"
    using finish lock log f by (auto simp: lock_ok_def log_ok_def end_call_def set_tx_def release_def nth_list_update split: if_splits)
  ultimately show ?thesis by simp
next
  case reads
  then show ?thesis using log lock by (auto simp: log_ok_def lock_ok_def)
qed

lemma run_ok: "tx_run calls d0 s \<Longrightarrow> log_ok calls d0 s \<and> lock_ok calls d0 s"
proof (induction rule: tx_run.induct)
  case start
  then show ?case by (simp add: log_ok_def lock_ok_def)
next
  case (more s s')
  then show ?case using step_ok by blast
qed

section \<open>Nobody waits forever\<close>

lemma holder_finishes:
  assumes "tx_run calls d0 s" and "i < length calls" "txs s ! i = Running p v" "holder s = Some i" "no_bump p"
  shows "\<exists>s' r. tx_run calls d0 s' \<and> txs s' = (txs s)[i := Ended r] \<and> ended s' = ended s @ [i] \<and> holder s' = None"
  using assms
proof (induction p arbitrary: s v)
  case (Done r)
  obtain res d where e: "end_tx (tcEnv (calls ! i)) \<lparr>tabs = committed s, next_id = ids s\<rparr> (r, \<lparr>tabs = v, next_id = ids s\<rparr>) = (res, d)"
    by (metis surj_pair)
  from tx_run.more[OF Done.prems(1) tx_step.finish[OF Done.prems(2,3) e]] show ?case
    using Done.prems(4) by (intro exI conjI) (assumption | simp add: end_call_def set_tx_def release_def)+
next
  case (Stmt st f)
  let ?d = "\<lparr>tabs = (if holder s = Some i then v else committed s), next_id = ids s\<rparr>"
  obtain p d where f: "f ?d = (p, d)" by (metis surj_pair)
  let ?s = "set_tx i (Running p (tabs d)) (s\<lparr>ids := next_id d\<rparr>)"
  have len: "length (txs s) = length calls" using run_ok[OF Stmt.prems(1)] by (simp add: log_ok_def)
  have st: "st \<noteq> SBump" "no_bump (fst (f ?d))" using Stmt.prems(5) by simp_all
  have p: "p \<in> Basic_BNFs.fsts (f ?d)" by (simp add: f prod_set_simps)
  have "tx_run calls d0 ?s" by (rule tx_run.more[OF Stmt.prems(1) tx_step.statement[OF Stmt.prems(2,3) st(1) f]])
  moreover have "txs ?s ! i = Running p (tabs d)" "holder ?s = Some i" "no_bump p"
    using Stmt.prems(2,4) len st(2) f by (simp_all add: set_tx_def)
  ultimately have "\<exists>s' r. tx_run calls d0 s' \<and> txs s' = (txs ?s)[i := Ended r] \<and> ended s' = ended ?s @ [i] \<and> holder s' = None"
    using Stmt.IH[OF rangeI p, of ?s "tabs d"] Stmt.prems(2) by blast
  then obtain s' r where "tx_run calls d0 s'" "txs s' = (txs ?s)[i := Ended r]" "ended s' = ended ?s @ [i]" "holder s' = None"
    by blast
  then show ?case by (intro exI[of _ s'] exI[of _ r]) (simp add: set_tx_def)
qed

lemma call_can_end:
  assumes run: "tx_run calls d0 s" and i: "i < length calls" "\<And>r. txs s ! i \<noteq> Ended r" and h: "holder s = None \<or> holder s = Some i"
  shows "\<exists>s' r. tx_run calls d0 s' \<and> txs s' = (txs s)[i := Ended r] \<and> ended s' = ended s @ [i] \<and> holder s' = None"
proof -
  have log: "log_ok calls d0 s" and lock: "lock_ok calls d0 s" using run_ok[OF run] by simp_all
  have len: "length (txs s) = length calls" using log by (simp add: log_ok_def)
  have go: ?thesis if tt: "tx_run calls d0 t" "txs t = (txs s)[i := Running (Stmt SBump f) v]" "holder t = None" "ended t = ended s"
      "begin_tx (calls ! i) = Inr (Stmt SBump f)" for t f v
  proof -
    obtain p d where f: "f \<lparr>tabs = committed t, next_id = ids t\<rparr> = (p, d)" by (metis surj_pair)
    let ?u = "set_tx i (Running p (tabs d)) (t\<lparr>ids := next_id d, holder := Some i\<rparr>)"
    have "tx_run calls d0 ?u"
      by (rule tx_run.more[OF tt(1) tx_step.bump[where s = t and f = f and v = v, OF i(1) _ tt(3) f]]) (use tt(2) i(1) len in simp)
    moreover have "no_bump p" using begun_rest[OF tt(5)] f by (metis fst_conv)
    ultimately obtain s' r where "tx_run calls d0 s'" "txs s' = (txs ?u)[i := Ended r]" "ended s' = ended ?u @ [i]" "holder s' = None"
      using holder_finishes[of calls d0 ?u i p "tabs d"] i(1) len tt(2) by (auto simp: set_tx_def)
    then show ?thesis by (intro exI[of _ s'] exI[of _ r]) (simp add: set_tx_def tt(2,4))
  qed
  show ?thesis
  proof (cases "holder s = Some i")
    case True
    then obtain p v where "txs s ! i = Running p v" "no_bump p" using lock by (auto simp: lock_ok_def)
    then show ?thesis using holder_finishes[OF run i(1) _ True] by blast
  next
    case False
    then have h: "holder s = None" using h by simp
    show ?thesis
    proof (cases "txs s ! i")
      case Idle
      show ?thesis
      proof (cases "begin_tx (calls ! i)")
        case (Inl err)
        from tx_run.more[OF run tx_step.refused[OF i(1) Idle Inl]] show ?thesis
          using h by (intro exI conjI) (assumption | simp add: end_call_def set_tx_def)+
      next
        case (Inr p)
        obtain f where p: "p = Stmt SBump f" using begun_bump[OF Inr] by blast
        show ?thesis
          by (rule go[OF tx_run.more[OF run tx_step.begins[OF i(1) Idle Inr]]]) (use h Inr p in \<open>auto simp: set_tx_def\<close>)
      qed
    next
      case (Running p v)
      then have b: "begin_tx (calls ! i) = Inr p" using lock i(1) h by (auto simp: lock_ok_def)
      obtain f where p: "p = Stmt SBump f" using begun_bump[OF b] by blast
      show ?thesis
        by (rule go[OF run, of f v]) (use h b p Running list_update_id[of "txs s" i] in simp_all)
    next
      case (Ended r)
      then show ?thesis using i(2) by blast
    qed
  qed
qed

section \<open>Writes are serialised\<close>

lemma perform_revision_step:
  assumes "perform_call c d = (Inr res, d')"
  shows "meta (tabs d) = Some (Revision res - 1) \<and> meta (tabs d') = Some (Revision res)"
  using db_write_Inr[OF assms[unfolded perform_call_def perform_db_write]] by auto

text \<open>
  C6. The row lock serialises writes. However the statements of any number of concurrent sets, deletes
  and rollbacks interleave, and whatever faults they meet, waiting for the lock included: the calls that
  have ended returned exactly what they return when performed one after the other in the order in
  which they ended; what is committed is the outcome of these calls in that order, and every read in
  between saw the outcome of the first few of them; so the revisions that are reported follow that order
  with no gap, each one more than what was committed before.
\<close>

theorem writes_serialize:
  assumes "tx_run calls d0 s" and "es = ended s" and "at = (\<lambda>k. serial calls (take k es) d0)"
  shows "distinct es \<and> set es = {i. i < length calls \<and> (\<exists>r. txs s ! i = Ended r)} \<and>
    (\<forall>k<length es. txs s ! (es ! k) = Ended (fst (perform_call (calls ! (es ! k)) (at k))) \<and>
       at (Suc k) = snd (perform_call (calls ! (es ! k)) (at k))) \<and>
    committed s = tabs (at (length es)) \<and>
    (\<forall>t\<in>set (seen_tabs s). \<exists>k\<le>length es. t = tabs (at k)) \<and>
    (\<forall>k<length es. \<forall>res. txs s ! (es ! k) = Ended (Inr res) \<longrightarrow>
       meta (tabs (at k)) = Some (Revision res - 1) \<and> meta (tabs (at (Suc k))) = Some (Revision res)) \<and>
    (\<forall>i<length calls. holder s \<in> {None, Some i} \<and> i \<notin> set es \<longrightarrow>
       (\<exists>s' r. tx_run calls d0 s' \<and> txs s' = (txs s)[i := Ended r] \<and> holder s' = None))"
proof -
  have ok: "log_ok calls d0 s" using run_ok[OF assms(1)] by simp
  have nxt: "at (Suc k) = snd (perform_call (calls ! (es ! k)) (at k))" if "k < length es" for k
    using that by (simp add: assms(3) take_Suc_conv_app_nth)
  have res: "txs s ! (es ! k) = Ended (fst (perform_call (calls ! (es ! k)) (at k)))" if "k < length es" for k
    using ok that by (simp add: log_ok_def assms(2,3))
  have "meta (tabs (at k)) = Some (Revision r - 1) \<and> meta (tabs (at (Suc k))) = Some (Revision r)"
    if "k < length es" "txs s ! (es ! k) = Ended (Inr r)" for k r
  proof -
    have "perform_call (calls ! (es ! k)) (at k) = (Inr r, at (Suc k))"
      using res[OF that(1)] nxt[OF that(1)] that(2) by (simp add: prod_eq_iff)
    from perform_revision_step[OF this] show ?thesis .
  qed
  moreover have "\<exists>s' r. tx_run calls d0 s' \<and> txs s' = (txs s)[i := Ended r] \<and> holder s' = None"
    if "i < length calls" "holder s \<in> {None, Some i}" "i \<notin> set es" for i
  proof -
    have "txs s ! i \<noteq> Ended r" for r using ok that(1,3) by (auto simp: log_ok_def assms(2))
    then show ?thesis using call_can_end[OF assms(1) that(1)] that(2) by auto
  qed
  ultimately show ?thesis using nxt res ok by (auto simp: log_ok_def assms(2,3))
qed

text \<open>Two sets of one key that run at the same time.\<close>

definition calls0 :: "tx_call list" where
  "calls0 =
     [\<lparr>tcEnv = env0, tcDialect = MySQL, tcRequest = ReqSet ''app:a'' ''30s'' ''raw'' chg0\<rparr>,
      \<lparr>tcEnv = env0, tcDialect = Postgres, tcRequest = ReqSet ''app:a'' ''45s'' ''raw'' chg0\<rparr>]"

lemma calls0_begin: "i < 2 \<Longrightarrow> begin_tx (calls0 ! i) = Inr (write_prog env0 (tcDialect (calls0 ! i)) (tcRequest (calls0 ! i)))"
  using ready_empty by (auto simp: begin_tx_def calls0_def ready_def nth_Cons split: nat.split)

lemma race_exists:
  "\<exists>s r0 r1. tx_run calls0 empty_db s \<and> txs s = [Ended r0, Ended r1] \<and> ended s = [0, 1]"
proof -
  let ?s0 = "\<lparr>committed = tabs empty_db, ids = next_id empty_db, holder = None, txs = replicate (length calls0) Idle,
    ended = [], seen_tabs = []\<rparr>"
  have n: "length calls0 = 2" "replicate 2 Idle = [Idle, Idle]" by (simp_all add: calls0_def numeral_2_eq_2)
  obtain p0 p1 where b: "begin_tx (calls0 ! 0) = Inr p0" "begin_tx (calls0 ! 1) = Inr p1" using calls0_begin by simp
  have "tx_run calls0 empty_db (set_tx 1 (Running p1 (committed ?s0)) ?s0)" (is "tx_run _ _ ?s1")
    by (rule tx_run.more[OF tx_run.start tx_step.begins[OF _ _ b(2)]]) (simp_all add: n)
  then have "tx_run calls0 empty_db (set_tx 0 (Running p0 (committed ?s1)) ?s1)" (is "tx_run _ _ ?s2")
    by (rule tx_run.more[OF _ tx_step.begins[OF _ _ b(1)]]) (simp_all add: n set_tx_def)
  from call_can_end[OF this, of 0] obtain s3 r0 where 3: "tx_run calls0 empty_db s3"
      "txs s3 = (txs ?s2)[0 := Ended r0]" "ended s3 = ended ?s2 @ [0]" "holder s3 = None"
    by (auto simp: set_tx_def n)
  from call_can_end[OF 3(1), of 1] obtain s4 r1 where "tx_run calls0 empty_db s4"
      "txs s4 = (txs s3)[1 := Ended r1]" "ended s4 = ended s3 @ [1]"
    using 3 by (auto simp: set_tx_def n)
  then show ?thesis using 3(2,3) by (intro exI[of _ s4]) (simp add: set_tx_def n)
qed

theorem writes_serialize_witness:
  "\<exists>s. tx_run calls0 empty_db s \<and>
     txs s = [Ended (Inr \<lparr>Revision = 1, Version = 1\<rparr>), Ended (Inr \<lparr>Revision = 2, Version = 2\<rparr>)]"
proof -
  obtain s r0 r1 where s: "tx_run calls0 empty_db s" "txs s = [Ended r0, Ended r1]" "ended s = [0, 1]"
    using race_exists by blast
  note w = writes_serialize[OF s(1) HOL.refl HOL.refl]
  have "r0 = fst (perform_call (calls0 ! 0) empty_db)"
    "r1 = fst (perform_call (calls0 ! 1) (snd (perform_call (calls0 ! 0) empty_db)))"
    using w s(2,3) by (auto simp: serial_def)
  moreover have 1: "perform_call (calls0 ! 0) empty_db = (Inr \<lparr>Revision = 1, Version = 1\<rparr>, db1)"
    using set_db1 by (simp add: perform_call_def calls0_def)
  moreover have "ValidateValue (yaml env0) ''45s'' (if ''raw'' = [] then FormatRaw else ''raw'') = None"
    by (simp add: ValidateValue_def limit_defs FormatRaw_def)
  from set_success[OF _ _ ready_db1 this, of Postgres] have
    "fst (perform_call (calls0 ! 1) db1) = Inr \<lparr>Revision = 2, Version = int (length (history_rows ''app:a'' (tabs db1))) + 1\<rparr>"
    using wf_db1 by (simp add: perform_call_def calls0_def)
  moreover have "length (history_rows ''app:a'' (tabs db1)) = 1"
    by (simp add: db1_def history_rows_written)
  ultimately show ?thesis using s(1,2) by auto
qed

end
