(* ===== verification/Contracts.thy ===== *)
theory Contracts
  imports Prelude
begin

text \<open>
  The two interfaces the refresh protocol rests on. \<open>config_store\<close> is what readers rely on in a
  store: a revision that only grows, and content that changes only together with it.
  \<open>poll_source\<close> is the contract that \<open>client/client.go\<close> states for a \<open>Source\<close>: a snapshot is never
  labelled higher than its true revision. The lemmas inside are the argument of the protocol:
  a label that is low costs one more poll, and a client whose label is the current revision
  holds the current data.

  A restore from backup, which moves the revision backwards, leaves these contracts; what the
  code does about it (it compares with \<open>!=\<close> and labels with the minimum) is stated with the
  components.
\<close>

locale config_store =
  fixes revision :: "'st \<Rightarrow> int"
    and rows :: "'st \<Rightarrow> 'p \<Rightarrow> 'r"
    and later :: "'st \<Rightarrow> 'st \<Rightarrow> bool"
  assumes later_refl: "later s s"
    and later_trans: "later s t \<Longrightarrow> later t u \<Longrightarrow> later s u"
    and revision_mono: "later s t \<Longrightarrow> revision s \<le> revision t"
    and rows_fixed: "later s t \<Longrightarrow> revision s = revision t \<Longrightarrow> rows s p = rows t p"
begin

text \<open>Data with a label that is not too high, read at some moment up to \<open>s\<close>.\<close>

definition low_label :: "'st \<Rightarrow> 'p \<Rightarrow> int \<Rightarrow> 'r \<Rightarrow> bool" where
  "low_label s p label data \<longleftrightarrow> (\<exists>m. later m s \<and> data = rows m p \<and> label \<le> revision m)"

lemma low_label_later: "low_label s p label data \<Longrightarrow> later s t \<Longrightarrow> low_label t p label data"
  unfolding low_label_def using later_trans by blast

text \<open>Reading the revision first and the rows afterwards gives a low label.\<close>

lemma revision_then_rows: "later s m \<Longrightarrow> later m t \<Longrightarrow> low_label t p (revision s) (rows m p)"
  unfolding low_label_def using revision_mono by blast

lemma smaller_label: "low_label s p label data \<Longrightarrow> label' \<le> label \<Longrightarrow> low_label s p label' data"
  unfolding low_label_def using order_trans by blast

text \<open>Whoever holds data labelled with the current revision holds the current data.\<close>

lemma current_label_current_data:
  assumes "low_label s p (revision s) data"
  shows "data = rows s p"
proof -
  obtain m where m: "later m s" "data = rows m p" "revision s \<le> revision m"
    using assms by (auto simp: low_label_def)
  then have "revision m = revision s" using revision_mono[OF m(1)] by simp
  then show ?thesis using rows_fixed[OF m(1)] m(2) by simp
qed

text \<open>A label is at most the revision, so data whose label differs is behind or will be read again.\<close>

lemma label_bound: "low_label s p label data \<Longrightarrow> label \<le> revision s"
  unfolding low_label_def using revision_mono order_trans by blast

end

text \<open>
  A source. \<open>polls s t since p (Some (l, d))\<close>: a poll that starts when the store is \<open>s\<close> and ends
  when it is \<open>t\<close> can return the snapshot; \<open>None\<close> is "unchanged". \<open>settled s\<close>: the store has come
  to rest in \<open>s\<close> and the source knows its revision.
\<close>

locale poll_source = config_store revision rows later
  for revision :: "'st \<Rightarrow> int" and rows :: "'st \<Rightarrow> 'p \<Rightarrow> 'r" and later :: "'st \<Rightarrow> 'st \<Rightarrow> bool" +
  fixes polls :: "'st \<Rightarrow> 'st \<Rightarrow> int \<Rightarrow> 'p \<Rightarrow> (int \<times> 'r) option \<Rightarrow> bool"
    and settled :: "'st \<Rightarrow> bool"
  assumes poll_later: "polls s t since p out \<Longrightarrow> later s t"
    and poll_low: "polls s t since p (Some (l, d)) \<Longrightarrow> low_label t p l d"
    and poll_settled: "settled s \<Longrightarrow> polls s s since p (Some (l, d)) \<Longrightarrow> l = revision s"
    and poll_unchanged: "settled s \<Longrightarrow> polls s s since p None \<Longrightarrow> since = revision s"
begin

text \<open>What a client holds: no baseline yet, or data with a low label.\<close>

definition holds :: "'st \<Rightarrow> 'p \<Rightarrow> int \<Rightarrow> 'r option \<Rightarrow> bool" where
  "holds s p label data \<longleftrightarrow> label < 0 \<and> data = None \<or> (\<exists>d. data = Some d \<and> low_label s p label d)"

fun after_poll :: "int \<times> 'r option \<Rightarrow> (int \<times> 'r) option \<Rightarrow> int \<times> 'r option" where
  "after_poll h None = h"
| "after_poll h (Some (l, d)) = (l, Some d)"

lemma holds_after_poll:
  assumes "holds s p label data" and "polls s t label p out"
  shows "holds t p (fst (after_poll (label, data) out)) (snd (after_poll (label, data) out))"
proof (cases out)
  case None
  then show ?thesis using assms poll_later[OF assms(2)] low_label_later by (auto simp: holds_def)
next
  case (Some ld)
  obtain l d where "ld = (l, d)" by (cases ld)
  then show ?thesis using assms Some poll_low by (auto simp: holds_def)
qed

text \<open>
  Convergence: once the store is at rest and the source knows it, one poll that returns
  without an error leaves the client with the current revision and the current data.
\<close>

lemma one_poll_converges:
  assumes "settled s" and "0 \<le> revision s" and "holds s p label data" and "polls s s label p out"
  shows "after_poll (label, data) out = (revision s, Some (rows s p))"
proof (cases out)
  case None
  then have l: "label = revision s" using poll_unchanged assms(1,4) by simp
  then obtain d where "data = Some d" "low_label s p (revision s) d"
    using assms(2,3) by (auto simp: holds_def)
  then show ?thesis using None l current_label_current_data by simp
next
  case (Some ld)
  obtain l d where ld: "ld = (l, d)" by (cases ld)
  have "l = revision s" using poll_settled assms(1,4) Some ld by simp
  moreover have "low_label s p l d" using poll_low assms(4) Some ld by simp
  ultimately show ?thesis using Some ld current_label_current_data by simp
qed

end

end
