(* ===== verification/Client_View.thy ===== *)
theory Client_View
  imports GoNum "HOL-Library.AList" "HOL-Library.Multiset"
begin

text \<open>
  The client's snapshot of the configuration: \<open>client/wire.go\<close>, \<open>client/view.go\<close>,
  \<open>client/group.go\<close> and the prefix helpers of \<open>client/client.go\<close>. A Go map is an association
  list with distinct keys. The order in which \<open>range\<close> visits a map is chosen by the runtime:
  it is a parameter of \<open>diff\<close>, any function that permutes the keys.
\<close>

section \<open>Data\<close>

record CConfig =
  eKey :: string
  eValue :: string
  eFormat :: string

record Snapshot =
  sRevision :: int
  sConfigs :: "CConfig list"

record view =
  vRevision :: int
  byKey :: "(string \<times> CConfig) list"
  keys :: "string list"

fun view_add :: "CConfig list \<Rightarrow> view \<Rightarrow> view" where
  "view_add [] v = v"
| "view_add (c # cs) v =
     view_add cs (v\<lparr>byKey := AList.update (eKey c) c (byKey v), keys := keys v @ [eKey c]\<rparr>)"

definition newView :: "Snapshot \<Rightarrow> view" where
  "newView s =
     (let v = view_add (sConfigs s) \<lparr>vRevision = sRevision s, byKey = [], keys = []\<rparr>
      in v\<lparr>keys := sort (keys v)\<rparr>)"

definition emptyView :: view where
  "emptyView = \<lparr>vRevision = -1, byKey = [], keys = []\<rparr>"

definition prefixRange :: "view \<Rightarrow> string \<Rightarrow> nat \<times> nat" where
  "prefixRange v p =
     (bsearch (\<lambda>i. keys v ! i < p) 0 (length (keys v)),
      bsearch (\<lambda>i. prefix p (keys v ! i) \<or> keys v ! i < p) 0 (length (keys v)))"

text \<open>Indexing a Go map with an absent key gives the zero value.\<close>

definition zeroConfig :: CConfig where
  "zeroConfig = \<lparr>eKey = [], eValue = [], eFormat = []\<rparr>"

definition toWire :: "view \<Rightarrow> Snapshot" where
  "toWire v = \<lparr>sRevision = vRevision v,
     sConfigs = map (\<lambda>k. case map_of (byKey v) k of None \<Rightarrow> zeroConfig | Some c \<Rightarrow> c) (keys v)\<rparr>"

type_synonym map_order = "string list \<Rightarrow> string list"

definition changed_in :: "view \<Rightarrow> view \<Rightarrow> string \<Rightarrow> bool" where
  "changed_in old new k =
     (case map_of (byKey new) k of None \<Rightarrow> False
      | Some nc \<Rightarrow>
          (case map_of (byKey old) k of None \<Rightarrow> True
           | Some oc \<Rightarrow> eValue oc \<noteq> eValue nc \<or> eFormat oc \<noteq> eFormat nc))"

definition diff :: "map_order \<Rightarrow> view \<Rightarrow> view \<Rightarrow> string list" where
  "diff ord old new =
     sort (filter (changed_in old new) (ord (map fst (byKey new))) @
           filter (\<lambda>k. map_of (byKey new) k = None) (ord (map fst (byKey old))))"

record Group =
  gPrefix :: string
  gSnap :: view
  gStrict :: bool

definition Keys :: "Group \<Rightarrow> string list" where
  "Keys g = (case prefixRange (gSnap g) (gPrefix g) of (lo, hi) \<Rightarrow>
     map (\<lambda>k. TrimPrefix k (gPrefix g)) (take (hi - lo) (drop lo (keys (gSnap g)))))"

definition Len :: "Group \<Rightarrow> int" where
  "Len g = (case prefixRange (gSnap g) (gPrefix g) of (lo, hi) \<Rightarrow> int hi - int lo)"

definition Raw :: "Group \<Rightarrow> string \<Rightarrow> string option" where
  "Raw g key = map_option eValue (map_of (byKey (gSnap g)) (gPrefix g @ key))"

section \<open>Prefixes of the client\<close>

definition filterPrefix :: "string list \<Rightarrow> string \<Rightarrow> string list" where
  "filterPrefix ks p = (if p = [] then ks else filter (prefix p) ks)"

text \<open>The loop of \<open>normalizePrefixes\<close>; \<open>None\<close> is its early return of nil.\<close>

fun dedup_prefixes :: "string list \<Rightarrow> string list \<Rightarrow> string list option" where
  "dedup_prefixes [] out = Some out"
| "dedup_prefixes (p # ps) out =
     (if p = [] then None
      else if p \<in> set out then dedup_prefixes ps out
      else dedup_prefixes ps (out @ [p]))"

definition normalizePrefixes :: "string list \<Rightarrow> string list" where
  "normalizePrefixes ps = (case dedup_prefixes ps [] of None \<Rightarrow> [] | Some out \<Rightarrow> out)"

section \<open>Building a view\<close>

definition lookup :: "view \<Rightarrow> string \<Rightarrow> CConfig option" where
  "lookup v k = map_of (byKey v) k"

definition wf_view :: "view \<Rightarrow> bool" where
  "wf_view v \<longleftrightarrow>
     sorted (keys v) \<and> distinct (keys v) \<and> distinct (map fst (byKey v)) \<and>
     set (keys v) = fst ` set (byKey v) \<and> (\<forall>(k, c)\<in>set (byKey v). eKey c = k)"

lemma view_add_simps:
  "vRevision (view_add cs v) = vRevision v"
  "keys (view_add cs v) = keys v @ map eKey cs"
  "fst ` set (byKey (view_add cs v)) = fst ` set (byKey v) \<union> eKey ` set cs"
  "distinct (map fst (byKey v)) \<Longrightarrow> distinct (map fst (byKey (view_add cs v)))"
  by (induction cs arbitrary: v) (auto simp: dom_update distinct_update)

lemma set_update: "set (AList.update k v al) \<subseteq> insert (k, v) (set al)"
  by (induction al) auto

lemma view_add_keyed:
  "\<forall>(k, c)\<in>set (byKey v). eKey c = k \<Longrightarrow> \<forall>(k, c)\<in>set (byKey (view_add cs v)). eKey c = k"
proof (induction cs arbitrary: v)
  case Nil
  then show ?case by simp
next
  case (Cons c cs)
  have "\<forall>(k, d)\<in>set (AList.update (eKey c) c (byKey v)). eKey d = k"
    using set_update[of "eKey c" c "byKey v"] Cons.prems by auto
  then show ?case
    using Cons.IH[of "v\<lparr>byKey := AList.update (eKey c) c (byKey v), keys := keys v @ [eKey c]\<rparr>"] by simp
qed

text \<open>The last configuration of a key wins.\<close>

lemma view_add_lookup:
  "map_of (byKey (view_add cs v)) k =
     (case find (\<lambda>c. eKey c = k) (rev cs) of Some c \<Rightarrow> Some c | None \<Rightarrow> map_of (byKey v) k)"
  by (induction cs arbitrary: v) (auto simp: find_append_one update_conv' split: option.splits)

lemma newView_simps [simp]:
  "vRevision (newView s) = sRevision s" "keys (newView s) = sort (map eKey (sConfigs s))"
  by (simp_all add: newView_def Let_def view_add_simps)

lemma lookup_newView: "lookup (newView s) k = find (\<lambda>c. eKey c = k) (rev (sConfigs s))"
  by (simp add: lookup_def newView_def Let_def view_add_lookup split: option.splits)

definition wf_snapshot :: "Snapshot \<Rightarrow> bool" where
  "wf_snapshot s \<longleftrightarrow> distinct (map eKey (sConfigs s))"

lemma newView_byKey:
  "fst ` set (byKey (newView s)) = eKey ` set (sConfigs s)"
  "distinct (map fst (byKey (newView s)))"
  "\<forall>(k, c)\<in>set (byKey (newView s)). eKey c = k"
  using view_add_keyed[of "\<lparr>vRevision = sRevision s, byKey = [], keys = []\<rparr>" "sConfigs s"]
  by (simp_all add: newView_def Let_def view_add_simps)

lemma wf_newView: "wf_snapshot s \<Longrightarrow> wf_view (newView s)"
  using newView_byKey(3)[of s]
  by (simp add: wf_view_def wf_snapshot_def newView_byKey)

lemma wf_emptyView [simp]: "wf_view emptyView"
  by (simp add: wf_view_def emptyView_def)

lemma find_key_snapshot:
  "distinct (map eKey cs) \<Longrightarrow> find (\<lambda>c. eKey c = k) (rev cs) = Some c \<longleftrightarrow> c \<in> set cs \<and> eKey c = k"
proof (induction cs arbitrary: c)
  case Nil
  then show ?case by simp
next
  case (Cons d cs)
  have none: "find (\<lambda>c. eKey c = eKey d) (rev cs) = None"
    using Cons.prems by (auto simp: find_None_iff image_iff)
  have dist: "distinct (map eKey cs)" using Cons.prems by simp
  show ?case
  proof (cases "eKey d = k")
    case True
    then have "find (\<lambda>c. eKey c = k) (rev (d # cs)) = Some d" using none by (simp add: find_append_one)
    moreover have "c \<in> set (d # cs) \<and> eKey c = k \<longleftrightarrow> c = d" using True Cons.prems by (auto simp: image_iff)
    ultimately show ?thesis by auto
  next
    case False
    then show ?thesis using Cons.IH[OF dist, of c] by (auto simp: find_append_one split: option.splits)
  qed
qed

lemma lookup_wf_snapshot: "wf_snapshot s \<Longrightarrow>
    lookup (newView s) k = Some c \<longleftrightarrow> c \<in> set (sConfigs s) \<and> eKey c = k"
  by (simp add: lookup_newView find_key_snapshot wf_snapshot_def)

lemma wf_view_lookup:
  assumes "wf_view v"
  shows "lookup v k = Some c \<Longrightarrow> eKey c = k \<and> k \<in> set (keys v)"
    and "k \<in> set (keys v) \<longleftrightarrow> lookup v k \<noteq> None"
proof -
  assume "lookup v k = Some c"
  then have "(k, c) \<in> set (byKey v)" by (simp add: lookup_def map_of_SomeD)
  moreover from this have "k \<in> fst ` set (byKey v)" by (metis fst_conv image_eqI)
  ultimately show "eKey c = k \<and> k \<in> set (keys v)" using assms by (auto simp: wf_view_def)
next
  show "k \<in> set (keys v) \<longleftrightarrow> lookup v k \<noteq> None"
    using assms by (simp add: wf_view_def lookup_def map_of_eq_None_iff)
qed

section \<open>The range of a prefix\<close>

text \<open>
  The two binary searches deliver the keys that carry the prefix: on sorted keys they are a
  contiguous run, and reporting a prefixed key as less ends the second search behind it.
\<close>

lemma prefixRange_filter:
  assumes "sorted (keys v)" and "prefixRange v p = (lo, hi)"
  shows "lo \<le> hi" "hi \<le> length (keys v)" "take (hi - lo) (drop lo (keys v)) = filter (prefix p) (keys v)"
proof -
  let ?ks = "keys v" and ?n = "length (keys v)"
  have mono: "?ks ! a \<le> ?ks ! b" if "a \<le> b" "b < ?n" for a b
    using assms(1) that by (simp add: sorted_nth_mono)
  have past: "prefix p a \<or> a < p" if "a \<le> b" "prefix p b \<or> b < p" for a b :: string
  proof (rule ccontr)
    assume "\<not> (prefix p a \<or> a < p)"
    then have a: "\<not> prefix p a" "p \<le> a" by auto
    then have "prefix p b" using that by auto
    then have "b < a" using prefix_le_between[of p p a b] a by simp
    then show False using that(1) by simp
  qed
  have lo: "lo \<le> ?n \<and> (\<forall>k<?n. ?ks ! k < p \<longleftrightarrow> k < lo)"
  proof -
    have "?ks ! a < p" if "a \<le> b" "b < ?n" "?ks ! b < p" for a b
      using mono[OF that(1,2)] that(3) by (rule le_less_trans)
    from bsearch_partition[of ?n "\<lambda>i. ?ks ! i < p" 0, OF this] show ?thesis
      using assms(2) by (simp add: prefixRange_def)
  qed
  have hi: "hi \<le> ?n \<and> (\<forall>k<?n. (prefix p (?ks ! k) \<or> ?ks ! k < p) \<longleftrightarrow> k < hi)"
  proof -
    have "prefix p (?ks ! a) \<or> ?ks ! a < p" if "a \<le> b" "b < ?n" "prefix p (?ks ! b) \<or> ?ks ! b < p" for a b
      using past[OF mono[OF that(1,2)] that(3)] .
    from bsearch_partition[of ?n "\<lambda>i. prefix p (?ks ! i) \<or> ?ks ! i < p" 0, OF this] show ?thesis
      using assms(2) by (simp add: prefixRange_def)
  qed
  show le: "lo \<le> hi"
  proof (rule ccontr)
    assume "\<not> lo \<le> hi"
    then have "hi < lo" "hi < ?n" using lo by auto
    then show False using lo hi by blast
  qed
  show "hi \<le> ?n" using hi by simp
  have "prefix p (?ks ! i) \<longleftrightarrow> lo \<le> i \<and> i < hi" if "i < ?n" for i
  proof -
    have "prefix p (?ks ! i) \<Longrightarrow> \<not> ?ks ! i < p" using prefix_imp_le[of p "?ks ! i"] by auto
    then show ?thesis using lo hi that by (metis not_le)
  qed
  from filter_drop_take_interval[OF this le] show "take (hi - lo) (drop lo ?ks) = filter (prefix p) ?ks"
    by simp
qed

lemma Keys_filter: "sorted (keys (gSnap g)) \<Longrightarrow>
    Keys g = map (\<lambda>k. TrimPrefix k (gPrefix g)) (filter (prefix (gPrefix g)) (keys (gSnap g)))"
  using prefixRange_filter(3)[of "gSnap g" "gPrefix g"]
  by (simp add: Keys_def split: prod.splits)

lemma Len_filter:
  assumes "sorted (keys (gSnap g))"
  shows "Len g = int (length (filter (prefix (gPrefix g)) (keys (gSnap g))))"
proof -
  obtain lo hi where r: "prefixRange (gSnap g) (gPrefix g) = (lo, hi)" by (cases "prefixRange (gSnap g) (gPrefix g)")
  have "length (take (hi - lo) (drop lo (keys (gSnap g)))) = hi - lo"
    using prefixRange_filter(1,2)[OF assms r] by simp
  then have "length (filter (prefix (gPrefix g)) (keys (gSnap g))) = hi - lo"
    by (simp add: prefixRange_filter(3)[OF assms r])
  then show ?thesis using prefixRange_filter(1)[OF assms r] r by (simp add: Len_def)
qed

lemma Raw_lookup: "Raw g key = map_option eValue (lookup (gSnap g) (gPrefix g @ key))"
  by (simp add: Raw_def lookup_def)

section \<open>The difference of two views\<close>

definition fair_order :: "map_order \<Rightarrow> bool" where
  "fair_order ord \<longleftrightarrow> (\<forall>ks. mset (ord ks) = mset ks)"

definition differs :: "view \<Rightarrow> view \<Rightarrow> string \<Rightarrow> bool" where
  "differs old new k \<longleftrightarrow>
     map_option (\<lambda>c. (eValue c, eFormat c)) (lookup old k) \<noteq>
     map_option (\<lambda>c. (eValue c, eFormat c)) (lookup new k)"

lemma fair_order_set: "fair_order ord \<Longrightarrow> set (ord ks) = set ks"
  by (metis fair_order_def set_mset_mset)

lemma fair_order_distinct: "fair_order ord \<Longrightarrow> distinct (ord ks) = distinct ks"
  by (metis fair_order_def mset_eq_imp_distinct_iff)

lemma in_keys_lookup: "k \<in> fst ` set (byKey v) \<longleftrightarrow> lookup v k \<noteq> None"
  by (simp add: lookup_def map_of_eq_None_iff)

lemma set_diff: "fair_order ord \<Longrightarrow> set (diff ord old new) = {k. differs old new k}"
proof -
  assume f: "fair_order ord"
  have a: "map_of (byKey v) = lookup v" for v by (rule ext) (simp add: lookup_def)
  show ?thesis
    by (auto simp: diff_def changed_in_def differs_def fair_order_set[OF f] in_keys_lookup a
        split: option.splits)
qed

lemma diff_sorted_distinct:
  assumes "fair_order ord" "distinct (map fst (byKey old))" "distinct (map fst (byKey new))"
  shows "sorted (diff ord old new) \<and> distinct (diff ord old new)"
proof -
  have "set (filter (changed_in old new) (ord (map fst (byKey new)))) \<inter>
      set (filter (\<lambda>k. map_of (byKey new) k = None) (ord (map fst (byKey old)))) = {}"
    by (auto simp: changed_in_def)
  then show ?thesis using assms by (simp add: diff_def fair_order_distinct)
qed

lemma diff_order_irrelevant:
  assumes "fair_order ord" "fair_order ord'"
  shows "diff ord old new = diff ord' old new"
proof -
  have "mset (filter P (ord ks)) = mset (filter P (ord' ks))" for P ks
    using assms by (simp add: fair_order_def)
  then show ?thesis unfolding diff_def
    by (intro properties_for_sort) (simp_all flip: mset_filter)
qed

section \<open>Lists of prefixes\<close>

lemma dedup_prefixes_spec:
  "distinct out \<Longrightarrow> [] \<notin> set out \<Longrightarrow>
   (case dedup_prefixes ps out of None \<Rightarrow> [] \<in> set ps
    | Some res \<Rightarrow> [] \<notin> set ps \<and> distinct res \<and> set res = set out \<union> set ps)"
proof (induction ps out rule: dedup_prefixes.induct)
  case (1 out)
  then show ?case by simp
next
  case (2 p ps out)
  show ?case
  proof (cases "p = [] \<or> p \<in> set out")
    case True
    then show ?thesis using 2 by (auto split: option.splits)
  next
    case False
    then show ?thesis using "2.IH"(2) "2.prems" by (auto split: option.splits)
  qed
qed

lemma normalizePrefixes_spec:
  "distinct (normalizePrefixes ps)" "[] \<notin> set (normalizePrefixes ps)"
  "set (normalizePrefixes ps) = (if [] \<in> set ps then {} else set ps)"
  using dedup_prefixes_spec[of "[]" ps]
  by (auto simp: normalizePrefixes_def split: option.splits)

lemma set_filterPrefix: "set (filterPrefix ks p) = {k \<in> set ks. prefix p k}"
  by (auto simp: filterPrefix_def)

lemma filterPrefix_sorted: "sorted ks \<Longrightarrow> sorted (filterPrefix ks p)"
  for ks :: "string list"
  by (simp add: filterPrefix_def sorted_wrt_filter)

end
