(* ===== verification/Json_Codec.thy ===== *)
theory Json_Codec
  imports JsonText
begin

text \<open>
  \<open>encoding/json/v2\<close> as the program uses it: \<open>Unmarshal\<close> reads one document into a tree (the
  values of Go's structs are then read off the tree), \<open>Marshal\<close> prints a tree. The reader is
  \<open>JsonText\<close>'s recogniser with results, so the two accept the same documents. What is printed
  is read back: \<open>parse_emit\<close>.
\<close>

datatype json =
  JNull
| JBool bool
| JNum string
| JStr string
| JArr "json list"
| JObj "(string \<times> json) list"

section \<open>Reading\<close>

text \<open>The part of \<open>s\<close> before its rest \<open>r\<close>.\<close>

definition upto_rest :: "string \<Rightarrow> string \<Rightarrow> string" where
  "upto_rest s r = take (length s - length r) s"

fun jtree :: "nat \<Rightarrow> nat \<Rightarrow> string \<Rightarrow> (json \<times> string) option"
  and jtrees :: "nat \<Rightarrow> nat \<Rightarrow> string \<Rightarrow> (json list \<times> string) option"
  and jfields :: "nat \<Rightarrow> nat \<Rightarrow> string list \<Rightarrow> string \<Rightarrow> ((string \<times> json) list \<times> string) option" where
  "jtree 0 d s = None"
| "jtree (Suc f) d s = (case skip_ws s of [] \<Rightarrow> None | c # t \<Rightarrow>
     if c = CHR 0x22 then map_option (apfst JStr) (jstring t)
     else if c = CHR ''{'' then
       (if d < max_depth
        then (case skip_ws t of [] \<Rightarrow> None
              | e # u \<Rightarrow> if e = CHR ''}'' then Some (JObj [], u)
                       else map_option (apfst JObj) (jfields f (Suc d) [] t))
        else None)
     else if c = CHR ''['' then
       (if d < max_depth
        then (case skip_ws t of [] \<Rightarrow> None
              | e # u \<Rightarrow> if e = CHR '']'' then Some (JArr [], u)
                       else map_option (apfst JArr) (jtrees f (Suc d) t))
        else None)
     else if c = CHR ''t'' then map_option (Pair (JBool True)) (literal ''rue'' t)
     else if c = CHR ''f'' then map_option (Pair (JBool False)) (literal ''alse'' t)
     else if c = CHR ''n'' then map_option (Pair JNull) (literal ''ull'' t)
     else map_option (\<lambda>r. (JNum (upto_rest (c # t) r), r)) (jnumber (c # t)))"
| "jtrees 0 d s = None"
| "jtrees (Suc f) d s = (case jtree f d s of None \<Rightarrow> None
     | Some (j, r) \<Rightarrow> (case skip_ws r of [] \<Rightarrow> None
        | c # t \<Rightarrow> if c = CHR '','' then map_option (apfst (Cons j)) (jtrees f d t)
                 else if c = CHR '']'' then Some ([j], t) else None))"
| "jfields 0 d names s = None"
| "jfields (Suc f) d names s = (case skip_ws s of [] \<Rightarrow> None | c # t \<Rightarrow>
     if c \<noteq> CHR 0x22 then None
     else (case jstring t of None \<Rightarrow> None
       | Some (name, r) \<Rightarrow>
           if name \<in> set names then None
           else (case skip_ws r of [] \<Rightarrow> None | e # u \<Rightarrow>
             if e \<noteq> CHR '':'' then None
             else (case jtree f d u of None \<Rightarrow> None
               | Some (j, v) \<Rightarrow> (case skip_ws v of [] \<Rightarrow> None
                   | g # w \<Rightarrow>
                       if g = CHR '','' then map_option (apfst (Cons (name, j))) (jfields f d (name # names) w)
                       else if g = CHR ''}'' then Some ([(name, j)], w) else None)))))"

definition parse_json :: "string \<Rightarrow> json option" where
  "parse_json s = (case jtree (2 * length s + 1) 0 s of None \<Rightarrow> None
     | Some (j, r) \<Rightarrow> if skip_ws r = [] then Some j else None)"

text \<open>The tree reader accepts what the recogniser accepts.\<close>

lemma map_option_snd [simp]:
  "map_option snd (map_option (apfst g) x) = map_option snd x"
  "map_option snd (map_option (Pair a) y) = y"
  "map_option snd (map_option (\<lambda>r. (h r, r)) y) = y"
  by (cases x; simp) (cases y; simp)+

lemma jtree_jvalue:
  "map_option snd (jtree f d s) = jvalue f d s"
  "map_option snd (jtrees f d s) = jelems f d s"
  "map_option snd (jfields f d names s) = jmembers f d names s"
proof (induction f arbitrary: d s names)
  case 0
  { case 1 show ?case by simp
  next case 2 show ?case by simp
  next case 3 show ?case by simp }
next
  case (Suc f)
  have val: "jtree f d u = None \<Longrightarrow> jvalue f d u = None"
    "jtree f d u = Some (j, v) \<Longrightarrow> jvalue f d u = Some v" for d u j v
    by (simp_all flip: Suc.IH(1))
  { case 1
    show ?case by (simp add: Suc.IH(2,3) split: list.split)
  next
    case 2
    show ?case
      by (cases "jtree f d s") (auto simp: val Suc.IH(2) split: list.splits)
  next
    case 3
    have "jmembers (Suc f) d names s = map_option snd (jfields (Suc f) d names s)"
      by (auto simp: val Suc.IH(3) split: list.splits option.splits)
    then show ?case by simp }
qed

section \<open>Printing\<close>

definition hex_digit :: "nat \<Rightarrow> char" where
  "hex_digit n = char_of (if n < 10 then 48 + n else 87 + n)"

definition quote_char :: "char \<Rightarrow> string" where
  "quote_char c =
     (if c = CHR 0x22 \<or> c = CHR 0x5C then [CHR 0x5C, c]
      else if c = CHR 0x08 then [CHR 0x5C, CHR ''b'']
      else if c = CHR 0x0C then [CHR 0x5C, CHR ''f'']
      else if c = CHR 0x0A then [CHR 0x5C, CHR ''n'']
      else if c = CHR 0x0D then [CHR 0x5C, CHR ''r'']
      else if c = CHR 0x09 then [CHR 0x5C, CHR ''t'']
      else if byte c < 32 then
        [CHR 0x5C, CHR ''u'', CHR ''0'', CHR ''0'', hex_digit (byte c div 16), hex_digit (byte c mod 16)]
      else [c])"

text \<open>\<open>AppendQuote\<close>: a string that is not valid UTF-8 is an error, \<open>None\<close>.\<close>

function quote_body :: "string \<Rightarrow> string option" where
  "quote_body s = (case s of [] \<Rightarrow> Some []
     | c # t \<Rightarrow> (case utf8_len s of None \<Rightarrow> None
         | Some n \<Rightarrow> map_option (append (concat (map quote_char (take n s)))) (quote_body (drop (n - 1) t))))"
  by pat_completeness auto
termination
  by (relation "measure length") auto

declare quote_body.simps [simp del]

definition quote :: "string \<Rightarrow> string option" where
  "quote s = map_option (\<lambda>b. CHR 0x22 # b @ [CHR 0x22]) (quote_body s)"

fun emit :: "json \<Rightarrow> string option"
  and emit_list :: "json list \<Rightarrow> string option"
  and emit_fields :: "(string \<times> json) list \<Rightarrow> string option" where
  "emit JNull = Some ''null''"
| "emit (JBool b) = Some (if b then ''true'' else ''false'')"
| "emit (JNum n) = Some n"
| "emit (JStr s) = quote s"
| "emit (JArr js) = (case js of [] \<Rightarrow> Some ''[]''
     | _ \<Rightarrow> map_option (\<lambda>b. CHR ''['' # b) (emit_list js))"
| "emit (JObj fs) = (case fs of [] \<Rightarrow> Some ''{}''
     | _ \<Rightarrow> map_option (\<lambda>b. CHR ''{'' # b) (emit_fields fs))"
| "emit_list [] = Some []"
| "emit_list (j # js) = Option.bind (emit j) (\<lambda>a.
     case js of [] \<Rightarrow> Some (a @ '']'') | _ \<Rightarrow> map_option (\<lambda>b. a @ '','' @ b) (emit_list js))"
| "emit_fields [] = Some []"
| "emit_fields ((k, j) # fs) = Option.bind (quote k) (\<lambda>q. Option.bind (emit j) (\<lambda>a.
     case fs of [] \<Rightarrow> Some (q @ '':'' @ a @ ''}'')
     | _ \<Rightarrow> map_option (\<lambda>b. q @ '':'' @ a @ '','' @ b) (emit_fields fs)))"

section \<open>What is printed is read back\<close>

subsection \<open>Strings\<close>

lemma utf8_len_take:
  assumes "utf8_len s = Some n"
  shows "0 < n" "n \<le> length s" "utf8_len (take n s @ r) = Some n"
    "n = 1 \<and> byte (hd s) < 128 \<or> 1 < n \<and> (\<forall>x\<in>set (take n s). 128 \<le> byte x)"
proof -
  obtain a t where s: "s = a # t" using assms by (cases s) auto
  show "0 < n" "n \<le> length s" "utf8_len (take n s @ r) = Some n"
    "n = 1 \<and> byte (hd s) < 128 \<or> 1 < n \<and> (\<forall>x\<in>set (take n s). 128 \<le> byte x)"
    using assms unfolding s
    by (auto simp: utf8_len.simps(2) Let_def is_cont_def split: if_splits list.splits)
qed

lemma hex_digit_val: "n < 16 \<Longrightarrow> hex_val (hex_digit n) = Some n"
  by (auto simp: hex_val_def hex_digit_def Let_def)

lemma escape_control:
  assumes "byte c < 32"
  shows "escape (CHR ''u'' # CHR ''0'' # CHR ''0'' # hex_digit (byte c div 16) #
    hex_digit (byte c mod 16) # r) = Some ([c], r)"
proof -
  have z: "hex_val CHR ''0'' = Some 0" by (simp add: hex_val_def)
  have h: "hex_val (hex_digit (byte c div 16)) = Some (byte c div 16)"
    "hex_val (hex_digit (byte c mod 16)) = Some (byte c mod 16)"
    using assms by (simp_all add: hex_digit_val)
  have "16 * (byte c div 16) + byte c mod 16 = byte c" by simp
  then show ?thesis using assms by (simp add: unicode_escape_def z h utf8_encode_def)
qed

lemma jstring_quote_char:
  assumes "byte c < 128"
  shows "jstring (quote_char c @ r) = map_option (apfst (Cons c)) (jstring r)"
proof -
  have ap: "(@) [x] = Cons x" for x :: char by (rule ext) simp
  show ?thesis
  proof (cases "byte c < 32 \<or> c = CHR 0x22 \<or> c = CHR 0x5C")
    case True
    then consider "c = CHR 0x22 \<or> c = CHR 0x5C \<or> c = CHR 0x08 \<or> c = CHR 0x0C \<or> c = CHR 0x0A \<or>
        c = CHR 0x0D \<or> c = CHR 0x09"
      | "byte c < 32" "quote_char c = [CHR 0x5C, CHR ''u'', CHR ''0'', CHR ''0'',
          hex_digit (byte c div 16), hex_digit (byte c mod 16)]"
      by (cases "c \<in> {CHR 0x22, CHR 0x5C, CHR 0x08, CHR 0x0C, CHR 0x0A, CHR 0x0D, CHR 0x09}")
         (simp_all add: quote_char_def)
    then show ?thesis
    proof cases
      case 1
      then show ?thesis
        by (elim disjE) (simp_all add: quote_char_def jstring.simps[of "CHR 0x5C # _"] ap)
    next
      case 2
      then show ?thesis
        using escape_control[OF 2(1), of r] by (simp add: jstring.simps[of "CHR 0x5C # _"] ap)
    qed
  next
    case False
    then have "quote_char c = [c]" by (auto simp: quote_char_def)
    moreover have "utf8_len (c # r) = Some 1" using assms by (simp add: utf8_len.simps(2) Let_def)
    ultimately show ?thesis using False by (simp add: jstring.simps[of "c # r"] ap)
  qed
qed

lemma quote_high: "\<forall>x\<in>set s. 128 \<le> byte x \<Longrightarrow> concat (map quote_char s) = s"
proof (induction s)
  case Nil
  then show ?case by simp
next
  case (Cons c s)
  have "c \<noteq> CHR 0x22" "c \<noteq> CHR 0x5C" "c \<noteq> CHR 0x08" "c \<noteq> CHR 0x0C" "c \<noteq> CHR 0x0A" "c \<noteq> CHR 0x0D"
    "c \<noteq> CHR 0x09" using Cons.prems by auto
  then show ?case using Cons by (simp add: quote_char_def)
qed

lemma jstring_quote_body:
  "quote_body s = Some b \<Longrightarrow> jstring (b @ CHR 0x22 # r) = Some (s, r)"
proof (induction s arbitrary: b rule: quote_body.induct)
  case (1 s)
  show ?case
  proof (cases s)
    case Nil
    then show ?thesis using "1.prems" by (simp add: quote_body.simps[of "[]"] jstring.simps[of "CHR 0x22 # r"])
  next
    case (Cons c t)
    obtain n b' where n: "utf8_len s = Some n" and b': "quote_body (drop (n - 1) t) = Some b'"
        and b: "b = concat (map quote_char (take n s)) @ b'"
      using "1.prems" Cons by (auto simp: quote_body.simps[of "c # t"] split: option.splits)
    have IH: "jstring (b' @ CHR 0x22 # r) = Some (drop (n - 1) t, r)"
      by (rule "1.IH"[OF Cons n b'])
    have s: "take n s @ drop (n - 1) t = s"
      using utf8_len_take(1)[OF n] Cons by (cases n) simp_all
    from utf8_len_take(4)[OF n] show ?thesis
    proof
      assume one: "n = 1 \<and> byte (hd s) < 128"
      then have "take n s = [c]" "byte c < 128" using Cons by simp_all
      then show ?thesis using jstring_quote_char[of c "b' @ CHR 0x22 # r"] IH b s by simp
    next
      assume many: "1 < n \<and> (\<forall>x\<in>set (take n s). 128 \<le> byte x)"
      then have q: "concat (map quote_char (take n s)) = take n s" by (intro quote_high) simp
      obtain m where m: "n = Suc m" using many by (cases n) auto
      have c: "128 \<le> byte c" using many Cons m by simp
      have len: "length (take m t) = m" using utf8_len_take(2)[OF n] Cons m by simp
      have u: "utf8_len (c # take m t @ b' @ CHR 0x22 # r) = Some n"
        using utf8_len_take(3)[OF n, of "b' @ CHR 0x22 # r"] Cons m by simp
      have "c \<noteq> CHR 0x22" "c \<noteq> CHR 0x5C" "\<not> byte c < 32" using c by auto
      then show ?thesis
        using u IH s len unfolding b q by (simp add: Cons m jstring.simps[of "c # _"])
    qed
  qed
qed

subsection \<open>Numbers\<close>

text \<open>What may follow a value inside a document, or its end.\<close>

definition delim :: "string \<Rightarrow> bool" where
  "delim s \<longleftrightarrow> s = [] \<or> hd s \<in> {CHR '','', CHR '']'', CHR ''}''}"

lemma is_digit_digit_char: "d < 10 \<Longrightarrow> is_digit (digit_char d)"
  by (simp add: is_digit_def digit_char_def)

lemma nat_str_is_digit: "list_all is_digit (nat_str n)"
  using nat_str_digits is_digit_digit_char by (fastforce simp: list_all_iff)

lemma char_of_48: "char_of (48::nat) = CHR ''0''"
proof -
  have "of_char CHR ''0'' = (48::nat)" by simp
  then show ?thesis by (metis char_of_char)
qed

lemma nat_str_hd_zero: "n \<noteq> 0 \<Longrightarrow> hd (nat_str n) \<noteq> CHR ''0''"
proof (induction n rule: nat_str.induct)
  case (1 n)
  have z: "CHR ''0'' = digit_char 0" by (simp add: digit_char_def char_of_48)
  show ?case
  proof (cases "n < 10")
    case True
    then show ?thesis using "1.prems" by (simp add: nat_str.simps[of n] z)
  next
    case False
    then have "n div 10 \<noteq> 0" by auto
    with False show ?thesis using "1.IH" by (simp add: nat_str.simps[of n])
  qed
qed

lemma delim_not_digit: "delim r \<Longrightarrow> dropWhile is_digit r = r"
  by (cases r) (auto simp: delim_def is_digit_def)

lemma jint_part_nat_str:
  assumes "delim r"
  shows "jint_part (nat_str n @ r) = Some r"
proof (cases "n = 0")
  case True
  then show ?thesis by (simp add: jint_part_def nat_str.simps[of 0] digit_char_def char_of_48)
next
  case False
  obtain c t where ct: "nat_str n = c # t" by (cases "nat_str n") auto
  have "c \<noteq> CHR ''0''" using nat_str_hd_zero[OF False] ct by simp
  moreover have "is_digit c" "list_all is_digit t" using nat_str_is_digit[of n] ct by simp_all
  moreover have "dropWhile is_digit (t @ r) = r"
    using calculation(3) delim_not_digit[OF assms] by (induction t) auto
  ultimately show ?thesis by (simp add: jint_part_def digits1_def ct)
qed

lemma jnumber_int_str:
  assumes "delim r"
  shows "jnumber (int_str i @ r) = Some r"
proof -
  have d: "jfrac_part r = Some r" "jexp_part r = Some r"
    using assms by (auto simp: jfrac_part_def jexp_part_def delim_def split: list.splits)
  obtain c t where ct: "nat_str (nat i) = c # t" by (cases "nat_str (nat i)") auto
  have "c \<noteq> CHR ''-''" using hd_nat_str[of "nat i"] ct by simp
  then have "i \<ge> 0 \<Longrightarrow> jnumber (int_str i @ r) = Option.bind (jint_part (nat_str (nat i) @ r))
      (\<lambda>t. Option.bind (jfrac_part t) jexp_part)"
    by (simp add: jnumber_def int_str_def ct)
  moreover have "i < 0 \<Longrightarrow> jnumber (int_str i @ r) = Option.bind (jint_part (nat_str (nat (- i)) @ r))
      (\<lambda>t. Option.bind (jfrac_part t) jexp_part)"
    by (simp add: jnumber_def int_str_def)
  ultimately show ?thesis using d by (cases "i < 0") (simp_all add: jint_part_nat_str[OF assms])
qed

subsection \<open>Trees\<close>

text \<open>
  The trees the program prints: integers for numbers, distinct names, nesting in bounds.
\<close>

fun emittable :: "nat \<Rightarrow> json \<Rightarrow> bool" where
  "emittable d (JNum n) = (\<exists>i. n = int_str i)"
| "emittable d (JArr js) = (d < max_depth \<and> (\<forall>j\<in>set js. emittable (Suc d) j))"
| "emittable d (JObj fs) =
     (d < max_depth \<and> distinct (map fst fs) \<and> (\<forall>x\<in>set fs. emittable (Suc d) (snd x)))"
| "emittable d _ = True"

definition value_start :: "char \<Rightarrow> bool" where
  "value_start c \<longleftrightarrow> c \<notin> {CHR 0x20, CHR 0x09, CHR 0x0A, CHR 0x0D, CHR '','', CHR '']'', CHR ''}'', CHR '':''}"

lemma value_start_digit: "is_digit c \<Longrightarrow> value_start c"
  by (auto simp: value_start_def is_digit_def)

lemma int_str_start: "\<exists>c t. int_str i = c # t \<and> (is_digit c \<or> c = CHR ''-'')"
proof -
  obtain c t where "nat_str (nat i) = c # t" by (cases "nat_str (nat i)") auto
  then show ?thesis using nat_str_is_digit[of "nat i"] by (auto simp: int_str_def)
qed

lemma emit_start:
  assumes "emit j = Some b" and "emittable d j"
  shows "\<exists>c t. b = c # t \<and> value_start c"
proof (cases j)
  case (JNum n)
  then obtain i where "b = int_str i" using assms by auto
  then show ?thesis using int_str_start[of i] value_start_digit by (auto simp: value_start_def)
qed (use assms in \<open>auto simp: value_start_def quote_def split: list.splits if_splits\<close>)

lemma skip_ws_start: "value_start c \<Longrightarrow> skip_ws (c # t) = c # t"
  by (auto simp: value_start_def skip_ws_def)

lemma skip_ws_punct [simp]:
  "skip_ws (CHR '','' # t) = CHR '','' # t" "skip_ws (CHR '']'' # t) = CHR '']'' # t"
  "skip_ws (CHR ''}'' # t) = CHR ''}'' # t" "skip_ws (CHR '':'' # t) = CHR '':'' # t"
  "skip_ws (CHR 0x22 # t) = CHR 0x22 # t" "skip_ws (CHR ''{'' # t) = CHR ''{'' # t"
  "skip_ws (CHR ''['' # t) = CHR ''['' # t"
  by (simp_all add: skip_ws_def)

lemma jtree_number:
  assumes "delim r"
  shows "jtree (Suc f) d (int_str i @ r) = Some (JNum (int_str i), r)"
proof -
  obtain c t where ct: "int_str i = c # t" and c: "is_digit c \<or> c = CHR ''-''" using int_str_start by blast
  have "skip_ws (c # t @ r) = c # t @ r" using c by (auto simp: skip_ws_def is_digit_def)
  moreover have "c \<notin> {CHR 0x22, CHR ''{'', CHR ''['', CHR ''t'', CHR ''f'', CHR ''n''}"
    using c by (auto simp: is_digit_def)
  moreover have "jnumber (c # t @ r) = Some r" using jnumber_int_str[OF assms, of i] ct by simp
  ultimately show ?thesis by (simp add: ct upto_rest_def)
qed

lemma jtree_emit:
  "emit j = Some b \<Longrightarrow> emittable d j \<Longrightarrow> delim r \<Longrightarrow> 2 * length (b @ r) < f \<Longrightarrow>
     jtree f d (b @ r) = Some (j, r)"
  "emit_list js = Some b \<Longrightarrow> js \<noteq> [] \<Longrightarrow> \<forall>j\<in>set js. emittable d j \<Longrightarrow> 2 * length (b @ r) + 1 < f \<Longrightarrow>
     jtrees f d (b @ r) = Some (js, r)"
  "emit_fields fs = Some b \<Longrightarrow> fs \<noteq> [] \<Longrightarrow> \<forall>x\<in>set fs. emittable d (snd x) \<Longrightarrow>
     distinct (map fst fs) \<Longrightarrow> set names \<inter> fst ` set fs = {} \<Longrightarrow> 2 * length (b @ r) < f \<Longrightarrow>
     jfields f d names (b @ r) = Some (fs, r)"
proof (induction j and js and fs arbitrary: b d r f and b d r f and b d r f names
    rule: emit_emit_list_emit_fields.induct)
  case 1
  then show ?case by (cases f) (auto simp: skip_ws_start value_start_def literal_def)
next
  case (2 v)
  then show ?case by (cases f) (auto simp: skip_ws_start value_start_def literal_def)
next
  case (3 n)
  then show ?case by (cases f) (auto simp: jtree_number simp del: jtree.simps)
next
  case (4 s)
  then obtain q where "quote_body s = Some q" "b = CHR 0x22 # q @ [CHR 0x22]" by (auto simp: quote_def)
  then show ?case using "4.prems" by (cases f) (simp_all add: jstring_quote_body)
next
  case (5 js)
  obtain g where f: "f = Suc g" using "5.prems" by (cases f) auto
  show ?case
  proof (cases js)
    case Nil
    then show ?thesis using "5.prems" f by auto
  next
    case (Cons a as)
    then obtain b' where b': "emit_list js = Some b'" "b = CHR ''['' # b'" using "5.prems" by auto
    have IH: "jtrees g (Suc d) (b' @ r) = Some (js, r)"
      using "5.IH"[OF Cons] b' "5.prems" Cons f by auto
    obtain x where x: "emit a = Some x" "\<exists>y. b' = x @ y"
      using b'(1) Cons by (cases as) (auto simp: bind_eq_Some_conv)
    then obtain c t where "b' = c # t" "value_start c" using emit_start[OF x(1)] "5.prems" Cons by fastforce
    then have "skip_ws (b' @ r) = c # t @ r" "c \<noteq> CHR '']''"
      using skip_ws_start by (auto simp: value_start_def)
    then show ?thesis using IH "5.prems" f b' by simp
  qed
next
  case (6 fs)
  obtain g where f: "f = Suc g" using "6.prems" by (cases f) auto
  show ?case
  proof (cases fs)
    case Nil
    then show ?thesis using "6.prems" f by auto
  next
    case (Cons a as)
    then obtain b' where b': "emit_fields fs = Some b'" "b = CHR ''{'' # b'" using "6.prems" by auto
    have IH: "jfields g (Suc d) [] (b' @ r) = Some (fs, r)"
      using "6.IH"[OF Cons] b' "6.prems" Cons f by auto
    obtain y where y: "b' = CHR 0x22 # y"
      using b'(1) Cons by (cases a; cases as) (auto simp: bind_eq_Some_conv quote_def)
    then show ?thesis using IH "6.prems" f b' by simp
  qed
next
  case 7
  then show ?case by simp
next
  case (8 j js)
  obtain g where f: "f = Suc g" using "8.prems" by (cases f) auto
  obtain a where a: "emit j = Some a" using "8.prems" by (auto simp: bind_eq_Some_conv)
  show ?case
  proof (cases js)
    case Nil
    have b: "b = a @ '']''" using "8.prems" a Nil by simp
    have "jtree g d (a @ CHR '']'' # r) = Some (j, CHR '']'' # r)"
      using "8.prems" by (intro "8.IH"(1)[OF a]) (auto simp: delim_def b f)
    then show ?thesis by (simp add: f b Nil)
  next
    case (Cons j' js')
    obtain b' where b': "emit_list js = Some b'" "b = a @ CHR '','' # b'"
      using "8.prems" a Cons by auto
    have "jtree g d (a @ CHR '','' # b' @ r) = Some (j, CHR '','' # b' @ r)"
      using "8.prems" by (intro "8.IH"(1)[OF a]) (auto simp: delim_def b' f)
    moreover have "jtrees g d (b' @ r) = Some (js, r)"
      using "8.prems" Cons by (intro "8.IH"(2)[OF a Cons b'(1)]) (auto simp: b' f)
    ultimately show ?thesis by (simp add: f b')
  qed
next
  case 9
  then show ?case by simp
next
  case (10 k j fs)
  obtain g where f: "f = Suc g" using "10.prems" by (cases f) auto
  obtain q a where q: "quote_body k = Some q" and a: "emit j = Some a"
    using "10.prems" by (auto simp: bind_eq_Some_conv quote_def)
  have str: "jstring (q @ CHR 0x22 # t) = Some (k, t)" for t by (rule jstring_quote_body[OF q])
  have k: "k \<notin> set names" using "10.prems" by auto
  show ?case
  proof (cases fs)
    case Nil
    have b: "b = CHR 0x22 # q @ CHR 0x22 # CHR '':'' # a @ ''}''" using "10.prems" a q Nil by (simp add: quote_def)
    have "jtree g d (a @ CHR ''}'' # r) = Some (j, CHR ''}'' # r)"
      using "10.prems" by (intro "10.IH"(1)[OF _ a]) (auto simp: delim_def b f q quote_def)
    then show ?thesis by (simp add: f b Nil str k)
  next
    case (Cons x fs')
    obtain b' where b': "emit_fields fs = Some b'" "b = CHR 0x22 # q @ CHR 0x22 # CHR '':'' # a @ CHR '','' # b'"
      using "10.prems" a q Cons by (auto simp: quote_def)
    have "jtree g d (a @ CHR '','' # b' @ r) = Some (j, CHR '','' # b' @ r)"
      using "10.prems" by (intro "10.IH"(1)[OF _ a]) (auto simp: delim_def b' f q quote_def)
    moreover have "jfields g d (k # names) (b' @ r) = Some (fs, r)"
      using "10.prems" Cons by (intro "10.IH"(2)[OF _ a Cons b'(1)]) (auto simp: b' f q quote_def)
    ultimately show ?thesis by (simp add: f b' str k)
  qed
qed

definition Marshal :: "json \<Rightarrow> string option" where
  "Marshal j = emit j"

definition Unmarshal :: "string \<Rightarrow> json option" where
  "Unmarshal s = parse_json s"

lemma Unmarshal_Marshal:
  assumes "Marshal j = Some b" and "emittable 0 j"
  shows "Unmarshal b = Some j"
proof -
  have "jtree (2 * length b + 1) 0 (b @ []) = Some (j, [])"
    using assms by (intro jtree_emit(1)) (simp_all add: Marshal_def delim_def)
  then show ?thesis by (simp add: Unmarshal_def parse_json_def skip_ws_def)
qed

lemma Unmarshal_Nil [simp]: "Unmarshal [] = None"
  by (simp add: Unmarshal_def parse_json_def skip_ws_def)

section \<open>Fields of a struct\<close>

text \<open>
  Reading one field of a Go struct off an object: a name that is absent or null leaves the
  zero value, a value of another kind is an error. Names are compared exactly, unknown ones
  are ignored.
\<close>

fun string_field :: "json option \<Rightarrow> string option" where
  "string_field None = Some []"
| "string_field (Some JNull) = Some []"
| "string_field (Some (JStr s)) = Some s"
| "string_field (Some _) = None"

fun int64_field :: "json option \<Rightarrow> int option" where
  "int64_field None = Some 0"
| "int64_field (Some JNull) = Some 0"
| "int64_field (Some (JNum n)) = ParseInt 64 n"
| "int64_field (Some _) = None"

fun object_fields :: "json \<Rightarrow> (string \<times> json) list option" where
  "object_fields (JObj fs) = Some fs"
| "object_fields JNull = Some []"
| "object_fields _ = None"

text \<open>Decoding every element of an array into a slice.\<close>

fun decode_all :: "(json \<Rightarrow> 'a option) \<Rightarrow> json list \<Rightarrow> 'a list option" where
  "decode_all f [] = Some []"
| "decode_all f (j # js) = Option.bind (f j) (\<lambda>x. map_option (Cons x) (decode_all f js))"

fun array_field :: "(json \<Rightarrow> 'a option) \<Rightarrow> json option \<Rightarrow> 'a list option" where
  "array_field f None = Some []"
| "array_field f (Some JNull) = Some []"
| "array_field f (Some (JArr js)) = decode_all f js"
| "array_field f (Some _) = None"

lemma decode_all_map: "(\<And>x. x \<in> set xs \<Longrightarrow> f (g x) = Some x) \<Longrightarrow> decode_all f (map g xs) = Some xs"
  by (induction xs) auto

definition valid_utf8 :: "string \<Rightarrow> bool" where
  "valid_utf8 s \<longleftrightarrow> quote_body s \<noteq> None"

lemma quote_valid: "valid_utf8 s \<Longrightarrow> \<exists>q. quote s = Some q"
  by (auto simp: valid_utf8_def quote_def)

lemma utf8_len_ascii: "byte c < 128 \<Longrightarrow> utf8_len (c # s) = Some 1"
  by (simp add: utf8_len.simps(2) Let_def)

lemma valid_utf8_ascii: "\<forall>c\<in>set s. byte c < 128 \<Longrightarrow> valid_utf8 s"
proof (induction s)
  case Nil
  then show ?case by (simp add: valid_utf8_def quote_body.simps[of "[]"])
next
  case (Cons c s)
  then show ?case by (auto simp: valid_utf8_def quote_body.simps[of "c # s"] utf8_len_ascii)
qed

end
