(* ===== verification/Wire.thy ===== *)
theory Wire
  imports Client_View Json_Codec
begin

text \<open>
  The wire format of a snapshot: the JSON tags of \<open>client/wire.go\<close> and of \<open>server/api/api.go\<close>,
  which declare field-compatible types. The same document is the response of the watch and
  list endpoints, what the HTTP source decodes, and the content of the fallback file.
\<close>

definition config_json :: "CConfig \<Rightarrow> json" where
  "config_json c =
     JObj [(''key'', JStr (eKey c)), (''value'', JStr (eValue c)), (''format'', JStr (eFormat c))]"

definition snapshot_json :: "Snapshot \<Rightarrow> json" where
  "snapshot_json s =
     JObj [(''revision'', JNum (int_str (sRevision s))), (''configs'', JArr (map config_json (sConfigs s)))]"

definition decode_config :: "json \<Rightarrow> CConfig option" where
  "decode_config j = Option.bind (object_fields j) (\<lambda>fs.
     Option.bind (string_field (map_of fs ''key'')) (\<lambda>k.
     Option.bind (string_field (map_of fs ''value'')) (\<lambda>v.
     map_option (\<lambda>f. \<lparr>eKey = k, eValue = v, eFormat = f\<rparr>) (string_field (map_of fs ''format'')))))"

definition decode_snapshot :: "json \<Rightarrow> Snapshot option" where
  "decode_snapshot j = Option.bind (object_fields j) (\<lambda>fs.
     Option.bind (int64_field (map_of fs ''revision'')) (\<lambda>r.
     map_option (\<lambda>cs. \<lparr>sRevision = r, sConfigs = cs\<rparr>)
       (array_field decode_config (map_of fs ''configs''))))"

definition marshal_snapshot :: "Snapshot \<Rightarrow> string option" where
  "marshal_snapshot s = Marshal (snapshot_json s)"

definition unmarshal_snapshot :: "string \<Rightarrow> Snapshot option" where
  "unmarshal_snapshot data = Option.bind (Unmarshal data) decode_snapshot"

section \<open>Round trip\<close>

definition wire_config :: "CConfig \<Rightarrow> bool" where
  "wire_config c \<longleftrightarrow> valid_utf8 (eKey c) \<and> valid_utf8 (eValue c) \<and> valid_utf8 (eFormat c)"

definition wire_ok :: "Snapshot \<Rightarrow> bool" where
  "wire_ok s \<longleftrightarrow> min_int64 \<le> sRevision s \<and> sRevision s \<le> max_int64 \<and> (\<forall>c\<in>set (sConfigs s). wire_config c)"

lemma valid_utf8_literal: "valid_utf8 ''key''" "valid_utf8 ''value''" "valid_utf8 ''format''"
  "valid_utf8 ''revision''" "valid_utf8 ''configs''"
  by (rule valid_utf8_ascii; simp)+

lemma decode_config_json [simp]: "decode_config (config_json c) = Some c"
  by (simp add: decode_config_def config_json_def)

lemma decode_snapshot_json: "wire_ok s \<Longrightarrow> decode_snapshot (snapshot_json s) = Some s"
  by (simp add: decode_snapshot_def snapshot_json_def wire_ok_def decode_all_map)

lemma emit_list_some: "\<forall>j\<in>set js. emit j \<noteq> None \<Longrightarrow> emit_list js \<noteq> None"
proof (induction js)
  case Nil
  then show ?case by simp
next
  case (Cons j js)
  then show ?case by (cases js) auto
qed

lemma emit_config: "wire_config c \<Longrightarrow> emit (config_json c) \<noteq> None"
  using valid_utf8_literal
  by (auto simp: config_json_def wire_config_def dest!: quote_valid)

lemma marshal_some:
  assumes "wire_ok s"
  shows "\<exists>b. marshal_snapshot s = Some b"
proof -
  have "emit (JArr (map config_json (sConfigs s))) \<noteq> None"
    using emit_list_some[of "map config_json (sConfigs s)"] assms emit_config
    by (auto simp: wire_ok_def split: list.splits)
  then show ?thesis
    using quote_valid[OF valid_utf8_literal(4)] quote_valid[OF valid_utf8_literal(5)]
    by (auto simp: marshal_snapshot_def Marshal_def snapshot_json_def simp del: emit.simps(5))
qed

lemma emittable_snapshot: "emittable 0 (snapshot_json s)"
  by (auto simp: snapshot_json_def config_json_def max_depth_def)

lemma unmarshal_marshal:
  assumes "wire_ok s" and "marshal_snapshot s = Some b"
  shows "unmarshal_snapshot b = Some s"
  using assms Unmarshal_Marshal[of "snapshot_json s" b]
  by (simp add: unmarshal_snapshot_def marshal_snapshot_def decode_snapshot_json emittable_snapshot)

end
