(* ===== verification/Client_Core.thy ===== *)
theory Client_Core
  imports Wire
begin

text \<open>
  The client (\<open>client/client.go\<close>, \<open>client/fallback.go\<close>): options, the synchronous start of
  \<open>New\<close>, the fallback file, \<open>fetchOnce\<close>, \<open>apply\<close> and \<open>notify\<close>, \<open>Watch\<close>, \<open>Close\<close>, \<open>Stats\<close> and the
  refresh loop \<open>run\<close> with its backoff.

  The state of a client is the record \<open>client\<close>. \<open>applyMu\<close> makes \<open>apply\<close> and \<open>Watch\<close> exclude each
  other and \<open>mu\<close> guards the short updates, so each operation is one step on the record and an
  execution is a sequence of steps. What the program does not decide is the record \<open>clienv\<close>:
  the order in which a map is ranged over, which callbacks panic, and which file operations
  fail. The result of a poll, the clock and the random number of the jitter are arguments of
  the steps. Callbacks are numbered; calls are recorded in the \<open>trace\<close>.
\<close>

section \<open>Durations, requests and errors\<close>

text \<open>A \<open>time.Duration\<close> is a count of nanoseconds.\<close>

definition millisecond :: int where "millisecond = 1000000"
definition second :: int where "second = 1000 * millisecond"

definition DefaultPollInterval :: int where "DefaultPollInterval = second"
definition DefaultLongPollTimeout :: int where "DefaultLongPollTimeout = 30 * second"
definition DefaultStartupTimeout :: int where "DefaultStartupTimeout = 10 * second"
definition longPollGrace :: int where "longPollGrace = 5 * second"
definition minBackoff :: int where "minBackoff = 200 * millisecond"
definition maxBackoff :: int where "maxBackoff = 30 * second"

lemmas backoff_defs = minBackoff_def maxBackoff_def second_def millisecond_def

record PollRequest =
  Since :: int
  Prefixes :: "string list"
  Interval :: int
  Timeout :: int

text \<open>
  An error of a source: whether \<open>errors.Is(err, context.DeadlineExceeded)\<close> holds of it, and its
  text. \<open>ErrNoSnapshot\<close> is the client's own.
\<close>

datatype client_error = SourceErr (is_deadline: bool) (err_text: string) | ErrNoSnapshot

section \<open>Options\<close>

record options =
  prefixes_opt :: "string list"
  pollInterval :: int
  longPollTimeout :: int
  startupTimeout :: int
  fallbackPath :: string
  strict :: bool
  degradeOnStart :: bool
  onChange :: bool
  onError :: bool

definition default_options :: options where
  "default_options =
     \<lparr>prefixes_opt = [], pollInterval = DefaultPollInterval, longPollTimeout = DefaultLongPollTimeout,
      startupTimeout = DefaultStartupTimeout, fallbackPath = [], strict = False,
      degradeOnStart = False, onChange = False, onError = False\<rparr>"

datatype Option =
  WithPrefixes "string list"
| WithPollInterval int
| WithLongPollTimeout int
| WithStartupTimeout int
| WithFallbackFile string
| WithStrictDecode
| WithStartupDegrade
| WithOnError bool
| WithOnChange bool
| WithLogger

text \<open>A callback option carries whether the function is not nil.\<close>

fun apply_option :: "Option \<Rightarrow> options \<Rightarrow> options" where
  "apply_option (WithPrefixes ps) o' = o'\<lparr>prefixes_opt := prefixes_opt o' @ ps\<rparr>"
| "apply_option (WithPollInterval d) o' = o'\<lparr>pollInterval := d\<rparr>"
| "apply_option (WithLongPollTimeout d) o' = o'\<lparr>longPollTimeout := d\<rparr>"
| "apply_option (WithStartupTimeout d) o' = o'\<lparr>startupTimeout := d\<rparr>"
| "apply_option (WithFallbackFile path) o' = o'\<lparr>fallbackPath := path\<rparr>"
| "apply_option WithStrictDecode o' = o'\<lparr>strict := True\<rparr>"
| "apply_option WithStartupDegrade o' = o'\<lparr>degradeOnStart := True\<rparr>"
| "apply_option (WithOnError fn) o' = o'\<lparr>onError := fn\<rparr>"
| "apply_option (WithOnChange fn) o' = o'\<lparr>onChange := fn\<rparr>"
| "apply_option WithLogger o' = o'"

definition build_options :: "Option list \<Rightarrow> options" where
  "build_options opts =
     (let o' = fold apply_option opts default_options
      in o'\<lparr>prefixes_opt := normalizePrefixes (prefixes_opt o')\<rparr>)"

section \<open>State\<close>

text \<open>The files at \<open>path\<close> and \<open>path.tmp\<close>: contents and permission bits.\<close>

record disk =
  main_file :: "(string \<times> nat) option"
  tmp_file :: "(string \<times> nat) option"

datatype event =
  WatchCall nat Group
| ChangeCall string "string list"
| ErrorCall client_error
| PanicIgnored string string

record client =
  opt :: options
  snap :: view
  seeded :: bool
  lastSuccess :: int
  consecutiveFail :: int
  lastErr :: "string option"
  watchers :: "(string \<times> nat) list"
  closed :: bool
  canceled :: bool
  src_closes :: nat
  disk :: disk
  trace :: "event list"

datatype fs_op = MkdirAll | WriteFile | Rename | Remove | Chmod | ReadFile

record clienv =
  map_iter :: map_order
  panics :: "event \<Rightarrow> bool"
  fs_fault :: "fs_op \<Rightarrow> bool"
  partial_write :: "string \<Rightarrow> string"

definition fallbackFileMode :: nat where "fallbackFileMode = 384"

section \<open>The fallback file\<close>

text \<open>A failed \<open>WriteFile\<close> leaves some bytes in the temporary file.\<close>

datatype fb_step = FbMkdir | FbWriteTmp string | FbRename | FbChmod

fun fb_exec :: "clienv \<Rightarrow> fb_step \<Rightarrow> disk \<Rightarrow> bool \<times> disk" where
  "fb_exec e FbMkdir k = (\<not> fs_fault e MkdirAll, k)"
| "fb_exec e (FbWriteTmp data) k =
     (let mode = (case tmp_file k of None \<Rightarrow> fallbackFileMode | Some (_, m) \<Rightarrow> m) in
      if fs_fault e WriteFile then (False, k\<lparr>tmp_file := Some (partial_write e data, mode)\<rparr>)
      else (True, k\<lparr>tmp_file := Some (data, mode)\<rparr>))"
| "fb_exec e FbRename k =
     (if fs_fault e Rename \<or> tmp_file k = None
      then (False, if fs_fault e Remove then k else k\<lparr>tmp_file := None\<rparr>)
      else (True, k\<lparr>main_file := tmp_file k, tmp_file := None\<rparr>))"
| "fb_exec e FbChmod k =
     (if fs_fault e Chmod then (False, k)
      else (True, k\<lparr>main_file := map_option (\<lambda>(c, _). (c, fallbackFileMode)) (main_file k)\<rparr>))"

fun fb_run :: "clienv \<Rightarrow> fb_step list \<Rightarrow> disk \<Rightarrow> bool \<times> disk" where
  "fb_run e [] k = (True, k)"
| "fb_run e (s # ss) k = (case fb_exec e s k of (ok, k') \<Rightarrow> if ok then fb_run e ss k' else (False, k'))"

definition fb_steps :: "string \<Rightarrow> fb_step list" where
  "fb_steps data = [FbWriteTmp data, FbRename, FbChmod]"

text \<open>\<open>True\<close>: no error. The directory is created before the snapshot is marshalled.\<close>

definition writeFallback :: "clienv \<Rightarrow> view \<Rightarrow> disk \<Rightarrow> bool \<times> disk" where
  "writeFallback e v k =
     (case fb_exec e FbMkdir k of (ok, k') \<Rightarrow>
        if \<not> ok then (False, k')
        else (case marshal_snapshot (toWire v) of
                None \<Rightarrow> (False, k')
              | Some data \<Rightarrow> fb_run e (fb_steps data) k'))"

definition readFallback :: "clienv \<Rightarrow> disk \<Rightarrow> view option" where
  "readFallback e k =
     (if fs_fault e ReadFile then None
      else (case main_file k of None \<Rightarrow> None
            | Some (data, _) \<Rightarrow> map_option newView (unmarshal_snapshot data)))"

section \<open>Callbacks\<close>

text \<open>\<open>safely\<close>: the call is made; a panic of the callback is logged and goes no further.\<close>

definition safely :: "clienv \<Rightarrow> string \<Rightarrow> string \<Rightarrow> event \<Rightarrow> client \<Rightarrow> client" where
  "safely e kind pfx ev c =
     c\<lparr>trace := trace c @ ev # (if panics e ev then [PanicIgnored kind pfx] else [])\<rparr>"

definition client_group :: "string \<Rightarrow> client \<Rightarrow> Group" where
  "client_group pfx c = \<lparr>gPrefix = pfx, gSnap = snap c, gStrict = strict (opt c)\<rparr>"

definition notifyPrefixes :: "client \<Rightarrow> string list" where
  "notifyPrefixes c = (if prefixes_opt (opt c) = [] then [[]] else prefixes_opt (opt c))"

fun notify_watchers :: "clienv \<Rightarrow> view \<Rightarrow> string list \<Rightarrow> (string \<times> nat) list \<Rightarrow> client \<Rightarrow> client" where
  "notify_watchers e v changed [] c = c"
| "notify_watchers e v changed ((pfx, fn) # ws) c =
     (if filterPrefix changed pfx = [] then notify_watchers e v changed ws c
      else notify_watchers e v changed ws
        (safely e ''Watch'' pfx (WatchCall fn \<lparr>gPrefix = pfx, gSnap = v, gStrict = strict (opt c)\<rparr>) c))"

fun notify_changes :: "clienv \<Rightarrow> string list \<Rightarrow> string list \<Rightarrow> client \<Rightarrow> client" where
  "notify_changes e changed [] c = c"
| "notify_changes e changed (pfx # ps) c =
     (if filterPrefix changed pfx = [] then notify_changes e changed ps c
      else notify_changes e changed ps
        (safely e ''OnChange'' pfx (ChangeCall pfx (filterPrefix changed pfx)) c))"

definition notify :: "clienv \<Rightarrow> view \<Rightarrow> string list \<Rightarrow> client \<Rightarrow> client" where
  "notify e v changed c =
     (let c' = notify_watchers e v changed (watchers c) c
      in if \<not> onChange (opt c') then c' else notify_changes e changed (notifyPrefixes c') c')"

section \<open>Operations\<close>

definition apply_snapshot :: "clienv \<Rightarrow> Snapshot \<Rightarrow> bool \<Rightarrow> client \<Rightarrow> client" where
  "apply_snapshot e s notif c =
     (let nxt = newView s;
          changed = diff (map_iter e) (snap c) nxt;
          c1 = c\<lparr>snap := nxt\<rparr>;
          c2 = (if fallbackPath (opt c) \<noteq> [] \<and> (changed \<noteq> [] \<or> \<not> seeded c)
                then (case writeFallback e nxt (disk c) of (ok, k) \<Rightarrow>
                        c1\<lparr>disk := k, seeded := seeded c \<or> ok\<rparr>)
                else c1)
      in if changed = [] then c2 else if notif then notify e nxt changed c2 else c2)"

definition poll_request :: "client \<Rightarrow> PollRequest" where
  "poll_request c =
     \<lparr>Since = vRevision (snap c), Prefixes = prefixes_opt (opt c),
      Interval = pollInterval (opt c), Timeout = longPollTimeout (opt c)\<rparr>"

text \<open>A poll returns an error, \<open>(nil, nil)\<close> for unchanged, or a snapshot.\<close>

type_synonym poll_result = "client_error + Snapshot option"

definition fetchOnce :: "clienv \<Rightarrow> (PollRequest \<Rightarrow> poll_result) \<Rightarrow> bool \<Rightarrow> client \<Rightarrow> client_error option \<times> client" where
  "fetchOnce e poll notif c =
     (case poll (poll_request c) of
        Inl err \<Rightarrow> (Some err, c)
      | Inr None \<Rightarrow> (None, c)
      | Inr (Some s) \<Rightarrow> (None, apply_snapshot e s notif c))"

definition hasSnapshot :: "client \<Rightarrow> bool" where
  "hasSnapshot c \<longleftrightarrow> 0 \<le> vRevision (snap c)"

definition markSuccess :: "int \<Rightarrow> client \<Rightarrow> client" where
  "markSuccess now c = c\<lparr>lastSuccess := now, consecutiveFail := 0, lastErr := None\<rparr>"

fun error_string :: "client_error \<Rightarrow> string" where
  "error_string (SourceErr dl txt) = txt"
| "error_string ErrNoSnapshot = ''lite: no config snapshot available''"

definition markFailure :: "clienv \<Rightarrow> client_error \<Rightarrow> client \<Rightarrow> client" where
  "markFailure e err c =
     (let c' = c\<lparr>consecutiveFail := int64 (consecutiveFail c + 1), lastErr := Some (error_string err)\<rparr>
      in if onError (opt c') then safely e ''OnError'' [] (ErrorCall err) c' else c')"

definition loadFallback :: "clienv \<Rightarrow> client \<Rightarrow> bool \<times> client" where
  "loadFallback e c =
     (if fallbackPath (opt c) = [] then (False, c)
      else (case readFallback e (disk c) of None \<Rightarrow> (False, c) | Some v \<Rightarrow> (True, c\<lparr>snap := v\<rparr>)))"

definition fresh_client :: "options \<Rightarrow> disk \<Rightarrow> client" where
  "fresh_client o' k =
     \<lparr>opt = o', snap = emptyView, seeded = False, lastSuccess = 0, consecutiveFail = 0, lastErr = None,
      watchers = [], closed = False, canceled = False, src_closes = 0, disk = k, trace = []\<rparr>"

text \<open>
  \<open>New\<close>, up to the start of the refresh goroutine. A failure closes the source, which the
  returned state shows.
\<close>

definition New ::
    "clienv \<Rightarrow> (PollRequest \<Rightarrow> poll_result) \<Rightarrow> int \<Rightarrow> Option list \<Rightarrow> disk \<Rightarrow> client_error option \<times> client" where
  "New e poll now opts k =
     (case fetchOnce e poll False (fresh_client (build_options opts) k) of (err, c1) \<Rightarrow>
      let c2 = (if err = None \<and> hasSnapshot c1 then markSuccess now c1 else c1)
      in if err \<noteq> None \<or> \<not> hasSnapshot c2 then
           (let cause = (case err of Some x \<Rightarrow> x | None \<Rightarrow> ErrNoSnapshot) in
            case loadFallback e c2 of (loaded, c3) \<Rightarrow>
              if loaded then (None, c3)
              else if degradeOnStart (opt c3) then (None, c3)
              else (Some cause, c3\<lparr>src_closes := src_closes c3 + 1\<rparr>))
         else (None, c2))"

definition Watch :: "clienv \<Rightarrow> string \<Rightarrow> nat \<Rightarrow> client \<Rightarrow> client" where
  "Watch e pfx fn c =
     (let c' = c\<lparr>watchers := watchers c @ [(pfx, fn)]\<rparr>
      in safely e ''Watch'' pfx (WatchCall fn (client_group pfx c')) c')"

definition Close :: "client \<Rightarrow> client" where
  "Close c =
     (if closed c then c
      else c\<lparr>closed := True, canceled := True, src_closes := src_closes c + 1\<rparr>)"

record Stats =
  stRevision :: int
  stLastSuccess :: int
  stConsecutiveFail :: int
  stLastErr :: string

text \<open>The zero time stands for never.\<close>

definition client_stats :: "client \<Rightarrow> Stats" where
  "client_stats c =
     \<lparr>stRevision = vRevision (snap c), stLastSuccess = lastSuccess c,
      stConsecutiveFail = consecutiveFail c,
      stLastErr = (case lastErr c of None \<Rightarrow> [] | Some t \<Rightarrow> t)\<rparr>"

section \<open>The refresh loop\<close>

text \<open>\<open>randN\<close> is \<open>rand.N\<close>, whose result lies in \<open>[0, n)\<close>.\<close>

definition jitter :: "(int \<Rightarrow> int) \<Rightarrow> int \<Rightarrow> int" where
  "jitter randN d =
     (let spread = (if 0 \<le> d then d div 2 else - ((- d) div 2))
      in if spread \<le> 0 then d else d - spread div 2 + randN spread)"

text \<open>
  What one iteration meets: whether the client's context is done when it starts, when the poll
  has returned and while it waits; the poll's answer, and whether the poll's own deadline had
  expired by then.
\<close>

record iteration =
  done_before :: bool
  answer :: "PollRequest \<Rightarrow> poll_result"
  own_deadline :: bool
  done_after :: bool
  done_waiting :: bool
  now :: int
  randN :: "int \<Rightarrow> int"

datatype loop = Running int | Stopped

text \<open>The second result is the delay before the next iteration, if there is one.\<close>

definition run_iteration :: "clienv \<Rightarrow> iteration \<Rightarrow> int \<Rightarrow> client \<Rightarrow> loop \<times> int option \<times> client" where
  "run_iteration e it backoff c =
     (if done_before it then (Stopped, None, c)
      else (case fetchOnce e (answer it) True c of (err, c1) \<Rightarrow>
        if done_after it then (Stopped, None, c1)
        else (case err of
            None \<Rightarrow> (Running minBackoff, None, markSuccess (now it) c1)
          | Some x \<Rightarrow>
              if own_deadline it \<and> (case x of SourceErr dl _ \<Rightarrow> dl | ErrNoSnapshot \<Rightarrow> False)
              then (Running minBackoff, None, markSuccess (now it) c1)
              else (let c2 = markFailure e x c1; wait = jitter (randN it) backoff
                    in if done_waiting it then (Stopped, Some wait, c2)
                       else (Running (min (backoff * 2) maxBackoff), Some wait, c2)))))"

text \<open>The loop over the iterations it goes through, with the delays in order.\<close>

fun run_loop :: "clienv \<Rightarrow> iteration list \<Rightarrow> int \<Rightarrow> client \<Rightarrow> loop \<times> int list \<times> client" where
  "run_loop e [] backoff c = (Running backoff, [], c)"
| "run_loop e (it # its) backoff c =
     (case run_iteration e it backoff c of (l, w, c') \<Rightarrow>
        (let ws = (case w of None \<Rightarrow> [] | Some d \<Rightarrow> [d]) in
         case l of Stopped \<Rightarrow> (Stopped, ws, c')
         | Running b \<Rightarrow> (case run_loop e its b c' of (l', ws', c'') \<Rightarrow> (l', ws @ ws', c''))))"

end
