(* ===== verification/DB_Source.thy ===== *)
theory DB_Source
  imports Contracts Store_Ops Client_Core
begin

text \<open>
  \<open>client/dbsource/dbsource.go\<close>: the source that reads the database directly. A poll is a loop of
  rounds; other writers move the database between any two of its queries. Each round is given
  as the database and the environment its queries meet and whether the wait ended because the
  context was done.
\<close>

section \<open>The source\<close>

definition defaultInterval :: int where "defaultInterval = second"

definition poll_interval :: "PollRequest \<Rightarrow> int" where
  "poll_interval q = (if Interval q \<le> 0 then defaultInterval else Interval q)"

record round =
  rev_env :: dbenv
  rev_db :: db
  list_env :: dbenv
  list_db :: db
  ctx_done :: bool

definition to_entry :: "Config \<Rightarrow> CConfig" where
  "to_entry c = \<lparr>eKey = cKey c, eValue = cValue c, eFormat = cFormat c\<rparr>"

definition source_fetch :: "Dialect \<Rightarrow> dbenv \<Rightarrow> db \<Rightarrow> int \<Rightarrow> string list \<Rightarrow> store_error + Snapshot" where
  "source_fetch dia e d rv ps =
     (case fst (ListPrefixes e dia ps d) of
        Inl err \<Rightarrow> Inl err
      | Inr list \<Rightarrow> Inr \<lparr>sRevision = rv, sConfigs = map to_entry list\<rparr>)"

text \<open>\<open>None\<close>: the rounds given do not suffice, the poll is still waiting.\<close>

fun source_poll :: "Dialect \<Rightarrow> PollRequest \<Rightarrow> round list \<Rightarrow> (store_error + Snapshot option) option" where
  "source_poll dia q [] = None"
| "source_poll dia q (rd # rds) =
     (case fst (ReadRevision (rev_env rd) (rev_db rd)) of
        Inl err \<Rightarrow> Some (Inl err)
      | Inr rv \<Rightarrow>
          if rv \<noteq> Since q then
            Some (map_sum id Some (source_fetch dia (list_env rd) (list_db rd) rv (Prefixes q)))
          else if ctx_done rd then Some (Inr None)
          else source_poll dia q rds)"

section \<open>The store as a contract\<close>

inductive later :: "db \<Rightarrow> db \<Rightarrow> bool" where
  same: "later d d"
| wrote: "later d d' \<Longrightarrow> later d (snd (perform e dia q d'))"

definition db_revision :: "db \<Rightarrow> int" where
  "db_revision d = (case meta (tabs d) of None \<Rightarrow> 0 | Some r \<Rightarrow> r)"

text \<open>The rows under the prefixes, as the statement returns them under a collation.\<close>

definition db_rows :: "(string \<Rightarrow> string) \<Rightarrow> db \<Rightarrow> string list \<Rightarrow> CConfig list" where
  "db_rows coll d ps =
     map to_entry (sort_key (\<lambda>c. coll (cKey c)) (filter (\<lambda>c. under ps (cKey c)) (config (tabs d))))"

lemma perform_revision:
  "tabs (snd (perform e dia q d)) = tabs d \<or> db_revision (snd (perform e dia q d)) = db_revision d + 1"
  unfolding perform_db_write
  by (rule db_write_cases[of "req_resolve e q" e dia "req_key q" "req_op q" "req_change q" d])
     (auto simp: db_revision_def)

lemma later_effect:
  "later d d' \<Longrightarrow> db_revision d \<le> db_revision d' \<and> (db_revision d = db_revision d' \<longrightarrow> tabs d = tabs d')"
proof (induction rule: later.induct)
  case (same d)
  then show ?case by simp
next
  case (wrote d d' e dia q)
  then show ?case using perform_revision[of e dia q d'] by (auto simp: db_revision_def)
qed

lemma db_later_trans: "later d d' \<Longrightarrow> later d' d'' \<Longrightarrow> later d d''"
  by (rotate_tac, induction rule: later.induct) (auto intro: later.intros)

interpretation db: config_store db_revision "db_rows coll" later
proof
  show "later s s" for s by (rule later.same)
  show "later s t \<Longrightarrow> later t u \<Longrightarrow> later s u" for s t u by (rule db_later_trans)
  show "later s t \<Longrightarrow> db_revision s \<le> db_revision t" for s t using later_effect by blast
  show "later s t \<Longrightarrow> db_revision s = db_revision t \<Longrightarrow> db_rows coll s p = db_rows coll t p" for s t p
    using later_effect[of s t] by (simp add: db_rows_def)
qed

lemma ListPrefixes_rows:
  "fst (ListPrefixes e dia ps d) = Inr list \<Longrightarrow> map to_entry list = db_rows (collate e) d ps"
  by (auto simp: ListPrefixes_def query_def run_def select_configs_under db_rows_def split: option.splits)

lemma ReadRevision_db: "fst (ReadRevision e d) = Inr rv \<Longrightarrow> rv = db_revision d"
  by (auto simp: ReadRevision_def query_def run_def andThen_def db_revision_def split: option.splits)

lemma source_fetch_rows: "source_fetch dia e d rv ps = Inr s \<Longrightarrow>
    sRevision s = rv \<and> sConfigs s = db_rows (collate e) d ps"
  using ListPrefixes_rows by (auto simp: source_fetch_def split: sum.splits)

section \<open>The source keeps its contract\<close>

text \<open>The rounds a poll goes through between two moments: each query sees a later database.\<close>

inductive rounds_between :: "(string \<Rightarrow> string) \<Rightarrow> db \<Rightarrow> db \<Rightarrow> round list \<Rightarrow> bool" for coll where
  none: "later d d' \<Longrightarrow> rounds_between coll d d' []"
| more: "later d (rev_db rd) \<Longrightarrow> later (rev_db rd) (list_db rd) \<Longrightarrow> collate (list_env rd) = coll \<Longrightarrow>
    rounds_between coll (list_db rd) d' rds \<Longrightarrow> rounds_between coll d d' (rd # rds)"

inductive_cases rounds_ConsE: "rounds_between coll d d' (rd # rds)"

definition db_polls ::
    "(string \<Rightarrow> string) \<Rightarrow> Dialect \<Rightarrow> db \<Rightarrow> db \<Rightarrow> int \<Rightarrow> string list \<Rightarrow> (int \<times> CConfig list) option \<Rightarrow> bool" where
  "db_polls coll dia d d' since ps out \<longleftrightarrow>
     (\<exists>rds q. rounds_between coll d d' rds \<and> Since q = since \<and> Prefixes q = ps \<and>
        source_poll dia q rds = Some (Inr (map_option (\<lambda>(l, cs). \<lparr>sRevision = l, sConfigs = cs\<rparr>) out)))"

lemma rounds_later: "rounds_between coll d d' rds \<Longrightarrow> later d d'"
  by (induction rule: rounds_between.induct) (auto intro: db_later_trans)

lemma source_poll_snapshot:
  "rounds_between coll d d' rds \<Longrightarrow> source_poll dia q rds = Some (Inr (Some s)) \<Longrightarrow>
   (\<exists>m m'. later d m \<and> later m m' \<and> later m' d' \<and> sRevision s = db_revision m \<and> sRevision s \<noteq> Since q \<and>
      sConfigs s = db_rows coll m' (Prefixes q))"
proof (induction rule: rounds_between.induct)
  case (none d d')
  then show ?case by simp
next
  case (more d rd d' rds)
  obtain rv where rv: "fst (ReadRevision (rev_env rd) (rev_db rd)) = Inr rv"
    using more.prems by (auto split: sum.splits)
  have l: "later (list_db rd) d'" by (rule rounds_later[OF more.hyps(4)])
  show ?case
  proof (cases "rv = Since q")
    case False
    then have "source_fetch dia (list_env rd) (list_db rd) rv (Prefixes q) = Inr s"
      using more.prems rv by (cases "source_fetch dia (list_env rd) (list_db rd) rv (Prefixes q)") auto
    from source_fetch_rows[OF this] show ?thesis
      using more.hyps(1,2,3) l ReadRevision_db[OF rv] False
      by (intro exI[of _ "rev_db rd"] exI[of _ "list_db rd"]) auto
  next
    case True
    then have "source_poll dia q rds = Some (Inr (Some s))"
      using more.prems rv by (auto split: if_splits)
    from more.IH[OF this] obtain m m' where "later (list_db rd) m" "later m m'" "later m' d'"
        "sRevision s = db_revision m" "sRevision s \<noteq> Since q" "sConfigs s = db_rows coll m' (Prefixes q)" by blast
    moreover have "later d (list_db rd)" using more.hyps(1,2) db_later_trans by blast
    ultimately show ?thesis using db_later_trans by blast
  qed
qed

lemma source_poll_unchanged:
  "rounds_between coll d d' rds \<Longrightarrow> source_poll dia q rds = Some (Inr None) \<Longrightarrow>
   \<exists>m. later d m \<and> later m d' \<and> Since q = db_revision m"
proof (induction rule: rounds_between.induct)
  case (none d d')
  then show ?case by simp
next
  case (more d rd d' rds)
  obtain rv where rv: "fst (ReadRevision (rev_env rd) (rev_db rd)) = Inr rv"
    using more.prems by (auto split: sum.splits)
  have eq: "rv = Since q"
    using more.prems rv by (cases "source_fetch dia (list_env rd) (list_db rd) rv (Prefixes q)")
      (auto split: if_splits)
  have "later (list_db rd) d'" by (rule rounds_later[OF more.hyps(4)])
  then show ?case
    using more.hyps(1,2) eq ReadRevision_db[OF rv] db_later_trans by blast
qed

text \<open>The source asks the database itself, so with nobody writing it is always settled.\<close>

interpretation dbsource: poll_source db_revision "db_rows coll" later "db_polls coll dia" "\<lambda>_. True"
proof
  fix s t since p out
  assume "db_polls coll dia s t since p out"
  then show "later s t" using rounds_later by (auto simp: db_polls_def)
next
  fix s t since p l d
  assume "db_polls coll dia s t since p (Some (l, d))"
  then obtain m m' where "later m m'" "later m' t" "l = db_revision m" "d = db_rows coll m' p"
    by (auto simp: db_polls_def dest!: source_poll_snapshot)
  then show "db.low_label coll t p l d" using db.revision_then_rows by blast
next
  fix s since p l d
  assume "db_polls coll dia s s since p (Some (l, d))"
  then obtain m m' where "later s m" "later m m'" "later m' s" "l = db_revision m"
    by (auto simp: db_polls_def dest!: source_poll_snapshot)
  then show "l = db_revision s" using later_effect db_later_trans by (metis order_antisym)
next
  fix s since p
  assume "db_polls coll dia s s since p None"
  then obtain m where "later s m" "later m s" "since = db_revision m"
    by (auto simp: db_polls_def dest!: source_poll_unchanged)
  then show "since = db_revision s" using later_effect by (metis order_antisym)
qed

end
