(* ===== verification/Server_Watcher.thy ===== *)
theory Server_Watcher
  imports GoLib
begin

text \<open>
  \<open>server/revision_watcher.go\<close>: the broadcast of watermark changes to the long polls. The
  mutex makes every method one step, except that a waiter gives it up between looking at the
  watermark and blocking. Channels are numbers; closing a channel twice, which panics in Go,
  sets \<open>panicked\<close>. The step relation \<open>wstep\<close> interleaves any number of waiters with the poller.
\<close>

section \<open>The watcher\<close>

record watcher =
  wRev :: int
  wChanged :: nat
  wReady :: bool
  wDbErr :: string
  wClosed :: bool
  wStop :: nat
  closed_chans :: "nat list"
  next_chan :: nat
  panicked :: bool

definition newRevisionWatcher :: watcher where
  "newRevisionWatcher =
     \<lparr>wRev = -1, wChanged = 0, wReady = False, wDbErr = [], wClosed = False, wStop = 1,
      closed_chans = [], next_chan = 2, panicked = False\<rparr>"

definition close_chan :: "nat \<Rightarrow> watcher \<Rightarrow> watcher" where
  "close_chan ch w =
     (if ch \<in> set (closed_chans w) then w\<lparr>panicked := True\<rparr>
      else w\<lparr>closed_chans := ch # closed_chans w\<rparr>)"

definition watcher_set :: "int \<Rightarrow> watcher \<Rightarrow> watcher" where
  "watcher_set rv w =
     (let w1 = w\<lparr>wReady := True, wDbErr := []\<rparr>
      in if wRev w1 = rv then w1
         else (let w2 = close_chan (wChanged w1) (w1\<lparr>wRev := rv\<rparr>)
               in w2\<lparr>wChanged := next_chan w2, next_chan := next_chan w2 + 1\<rparr>))"

definition setErr :: "string \<Rightarrow> watcher \<Rightarrow> watcher" where
  "setErr err w = w\<lparr>wDbErr := err\<rparr>"

definition health :: "watcher \<Rightarrow> bool \<times> int \<times> string" where
  "health w = (wReady w, wRev w, wDbErr w)"

definition watcher_close :: "watcher \<Rightarrow> watcher" where
  "watcher_close w = (if wClosed w then w else close_chan (wStop w) (w\<lparr>wClosed := True\<rparr>))"

definition current :: "watcher \<Rightarrow> int" where
  "current w = wRev w"

text \<open>\<open>Wait\<close> up to the select: an answer at once, or the channel to wait on.\<close>

definition wait_begin :: "int \<Rightarrow> watcher \<Rightarrow> (int \<times> bool) + nat" where
  "wait_begin since w = (if since < 0 \<or> wRev w \<noteq> since then Inl (wRev w, True) else Inr (wChanged w))"

datatype wake = ByChanged | ByStop | ByCtx

text \<open>Which case of the select can be taken; the context's end is up to the environment.\<close>

fun wake_ready :: "nat \<Rightarrow> wake \<Rightarrow> bool \<Rightarrow> watcher \<Rightarrow> bool" where
  "wake_ready ch ByChanged ctx w = (ch \<in> set (closed_chans w))"
| "wake_ready ch ByStop ctx w = (wStop w \<in> set (closed_chans w))"
| "wake_ready ch ByCtx ctx w = ctx"

fun wait_end :: "wake \<Rightarrow> watcher \<Rightarrow> int \<times> bool" where
  "wait_end ByChanged w = (current w, True)"
| "wait_end ByStop w = (current w, False)"
| "wait_end ByCtx w = (current w, False)"

section \<open>The poller\<close>

text \<open>One \<open>poll()\<close>: the query's result, and whether the poller's context has ended by then.\<close>

definition poll_once :: "bool \<Rightarrow> string + int \<Rightarrow> watcher \<Rightarrow> watcher" where
  "poll_once ctx_err r w =
     (case r of Inl err \<Rightarrow> if ctx_err then w else setErr err w | Inr rv \<Rightarrow> watcher_set rv w)"

text \<open>\<open>run\<close>: the polls it makes until its context ends, then the deferred \<open>Close\<close>.\<close>

fun watcher_run :: "(bool \<times> (string + int)) list \<Rightarrow> watcher \<Rightarrow> watcher" where
  "watcher_run [] w = watcher_close w"
| "watcher_run ((ctx_err, r) # ps) w = watcher_run ps (poll_once ctx_err r w)"

section \<open>Waiters and poller together\<close>

datatype waiter = Blocked int nat | Returned int int bool

record wsys =
  watch :: watcher
  waiters :: "(nat \<times> waiter) list"

inductive wstep :: "wsys \<Rightarrow> wsys \<Rightarrow> bool" where
  enter_now: "i \<notin> fst ` set (waiters s) \<Longrightarrow> wait_begin since (watch s) = Inl (rv, ch) \<Longrightarrow>
    wstep s (s\<lparr>waiters := (i, Returned since rv ch) # waiters s\<rparr>)"
| enter_block: "i \<notin> fst ` set (waiters s) \<Longrightarrow> wait_begin since (watch s) = Inr c \<Longrightarrow>
    wstep s (s\<lparr>waiters := (i, Blocked since c) # waiters s\<rparr>)"
| wakeup: "waiters s = before @ (i, Blocked since c) # after \<Longrightarrow> wake_ready c why ctx (watch s) \<Longrightarrow>
    wait_end why (watch s) = (rv, ch) \<Longrightarrow>
    wstep s (s\<lparr>waiters := before @ (i, Returned since rv ch) # after\<rparr>)"
| set_step: "wstep s (s\<lparr>watch := watcher_set rv (watch s)\<rparr>)"
| err_step: "wstep s (s\<lparr>watch := setErr err (watch s)\<rparr>)"
| close_step: "wstep s (s\<lparr>watch := watcher_close (watch s)\<rparr>)"

inductive wreach :: "wsys \<Rightarrow> bool" where
  init: "wreach \<lparr>watch = newRevisionWatcher, waiters = []\<rparr>"
| step: "wreach s \<Longrightarrow> wstep s s' \<Longrightarrow> wreach s'"

section \<open>Invariant\<close>

definition watcher_ok :: "watcher \<Rightarrow> bool" where
  "watcher_ok w \<longleftrightarrow>
     \<not> panicked w \<and> wChanged w \<notin> set (closed_chans w) \<and> wChanged w \<noteq> wStop w \<and>
     (wStop w \<in> set (closed_chans w) \<longleftrightarrow> wClosed w) \<and> wChanged w < next_chan w \<and> wStop w < next_chan w \<and>
     (\<forall>c\<in>set (closed_chans w). c < next_chan w)"

definition waiter_ok :: "watcher \<Rightarrow> waiter \<Rightarrow> bool" where
  "waiter_ok w x = (case x of
       Blocked since c \<Rightarrow> 0 \<le> since \<and> c \<noteq> wStop w \<and>
         (c \<in> set (closed_chans w) \<or> c = wChanged w \<and> wRev w = since)
     | Returned _ _ _ \<Rightarrow> True)"

definition wsys_ok :: "wsys \<Rightarrow> bool" where
  "wsys_ok s \<longleftrightarrow> watcher_ok (watch s) \<and> (\<forall>(i, x)\<in>set (waiters s). waiter_ok (watch s) x)"

lemma watcher_set_simps [simp]:
  "wRev (watcher_set rv w) = rv" "wReady (watcher_set rv w) = True" "wDbErr (watcher_set rv w) = []"
  "wStop (watcher_set rv w) = wStop w" "wClosed (watcher_set rv w) = wClosed w"
  by (auto simp: watcher_set_def close_chan_def Let_def)

lemma setErr_simps [simp]: "wRev (setErr err w) = wRev w" "wReady (setErr err w) = wReady w"
  by (simp_all add: setErr_def)

lemma watcher_close_simps [simp]:
  "wRev (watcher_close w) = wRev w" "wReady (watcher_close w) = wReady w" "wClosed (watcher_close w)"
  by (auto simp: watcher_close_def close_chan_def)

lemma set_ok: "watcher_ok w \<Longrightarrow> watcher_ok (watcher_set rv w)"
  by (auto simp: watcher_ok_def watcher_set_def close_chan_def Let_def)

lemma setErr_ok: "watcher_ok w \<Longrightarrow> watcher_ok (setErr err w)"
  by (auto simp: watcher_ok_def setErr_def)

lemma close_ok: "watcher_ok w \<Longrightarrow> watcher_ok (watcher_close w)"
  by (auto simp: watcher_ok_def watcher_close_def close_chan_def)

lemma waiter_set_ok: "watcher_ok w \<Longrightarrow> waiter_ok w x \<Longrightarrow> waiter_ok (watcher_set rv w) x"
  by (auto simp: watcher_ok_def waiter_ok_def watcher_set_def close_chan_def Let_def split: waiter.splits)

lemma waiter_close_ok: "waiter_ok w x \<Longrightarrow> waiter_ok (watcher_close w) x"
  by (auto simp: waiter_ok_def watcher_close_def close_chan_def split: waiter.splits)

lemma wstep_ok: "wstep s s' \<Longrightarrow> wsys_ok s \<Longrightarrow> wsys_ok s'"
proof (induction rule: wstep.induct)
  case (enter_now i s since rv ch)
  then show ?case by (auto simp: wsys_ok_def waiter_ok_def)
next
  case (enter_block i s since c)
  then show ?case
    by (auto simp: wsys_ok_def waiter_ok_def wait_begin_def watcher_ok_def split: if_splits)
next
  case (wakeup s before i since c after why ctx rv ch)
  then show ?case by (auto simp: wsys_ok_def waiter_ok_def[of _ "Returned _ _ _"])
next
  case (set_step s rv)
  then show ?case using set_ok waiter_set_ok by (fastforce simp: wsys_ok_def)
next
  case (err_step s err)
  then show ?case using setErr_ok by (fastforce simp: wsys_ok_def waiter_ok_def setErr_def split: waiter.splits)
next
  case (close_step s)
  then show ?case using close_ok waiter_close_ok by (fastforce simp: wsys_ok_def)
qed

lemma wreach_ok: "wreach s \<Longrightarrow> wsys_ok s"
proof (induction rule: wreach.induct)
  case init
  then show ?case by (simp add: wsys_ok_def watcher_ok_def newRevisionWatcher_def)
next
  case (step s s')
  then show ?case using wstep_ok by blast
qed

section \<open>Properties\<close>

text \<open>
  C17. No wake-up is lost. In every interleaving of long polls with the poller and the shutdown,
  no channel is closed twice, and a long poll that is still blocked although the watermark
  differs from its baseline, or although the watcher was closed, has a ready case in its
  select: its channel, or the stop channel, is closed.
\<close>

theorem no_lost_wakeup:
  assumes "wreach s" and "(i, Blocked since c) \<in> set (waiters s)"
  shows "\<not> panicked (watch s) \<and>
    (wRev (watch s) \<noteq> since \<longrightarrow> wake_ready c ByChanged ctx (watch s)) \<and>
    (wClosed (watch s) \<longrightarrow> wake_ready c ByStop ctx (watch s))"
  using wreach_ok[OF assms(1)] assms(2)
  by (auto simp: wsys_ok_def watcher_ok_def waiter_ok_def)

lemma wreach_example:
  "wreach \<lparr>watch = watcher_set 6 (watcher_set 5 newRevisionWatcher), waiters = [(0, Blocked 5 2)]\<rparr>"
proof -
  let ?s0 = "\<lparr>watch = newRevisionWatcher, waiters = []\<rparr>"
  have 1: "wreach (?s0\<lparr>watch := watcher_set 5 (watch ?s0)\<rparr>)" (is "wreach ?s1")
    by (rule wreach.step[OF wreach.init wstep.set_step])
  have "wait_begin 5 (watch ?s1) = Inr 2"
    by (simp add: wait_begin_def) (simp add: watcher_set_def close_chan_def newRevisionWatcher_def)
  then have 2: "wreach (?s1\<lparr>waiters := (0, Blocked 5 2) # waiters ?s1\<rparr>)" (is "wreach ?s2")
    by (intro wreach.step[OF 1] wstep.enter_block) simp_all
  from wreach.step[OF 2 wstep.set_step[of ?s2 6]] show ?thesis by simp
qed

theorem no_lost_wakeup_witness:
  "wake_ready 2 ByChanged False (watcher_set 6 (watcher_set 5 newRevisionWatcher))"
  using no_lost_wakeup[OF wreach_example, of 0 5 2 False] by simp

end
