(* ===== verification/Url.thy ===== *)
theory Url
  imports JsonText
begin

text \<open>
  What the HTTP clients and the server use of Go's \<open>net/url\<close>: escaping of query components and
  path segments, \<open>url.Values.Encode\<close> and \<open>ParseQuery\<close>. What one side encodes the other decodes:
  \<open>parse_encode\<close> and \<open>PathUnescape_PathEscape\<close>.
\<close>

section \<open>Escaping\<close>

definition upper_hex :: "nat \<Rightarrow> char" where
  "upper_hex n = char_of (if n < 10 then 48 + n else 55 + n)"

definition url_alnum :: "char \<Rightarrow> bool" where
  "url_alnum c \<longleftrightarrow> 48 \<le> byte c \<and> byte c \<le> 57 \<or> 65 \<le> byte c \<and> byte c \<le> 90 \<or> 97 \<le> byte c \<and> byte c \<le> 122 \<or>
     c \<in> {CHR ''-'', CHR ''_'', CHR ''.'', CHR ''~''}"

definition query_plain :: "char \<Rightarrow> bool" where
  "query_plain c \<longleftrightarrow> url_alnum c"

definition path_plain :: "char \<Rightarrow> bool" where
  "path_plain c \<longleftrightarrow> url_alnum c \<or> c \<in> {CHR ''$'', CHR ''&'', CHR ''+'', CHR ''='', CHR '':'', CHR ''@''}"

definition percent :: "char \<Rightarrow> string" where
  "percent c = [CHR ''%'', upper_hex (byte c div 16), upper_hex (byte c mod 16)]"

definition QueryEscape :: "string \<Rightarrow> string" where
  "QueryEscape s = concat (map (\<lambda>c. if query_plain c then [c] else if c = CHR '' '' then ''+'' else percent c) s)"

definition PathEscape :: "string \<Rightarrow> string" where
  "PathEscape s = concat (map (\<lambda>c. if path_plain c then [c] else percent c) s)"

text \<open>\<open>None\<close> is an invalid escape. In a query a plus sign is a space.\<close>

fun unescape :: "bool \<Rightarrow> string \<Rightarrow> string option" where
  "unescape query [] = Some []"
| "unescape query (c # s) =
     (if c = CHR ''%'' then
        (case s of h # l # t \<Rightarrow>
           (case (hex_val h, hex_val l) of
              (Some a, Some b) \<Rightarrow> map_option (Cons (char_of (16 * a + b))) (unescape query t)
            | _ \<Rightarrow> None)
         | _ \<Rightarrow> None)
      else if query \<and> c = CHR ''+'' then map_option (Cons CHR '' '') (unescape query s)
      else map_option (Cons c) (unescape query s))"

declare unescape.simps(2) [simp del]

definition QueryUnescape :: "string \<Rightarrow> string option" where
  "QueryUnescape s = unescape True s"

definition PathUnescape :: "string \<Rightarrow> string option" where
  "PathUnescape s = unescape False s"

lemma upper_hex_val: "n < 16 \<Longrightarrow> hex_val (upper_hex n) = Some n"
  by (auto simp: hex_val_def upper_hex_def Let_def)

lemma byte_digits: "byte c div 16 < 16" "byte c mod 16 < 16"
proof -
  have "byte c < 256" by (simp add: of_char_def)
  then show "byte c div 16 < 16" by linarith
qed simp

lemma unescape_percent: "unescape query (percent c @ s) = map_option (Cons c) (unescape query s)"
proof -
  have "16 * (byte c div 16) + byte c mod 16 = byte c" by simp
  then have "char_of (16 * (byte c div 16) + byte c mod 16) = c" by (simp del: mult_div_mod_eq)
  then show ?thesis by (simp add: percent_def unescape.simps(2) upper_hex_val byte_digits)
qed

lemma unescape_plain: "c \<noteq> CHR ''%'' \<Longrightarrow> \<not> (query \<and> c = CHR ''+'') \<Longrightarrow>
    unescape query (c # s) = map_option (Cons c) (unescape query s)"
  by (auto simp: unescape.simps(2))

lemma url_alnum_excludes:
  "url_alnum c \<Longrightarrow> c \<noteq> CHR ''%'' \<and> c \<noteq> CHR ''+'' \<and> c \<noteq> CHR ''&'' \<and> c \<noteq> CHR ''='' \<and> c \<noteq> CHR '';'' \<and>
     c \<noteq> CHR ''/'' \<and> c \<noteq> CHR ''?''"
  by (auto simp: url_alnum_def)

lemma QueryUnescape_QueryEscape [simp]: "QueryUnescape (QueryEscape s) = Some s"
  unfolding QueryUnescape_def
proof (induction s)
  case Nil
  then show ?case by (simp add: QueryEscape_def)
next
  case (Cons c s)
  then have IH: "unescape True (QueryEscape s) = Some s" by simp
  have eq: "QueryEscape (c # s) =
      (if query_plain c then [c] else if c = CHR '' '' then ''+'' else percent c) @ QueryEscape s"
    by (simp add: QueryEscape_def)
  show ?case
    using IH url_alnum_excludes[of c]
    by (auto simp: eq query_plain_def unescape_percent unescape_plain unescape.simps(2)[of _ "CHR ''+''"])
qed

lemma PathUnescape_PathEscape [simp]: "PathUnescape (PathEscape s) = Some s"
  unfolding PathUnescape_def
proof (induction s)
  case Nil
  then show ?case by (simp add: PathEscape_def)
next
  case (Cons c s)
  then have IH: "unescape False (PathEscape s) = Some s" by simp
  have eq: "PathEscape (c # s) = (if path_plain c then [c] else percent c) @ PathEscape s"
    by (simp add: PathEscape_def)
  show ?case
    using IH url_alnum_excludes[of c] by (auto simp: eq path_plain_def unescape_percent unescape_plain)
qed

lemma upper_hex_alnum: "n < 16 \<Longrightarrow> url_alnum (upper_hex n)"
  by (auto simp: upper_hex_def url_alnum_def)

lemma percent_chars: "x \<in> set (percent c) \<Longrightarrow> x = CHR ''%'' \<or> url_alnum x"
  by (auto simp: percent_def upper_hex_alnum byte_digits)

lemma QueryEscape_chars: "x \<in> set (QueryEscape s) \<Longrightarrow> x = CHR ''%'' \<or> x = CHR ''+'' \<or> url_alnum x"
  using percent_chars by (fastforce simp: QueryEscape_def query_plain_def split: if_splits)

lemma PathEscape_chars: "x \<in> set (PathEscape s) \<Longrightarrow> x = CHR ''%'' \<or> path_plain x"
  using percent_chars by (fastforce simp: PathEscape_def path_plain_def split: if_splits)

lemma path_plain_excludes: "\<not> path_plain CHR ''/''" "\<not> path_plain CHR ''?''"
  by (auto simp: path_plain_def url_alnum_def)

lemma PathEscape_no_slash: "CHR ''/'' \<notin> set (PathEscape s)" "CHR ''?'' \<notin> set (PathEscape s)"
  using PathEscape_chars[of "CHR ''/''" s] PathEscape_chars[of "CHR ''?''" s] path_plain_excludes by auto

lemma QueryEscape_excludes [simp]:
  "CHR ''&'' \<notin> set (QueryEscape s)" "CHR ''='' \<notin> set (QueryEscape s)" "CHR '';'' \<notin> set (QueryEscape s)"
  using QueryEscape_chars[of "CHR ''&''" s] QueryEscape_chars[of "CHR ''=''" s] QueryEscape_chars[of "CHR '';''" s]
  by (auto dest: url_alnum_excludes)

section \<open>Query strings\<close>

text \<open>\<open>url.Values\<close>: a map from a name to its values, as an association list with distinct names.\<close>

type_synonym Values = "(string \<times> string list) list"

definition values_set :: "string \<Rightarrow> string \<Rightarrow> Values \<Rightarrow> Values" where
  "values_set k v vs = (k, [v]) # filter (\<lambda>p. fst p \<noteq> k) vs"

definition values_add :: "string \<Rightarrow> string \<Rightarrow> Values \<Rightarrow> Values" where
  "values_add k v vs =
     (k, (case map_of vs k of None \<Rightarrow> [] | Some xs \<Rightarrow> xs) @ [v]) # filter (\<lambda>p. fst p \<noteq> k) vs"

definition values_pairs :: "Values \<Rightarrow> (string \<times> string) list" where
  "values_pairs vs = concat (map (\<lambda>(k, xs). map (Pair k) xs) (sort_key fst vs))"

definition Encode :: "Values \<Rightarrow> string" where
  "Encode vs = Join (map (\<lambda>(k, v). QueryEscape k @ ''='' @ QueryEscape v) (values_pairs vs)) ''&''"

text \<open>\<open>ParseQuery\<close>, whose error \<open>URL.Query\<close> ignores: malformed pieces are left out.\<close>

definition parse_piece :: "string \<Rightarrow> (string \<times> string) list" where
  "parse_piece p =
     (if CHR '';'' \<in> set p \<or> p = [] then []
      else (case Cut CHR ''='' p of (k, v, _) \<Rightarrow>
              (case (QueryUnescape k, QueryUnescape v) of (Some k', Some v') \<Rightarrow> [(k', v')] | _ \<Rightarrow> [])))"

definition ParseQuery :: "string \<Rightarrow> (string \<times> string) list" where
  "ParseQuery q = concat (map parse_piece (Split CHR ''&'' q))"

lemma parse_piece_encoded: "parse_piece (QueryEscape k @ CHR ''='' # QueryEscape v) = [(k, v)]"
  by (simp add: parse_piece_def)

lemma parse_encode: "ParseQuery (Encode vs) = values_pairs vs"
proof -
  let ?enc = "\<lambda>(k, v). QueryEscape k @ ''='' @ QueryEscape v" and ?ps = "values_pairs vs"
  have parse: "concat (map parse_piece (map ?enc ps)) = ps" for ps
    by (induction ps) (auto simp: parse_piece_encoded)
  show ?thesis
  proof (cases "?ps = []")
    case True
    then show ?thesis by (simp add: ParseQuery_def Encode_def parse_piece_def)
  next
    case False
    then have "Split CHR ''&'' (Join (map ?enc ?ps) [CHR ''&'']) = map ?enc ?ps"
      by (intro Split_Join) auto
    then show ?thesis using parse by (simp add: ParseQuery_def Encode_def)
  qed
qed

end
