(* ===== verification/Server_Handler.thy ===== *)
theory Server_Handler
  imports DB_Source Server_Watcher Url
begin

text \<open>
  The HTTP handlers of \<open>server/handler.go\<close> and the wire types of \<open>server/api/api.go\<close>. Other
  requests write between any two store calls of a handler: a store call is given as the
  environment and the database it meets (\<open>at\<close>). A request is its decoded parts: the path value
  \<open>key\<close>, the query parameters in order, and the body with the error its reading ends in, if any.
  The texts of error messages are not modelled; an error response carries what it is about.
\<close>

section \<open>Requests and replies\<close>

record http_request =
  path_key :: string
  query_params :: "(string \<times> string) list"
  req_body :: string
  body_err :: bool

text \<open>\<open>url.Values.Get\<close>: the first value, or the empty string; and all values of a name.\<close>

definition query_get :: "string \<Rightarrow> http_request \<Rightarrow> string" where
  "query_get name r = (case map_of (query_params r) name of None \<Rightarrow> [] | Some v \<Rightarrow> v)"

definition query_all :: "string \<Rightarrow> http_request \<Rightarrow> string list" where
  "query_all name r = map snd (filter (\<lambda>(n, v). n = name) (query_params r))"

record ConfigDetail =
  dKey :: string
  dValue :: string
  dFormat :: string
  dUpdatedAt :: int
  dUpdatedBy :: string

record ApiHistory =
  aVersion :: int
  aValue :: string
  aFormat :: string
  aOp :: string
  aComment :: string
  aCreatedAt :: int
  aCreatedBy :: string

record WriteResult =
  wrKey :: string
  wrVersion :: int
  wrRevision :: int

datatype message =
  MsgStore store_error
| MsgBadRevision string
| MsgPrefixes nat
| MsgBadLimit string
| MsgBadFormat string
| MsgTooLarge nat
| MsgBody
| MsgBadJSON
| MsgBadVersion
| MsgInternal

datatype reply_body =
  NoBody
| BSnapshot Snapshot
| BDetail ConfigDetail
| BHistory "ApiHistory list"
| BWrite WriteResult
| BRevision int
| BHealth bool int string
| BError message

datatype reply = Reply (status: nat) (rbody: reply_body)

definition defaultHistoryLimit :: int where "defaultHistoryLimit = 100"
definition defaultAuthor :: string where "defaultAuthor = ''anonymous''"
definition maxPrefixes :: nat where "maxPrefixes = 64"

section \<open>Helpers\<close>

text \<open>
  For a cancelled context \<open>fail\<close> returns without writing, and \<open>net/http\<close> then sends what it sends
  for every handler that wrote nothing: status 200 and an empty body. A client that has gone
  does not see it; one that is still there does, when the shutdown cancels the base context.
\<close>

definition fail :: "store_error \<Rightarrow> reply" where
  "fail err =
     (case err of
        ErrNotFound _ \<Rightarrow> Reply 404 (BError (MsgStore err))
      | ErrInvalidKey _ \<Rightarrow> Reply 400 (BError (MsgStore err))
      | ErrInvalidValue _ \<Rightarrow> Reply 400 (BError (MsgStore err))
      | ErrInvalidChange _ \<Rightarrow> Reply 400 (BError (MsgStore err))
      | ErrNotMigrated \<Rightarrow> Reply 503 (BError (MsgStore err))
      | ErrDriver DBCanceled \<Rightarrow> Reply 200 NoBody
      | _ \<Rightarrow> Reply 500 (BError MsgInternal))"

text \<open>The loop of \<open>prefixes\<close>; \<open>None\<close> is its early return for an empty prefix.\<close>

definition request_prefixes :: "http_request \<Rightarrow> nat + string list" where
  "request_prefixes r =
     (let ps = query_all ''prefix'' r in
      if ps = [] then Inr [[]]
      else if maxPrefixes < length ps then Inl (length ps)
      else Inr (case dedup_prefixes ps [] of None \<Rightarrow> [[]] | Some out \<Rightarrow> out))"

definition request_change :: "http_request \<Rightarrow> Change" where
  "request_change r =
     \<lparr>Author = (let a = query_get ''author'' r in if a = [] then defaultAuthor else a),
      Comment = query_get ''comment'' r\<rparr>"

definition parseFormat :: "string \<Rightarrow> Format option" where
  "parseFormat v =
     (if v = [] then Some FormatRaw
      else if v = FormatRaw \<or> v = FormatJSON \<or> v = FormatYAML then Some v
      else None)"

text \<open>\<open>MaxBytesReader\<close> fails when more than \<open>limit\<close> bytes arrive, before any later read error.\<close>

definition readBody :: "http_request \<Rightarrow> nat \<Rightarrow> reply + string" where
  "readBody r limit =
     (if limit < length (req_body r) then Inl (Reply 413 (BError (MsgTooLarge limit)))
      else if body_err r then Inl (Reply 400 (BError MsgBody))
      else Inr (req_body r))"

definition writeResult :: "string \<Rightarrow> Result \<Rightarrow> reply" where
  "writeResult key res = Reply 200 (BWrite \<lparr>wrKey = key, wrVersion = Version res, wrRevision = Revision res\<rparr>)"

section \<open>Reading handlers\<close>

type_synonym at = "dbenv \<times> db"

definition observedRevision :: "watcher \<Rightarrow> at \<Rightarrow> store_error + int" where
  "observedRevision w c =
     (case health w of (ready, rv, _) \<Rightarrow> if ready then Inr rv else fst (ReadRevision (fst c) (snd c)))"

text \<open>\<open>snapshot\<close>: the revision is read at \<open>c1\<close>, the rows at \<open>c2\<close>.\<close>

definition server_snapshot :: "Dialect \<Rightarrow> int \<Rightarrow> string list \<Rightarrow> at \<Rightarrow> at \<Rightarrow> store_error + Snapshot" where
  "server_snapshot dia rv ps c1 c2 =
     (case fst (ReadRevision (fst c1) (snd c1)) of
        Inl err \<Rightarrow> Inl err
      | Inr dbRev \<Rightarrow>
          (case fst (ListPrefixes (fst c2) dia ps (snd c2)) of
             Inl err \<Rightarrow> Inl err
           | Inr cfgs \<Rightarrow> Inr \<lparr>sRevision = min rv dbRev, sConfigs = map to_entry cfgs\<rparr>))"

definition reply_snapshot :: "store_error + Snapshot \<Rightarrow> reply" where
  "reply_snapshot r = (case r of Inl err \<Rightarrow> fail err | Inr s \<Rightarrow> Reply 200 (BSnapshot s))"

definition handleList :: "Dialect \<Rightarrow> watcher \<Rightarrow> http_request \<Rightarrow> at \<Rightarrow> at \<Rightarrow> at \<Rightarrow> reply" where
  "handleList dia w r c0 c1 c2 =
     (case observedRevision w c0 of
        Inl err \<Rightarrow> fail err
      | Inr rv \<Rightarrow>
          (case request_prefixes r of
             Inl n \<Rightarrow> Reply 400 (BError (MsgPrefixes n))
           | Inr ps \<Rightarrow> reply_snapshot (server_snapshot dia rv ps c1 c2)))"

text \<open>
  \<open>Wait\<close> entered with the watcher \<open>w0\<close> and, when it has to block, left with the watcher \<open>w1\<close> for
  the reason \<open>why\<close>.
\<close>

definition Wait :: "int \<Rightarrow> watcher \<Rightarrow> wake \<Rightarrow> watcher \<Rightarrow> int \<times> bool" where
  "Wait since w0 why w1 = (case wait_begin since w0 of Inl r \<Rightarrow> r | Inr ch \<Rightarrow> wait_end why w1)"

definition request_since :: "http_request \<Rightarrow> string + int" where
  "request_since r =
     (let v = query_get ''revision'' r in
      if v = [] then Inr (-1) else (case ParseInt 64 v of None \<Rightarrow> Inl v | Some n \<Rightarrow> Inr n))"

definition handleWatch ::
    "Dialect \<Rightarrow> http_request \<Rightarrow> watcher \<Rightarrow> wake \<Rightarrow> watcher \<Rightarrow> watcher \<Rightarrow> at \<Rightarrow> at \<Rightarrow> at \<Rightarrow> reply" where
  "handleWatch dia r w0 why w1 w2 c0 c1 c2 =
     (case request_since r of
        Inl v \<Rightarrow> Reply 400 (BError (MsgBadRevision v))
      | Inr since \<Rightarrow>
          (case request_prefixes r of
             Inl n \<Rightarrow> Reply 400 (BError (MsgPrefixes n))
           | Inr ps \<Rightarrow>
               (case Wait since w0 why w1 of (rv, changed) \<Rightarrow>
                  if \<not> changed then Reply 304 NoBody
                  else (case (if rv < 0 then observedRevision w2 c0 else Inr rv) of
                          Inl err \<Rightarrow> fail err
                        | Inr rv' \<Rightarrow> reply_snapshot (server_snapshot dia rv' ps c1 c2)))))"

definition handleGet :: "http_request \<Rightarrow> at \<Rightarrow> reply" where
  "handleGet r c =
     (case fst (Get (fst c) (path_key r) (snd c)) of
        Inl err \<Rightarrow> fail err
      | Inr cfg \<Rightarrow> Reply 200 (BDetail
          \<lparr>dKey = cKey cfg, dValue = cValue cfg, dFormat = cFormat cfg, dUpdatedAt = cUpdatedAt cfg,
           dUpdatedBy = cUpdatedBy cfg\<rparr>))"

definition to_api_history :: "HistoryEntry \<Rightarrow> ApiHistory" where
  "to_api_history h =
     \<lparr>aVersion = hVersion h, aValue = hValue h, aFormat = hFormat h, aOp = op_text (hOp h),
      aComment = hComment h, aCreatedAt = hCreatedAt h, aCreatedBy = hCreatedBy h\<rparr>"

definition handleHistory :: "http_request \<Rightarrow> at \<Rightarrow> reply" where
  "handleHistory r c =
     (let v = query_get ''limit'' r in
      case (if v = [] then Some defaultHistoryLimit else ParseInt 64 v) of
        None \<Rightarrow> Reply 400 (BError (MsgBadLimit v))
      | Some limit \<Rightarrow>
          (case fst (History (fst c) (path_key r) limit (snd c)) of
             Inl err \<Rightarrow> fail err
           | Inr entries \<Rightarrow>
               if entries = [] then fail (ErrNotFound NoHistory)
               else Reply 200 (BHistory (map to_api_history entries))))"

definition handleRevision :: "watcher \<Rightarrow> at \<Rightarrow> reply" where
  "handleRevision w c =
     (case observedRevision w c of Inl err \<Rightarrow> fail err | Inr rv \<Rightarrow> Reply 200 (BRevision rv))"

definition handleHealth :: "watcher \<Rightarrow> reply" where
  "handleHealth w =
     (case health w of (ready, rv, dbErr) \<Rightarrow>
        Reply (if ready then 200 else 503) (BHealth ready rv dbErr))"

section \<open>Writing handlers\<close>

text \<open>These change the database: they return the reply and the database after it.\<close>

definition reply_write :: "string \<Rightarrow> (store_error + Result) \<times> db \<Rightarrow> reply \<times> db" where
  "reply_write key r = (case r of (Inl err, d) \<Rightarrow> (fail err, d) | (Inr res, d) \<Rightarrow> (writeResult key res, d))"

definition handleSet :: "Dialect \<Rightarrow> http_request \<Rightarrow> dbenv \<Rightarrow> db \<Rightarrow> reply \<times> db" where
  "handleSet dia r e d =
     (case parseFormat (query_get ''format'' r) of
        None \<Rightarrow> (Reply 400 (BError (MsgBadFormat (query_get ''format'' r))), d)
      | Some format \<Rightarrow>
          (case readBody r MaxValueSize of
             Inl rep \<Rightarrow> (rep, d)
           | Inr val \<Rightarrow>
               reply_write (path_key r) (Set e dia (path_key r) val format (request_change r) d)))"

definition handleDelete :: "Dialect \<Rightarrow> http_request \<Rightarrow> dbenv \<Rightarrow> db \<Rightarrow> reply \<times> db" where
  "handleDelete dia r e d = reply_write (path_key r) (Delete e dia (path_key r) (request_change r) d)"

text \<open>The request body \<open>api.RollbackRequest\<close>.\<close>

definition decode_rollback :: "string \<Rightarrow> int option" where
  "decode_rollback body =
     Option.bind (Unmarshal body) (\<lambda>j. Option.bind (object_fields j) (\<lambda>fs. int64_field (map_of fs ''version'')))"

definition handleRollback :: "Dialect \<Rightarrow> http_request \<Rightarrow> dbenv \<Rightarrow> db \<Rightarrow> reply \<times> db" where
  "handleRollback dia r e d =
     (case readBody r 4096 of
        Inl rep \<Rightarrow> (rep, d)
      | Inr body \<Rightarrow>
          (case decode_rollback body of
             None \<Rightarrow> (Reply 400 (BError MsgBadJSON), d)
           | Some ver \<Rightarrow>
               if ver \<le> 0 then (Reply 400 (BError MsgBadVersion), d)
               else reply_write (path_key r)
                 (Rollback e dia (path_key r) ver (request_change r) d)))"

section \<open>Routes\<close>

datatype endpoint =
  EpList | EpGet string | EpSet string | EpDelete string | EpHistory string | EpRollback string
| EpWatch | EpRevision | EpHealth

text \<open>
  The patterns of \<open>routes\<close> over the unescaped segments of a cleaned path. A wildcard matches any
  segment but the empty one; \<open>GET\<close> also serves \<open>HEAD\<close>.
\<close>

definition match_route :: "string \<Rightarrow> string list \<Rightarrow> endpoint option" where
  "match_route meth segs =
     (let get = (meth = ''GET'' \<or> meth = ''HEAD'') in
      case segs of
        [a] \<Rightarrow> if a = ''healthz'' \<and> get then Some EpHealth else None
      | [a, b] \<Rightarrow>
          if a \<noteq> ''v1'' \<or> \<not> get then None
          else if b = ''configs'' then Some EpList
          else if b = ''watch'' then Some EpWatch
          else if b = ''revision'' then Some EpRevision
          else None
      | [a, b, key] \<Rightarrow>
          if a \<noteq> ''v1'' \<or> b \<noteq> ''configs'' \<or> key = [] then None
          else if get then Some (EpGet key)
          else if meth = ''PUT'' then Some (EpSet key)
          else if meth = ''DELETE'' then Some (EpDelete key)
          else None
      | [a, b, key, c] \<Rightarrow>
          if a \<noteq> ''v1'' \<or> b \<noteq> ''configs'' \<or> key = [] then None
          else if c = ''history'' \<and> get then Some (EpHistory key)
          else if c = ''rollback'' \<and> meth = ''POST'' then Some (EpRollback key)
          else None
      | _ \<Rightarrow> None)"

text \<open>
  \<open>ServeMux\<close> cleans the escaped path first: empty and \<open>.\<close> segments vanish, \<open>..\<close> removes the
  segment before it, a slash at the end stays. When that changes the path the request is
  redirected, not handled. A segment that is no valid escape stands for itself.
\<close>

fun clean_onto :: "string list \<Rightarrow> string list \<Rightarrow> string list" where
  "clean_onto out [] = rev out"
| "clean_onto out (s # ss) =
     (if s = [] \<or> s = ''.'' then clean_onto out ss
      else if s = ''..'' then clean_onto (tl out) ss
      else clean_onto (s # out) ss)"

definition clean_path :: "string list \<Rightarrow> string list" where
  "clean_path segs =
     (let c = clean_onto [] segs in if segs \<noteq> [] \<and> last segs = [] then c @ [[]] else c)"

definition unescape_segment :: "string \<Rightarrow> string" where
  "unescape_segment s = (case PathUnescape s of None \<Rightarrow> s | Some t \<Rightarrow> t)"

text \<open>The path without its leading slash.\<close>

definition dispatch :: "string \<Rightarrow> string \<Rightarrow> endpoint option" where
  "dispatch meth path =
     (let segs = Split CHR ''/'' path in
      if clean_path segs = segs then match_route meth (map unescape_segment segs) else None)"

section \<open>What the reading handlers answer\<close>

lemma server_snapshot_low:
  assumes "server_snapshot dia rv ps c1 c2 = Inr s"
  shows "sRevision s = min rv (db_revision (snd c1))"
    "sConfigs s = db_rows (collate (fst c2)) (snd c2) ps"
proof -
  obtain dbRev where r: "fst (ReadRevision (fst c1) (snd c1)) = Inr dbRev"
    using assms by (auto simp: server_snapshot_def split: sum.splits)
  obtain cfgs where l: "fst (ListPrefixes (fst c2) dia ps (snd c2)) = Inr cfgs"
    using assms r by (auto simp: server_snapshot_def split: sum.splits)
  have s: "s = \<lparr>sRevision = min rv dbRev, sConfigs = map to_entry cfgs\<rparr>"
    using assms r l by (simp add: server_snapshot_def)
  show "sRevision s = min rv (db_revision (snd c1))" using ReadRevision_db[OF r] s by simp
  show "sConfigs s = db_rows (collate (fst c2)) (snd c2) ps" using ListPrefixes_rows[OF l] s by simp
qed

lemma fail_not_snapshot [simp]: "fail err \<noteq> Reply st (BSnapshot s)"
  by (auto simp: fail_def split: store_error.splits dberr.splits)

lemma fail_not_304 [simp]: "fail err \<noteq> Reply 304 b"
  by (auto simp: fail_def split: store_error.splits dberr.splits)

lemma fail_200: "fail err = Reply 200 b \<longleftrightarrow> b = NoBody \<and> err = ErrDriver DBCanceled"
  by (auto simp: fail_def split: store_error.splits dberr.splits)

lemma fail_not_write [simp]: "fail err \<noteq> Reply st (BWrite wr)"
  by (auto simp: fail_def split: store_error.splits dberr.splits)

lemma reply_snapshot_iff:
  "reply_snapshot r = Reply st (BSnapshot s) \<longleftrightarrow> st = 200 \<and> r = Inr s"
  "reply_snapshot r \<noteq> Reply 304 b"
  by (auto simp: reply_snapshot_def split: sum.splits)

lemma handleWatch_snapshot:
  assumes "handleWatch dia r w0 why w1 w2 c0 c1 c2 = Reply st (BSnapshot s)"
  shows "\<exists>since ps rv. request_since r = Inr since \<and> request_prefixes r = Inr ps \<and>
    snd (Wait since w0 why w1) \<and>
    (if fst (Wait since w0 why w1) < 0 then observedRevision w2 c0 = Inr rv
     else rv = fst (Wait since w0 why w1)) \<and>
    server_snapshot dia rv ps c1 c2 = Inr s \<and> st = 200"
proof -
  obtain since where since: "request_since r = Inr since"
    using assms by (auto simp: handleWatch_def split: sum.splits)
  obtain ps where ps: "request_prefixes r = Inr ps"
    using assms since by (auto simp: handleWatch_def split: sum.splits)
  obtain rv0 ch where w: "Wait since w0 why w1 = (rv0, ch)" by (cases "Wait since w0 why w1")
  show ?thesis
    using assms since ps w
    by (cases "rv0 < 0"; cases ch; cases "observedRevision w2 c0")
       (auto simp: handleWatch_def reply_snapshot_iff)
qed

lemma handleList_snapshot:
  assumes "handleList dia w r c0 c1 c2 = Reply st (BSnapshot s)"
  shows "\<exists>ps rv. observedRevision w c0 = Inr rv \<and> request_prefixes r = Inr ps \<and>
    server_snapshot dia rv ps c1 c2 = Inr s \<and> st = 200"
  using assms by (auto simp: handleList_def reply_snapshot_iff split: sum.splits)

lemma Wait_False: "snd (Wait since w0 why w1) = False \<longleftrightarrow> 0 \<le> since \<and> wRev w0 = since \<and> why \<noteq> ByChanged"
  by (cases why) (auto simp: Wait_def wait_begin_def)

lemma handleWatch_304_iff:
  "handleWatch dia r w0 why w1 w2 c0 c1 c2 = Reply 304 b \<longleftrightarrow>
     b = NoBody \<and> (\<exists>since ps. request_since r = Inr since \<and> request_prefixes r = Inr ps \<and>
       0 \<le> since \<and> wRev w0 = since \<and> why \<noteq> ByChanged)"
proof (cases "request_since r")
  case (Inl v)
  then show ?thesis by (auto simp: handleWatch_def)
next
  case (Inr since)
  show ?thesis
  proof (cases "request_prefixes r")
    case (Inl n)
    then show ?thesis using Inr by (auto simp: handleWatch_def)
  next
    case ps: (Inr ps)
    obtain rv ch where w: "Wait since w0 why w1 = (rv, ch)" by (cases "Wait since w0 why w1")
    have "handleWatch dia r w0 why w1 w2 c0 c1 c2 = Reply 304 b \<longleftrightarrow> \<not> ch \<and> b = NoBody"
      using Inr ps w
      by (cases "rv < 0"; cases "observedRevision w2 c0") (auto simp: handleWatch_def reply_snapshot_iff)
    then show ?thesis using Wait_False[of since w0 why w1] w Inr ps by auto
  qed
qed

lemma handleWatch_200:
  assumes "handleWatch dia r w0 why w1 w2 c0 c1 c2 = Reply 200 b"
  shows "b = NoBody \<or> (\<exists>s. b = BSnapshot s)"
proof -
  obtain since where since: "request_since r = Inr since"
    using assms by (auto simp: handleWatch_def split: sum.splits)
  obtain ps where ps: "request_prefixes r = Inr ps"
    using assms since by (auto simp: handleWatch_def split: sum.splits)
  obtain rv ch where w: "Wait since w0 why w1 = (rv, ch)" by (cases "Wait since w0 why w1")
  show ?thesis
    using assms since ps w
    by (cases "rv < 0"; cases ch; cases "observedRevision w2 c0")
       (auto simp: handleWatch_def reply_snapshot_def fail_200 split: sum.splits)
qed

end
