(* ===== verification/HTTP_Source.thy ===== *)
theory HTTP_Source
  imports Server_Handler
begin

text \<open>
  \<open>client/httpsource/httpsource.go\<close>: the source that long-polls the server, down to the URL it
  asks for and the bytes it decodes, and the watch endpoint behind it. The network is a
  parameter: a request fails or its reply arrives. What the server writes after an encoding
  error, and the texts of its error messages, are parameters too (\<open>serverenv\<close>).

  Together with the database and the watcher the two keep the contract of a source
  (\<open>httpsource\<close> below): the poller of the watcher is a step relation of its own, so its view of
  the revision may lag behind.
\<close>

section \<open>The client side\<close>

definition maxBodySize :: nat where "maxBodySize = 67108864"
definition pollGrace :: int where "pollGrace = 5 * second"

definition source_base :: "string \<Rightarrow> string" where
  "source_base baseURL = TrimRightByte CHR ''/'' baseURL"

text \<open>The deadline of the context, as a duration from now, if it has one.\<close>

definition withPollDeadline :: "int option \<Rightarrow> int \<Rightarrow> int option" where
  "withPollDeadline deadline timeout =
     (if deadline \<noteq> None \<or> timeout \<le> 0 then deadline else Some (timeout + pollGrace))"

definition poll_values :: "PollRequest \<Rightarrow> Values" where
  "poll_values q =
     fold (values_add ''prefix'') (Prefixes q)
       (if 0 \<le> Since q then values_set ''revision'' (int_str (Since q)) [] else [])"

definition poll_url :: "string \<Rightarrow> PollRequest \<Rightarrow> string" where
  "poll_url base q =
     base @ ''/v1/watch'' @ (if poll_values q = [] then [] else CHR ''?'' # Encode (poll_values q))"

datatype response = NetError | Response nat string

datatype poll_error = RequestFailed | BadSnapshot | ServiceError nat string

text \<open>The server's JSON error, a proxy's plain text, or a remark that there was nothing.\<close>

definition error_field :: "string \<Rightarrow> string option" where
  "error_field data =
     Option.bind (Unmarshal data) (\<lambda>j. Option.bind (object_fields j) (\<lambda>fs. string_field (map_of fs ''error'')))"

definition errorBody :: "string \<Rightarrow> string" where
  "errorBody body =
     (let data = take 4096 body in
      if data = [] then ''(empty response body)''
      else (case error_field data of
              Some t \<Rightarrow> if t \<noteq> [] then t else TrimSpace data
            | None \<Rightarrow> TrimSpace data))"

definition poll_answer :: "response \<Rightarrow> poll_error + Snapshot option" where
  "poll_answer resp =
     (case resp of
        NetError \<Rightarrow> Inl RequestFailed
      | Response code body \<Rightarrow>
          if code = 200 then
            (case unmarshal_snapshot (take maxBodySize body) of
               None \<Rightarrow> Inl BadSnapshot | Some s \<Rightarrow> Inr (Some s))
          else if code = 304 then Inr None
          else Inl (ServiceError code (errorBody body)))"

section \<open>The server side of the watch endpoint\<close>

text \<open>The request that arrives: its query is parsed from the URL's.\<close>

definition watch_request :: "PollRequest \<Rightarrow> http_request" where
  "watch_request q =
     \<lparr>path_key = [], query_params = ParseQuery (Encode (poll_values q)), req_body = [], body_err = False\<rparr>"

record serverenv =
  truncated :: "Snapshot \<Rightarrow> string"
  other_body :: "reply_body \<Rightarrow> string"

text \<open>\<open>write\<close>: the status is sent before the body is encoded.\<close>

definition watch_response :: "serverenv \<Rightarrow> reply \<Rightarrow> response" where
  "watch_response se rep =
     (case rep of
        Reply code b \<Rightarrow> Response code
          (case b of
             BSnapshot s \<Rightarrow> (case marshal_snapshot s of Some t \<Rightarrow> t | None \<Rightarrow> truncated se s)
           | NoBody \<Rightarrow> []
           | _ \<Rightarrow> other_body se b))"

section \<open>Queries survive the URL\<close>

lemma filter_pairs:
  "distinct (map fst vs) \<Longrightarrow>
   filter (\<lambda>(n, v). n = k) (concat (map (\<lambda>(k, xs). map (Pair k) xs) vs)) =
     (case map_of vs k of None \<Rightarrow> [] | Some xs \<Rightarrow> map (Pair k) xs)"
proof (induction vs)
  case Nil
  then show ?case by simp
next
  case (Cons p vs)
  obtain n xs where p: "p = (n, xs)" by (cases p)
  have head: "filter (\<lambda>(n', v). n' = k) (map (Pair n) xs) = (if n = k then map (Pair n) xs else [])"
    by (induction xs) auto
  have "n = k \<Longrightarrow> map_of vs k = None" using Cons.prems p by (auto simp: map_of_eq_None_iff)
  then show ?case using Cons p head by auto
qed

lemma map_of_sort_key: "distinct (map fst vs) \<Longrightarrow> map_of (sort_key f vs) = map_of vs"
proof -
  assume d: "distinct (map fst vs)"
  have "mset (map fst (sort_key f vs)) = mset (map fst vs)" by simp
  then have d': "distinct (map fst (sort_key f vs))" using d mset_eq_imp_distinct_iff by blast
  show ?thesis using map_of_inject_set[OF d' d] by simp
qed

lemma filter_values_pairs:
  assumes "distinct (map fst vs)"
  shows "filter (\<lambda>(n, v). n = k) (values_pairs vs) =
    (case map_of vs k of None \<Rightarrow> [] | Some xs \<Rightarrow> map (Pair k) xs)"
proof -
  have "mset (map fst (sort_key fst vs)) = mset (map fst vs)" by simp
  then have "distinct (map fst (sort_key fst vs))" using assms mset_eq_imp_distinct_iff by blast
  from filter_pairs[OF this] show ?thesis
    by (simp add: values_pairs_def map_of_sort_key[OF assms])
qed

lemma map_of_filter_pair:
  "map_of ps k = (case filter (\<lambda>(n, v). n = k) ps of [] \<Rightarrow> None | p # _ \<Rightarrow> Some (snd p))"
  by (induction ps) auto

lemma query_of_values:
  assumes "query_params r = values_pairs vs" and "distinct (map fst vs)"
  shows "query_all k r = (case map_of vs k of None \<Rightarrow> [] | Some xs \<Rightarrow> xs)"
    "query_get k r = (case map_of vs k of None \<Rightarrow> [] | Some xs \<Rightarrow> case xs of [] \<Rightarrow> [] | x # _ \<Rightarrow> x)"
  using filter_values_pairs[OF assms(2), of k]
  by (auto simp: query_all_def query_get_def assms(1) map_of_filter_pair[of _ k] comp_def
      split: option.splits list.splits)

lemma values_add_prefix:
  "distinct (map fst vs) \<Longrightarrow> distinct (map fst (fold (values_add k) ps vs)) \<and>
   map_of (fold (values_add k) ps vs) k =
     (if ps = [] then map_of vs k
      else Some ((case map_of vs k of None \<Rightarrow> [] | Some xs \<Rightarrow> xs) @ ps)) \<and>
   (\<forall>n. n \<noteq> k \<longrightarrow> map_of (fold (values_add k) ps vs) n = map_of vs n)"
proof (induction ps arbitrary: vs)
  case Nil
  then show ?case by simp
next
  case (Cons p ps)
  have flt: "map_of (filter (\<lambda>q. fst q \<noteq> k) xs) n = (if n = k then None else map_of xs n)"
    for n and xs :: Values by (induction xs) auto
  have "distinct (map fst (values_add k p vs))"
    using Cons.prems by (auto simp: values_add_def distinct_map_filter)
  from Cons.IH[OF this] show ?case
    by (auto simp: values_add_def flt split: option.splits)
qed

lemma poll_values_map:
  "distinct (map fst (poll_values q))"
  "map_of (poll_values q) ''prefix'' = (if Prefixes q = [] then None else Some (Prefixes q))"
  "map_of (poll_values q) ''revision'' = (if 0 \<le> Since q then Some [int_str (Since q)] else None)"
  using values_add_prefix[of "if 0 \<le> Since q then values_set ''revision'' (int_str (Since q)) [] else []"
      "''prefix''" "Prefixes q"]
  by (auto simp: poll_values_def values_set_def)

text \<open>The server reads the baseline and the prefixes that the client meant.\<close>

lemma watch_request_reads:
  "Since q \<le> max_int64 \<Longrightarrow> request_since (watch_request q) = Inr (if 0 \<le> Since q then Since q else -1)"
  "query_all ''prefix'' (watch_request q) = Prefixes q"
proof -
  have qp: "query_params (watch_request q) = values_pairs (poll_values q)"
    by (simp add: watch_request_def parse_encode)
  note reads = query_of_values[OF qp poll_values_map(1)]
  show "query_all ''prefix'' (watch_request q) = Prefixes q"
    by (simp add: reads(1) poll_values_map)
  assume "Since q \<le> max_int64"
  then show "request_since (watch_request q) = Inr (if 0 \<le> Since q then Since q else -1)"
    by (simp add: request_since_def reads(2) poll_values_map min_int64_def)
qed

lemma request_prefixes_under:
  assumes "request_prefixes r = Inr ps'"
  shows "under ps' = under (query_all ''prefix'' r)"
proof -
  let ?ps = "query_all ''prefix'' r"
  have "under ps' k \<longleftrightarrow> under ?ps k" for k
  proof (cases "?ps = []")
    case True
    then show ?thesis using assms by (auto simp: request_prefixes_def Let_def under_def)
  next
    case False
    then have "ps' = (case dedup_prefixes ?ps [] of None \<Rightarrow> [[]] | Some out \<Rightarrow> out)"
      using assms by (auto simp: request_prefixes_def Let_def split: if_splits)
    then show ?thesis
      using dedup_prefixes_spec[of "[]" ?ps] False
      by (auto simp: under_def split: option.splits intro: bexI[of _ "[]"])
  qed
  then show ?thesis by blast
qed

lemma db_rows_under: "under ps = under ps' \<Longrightarrow> db_rows coll d ps = db_rows coll d ps'"
  by (simp add: db_rows_def)

section \<open>Database, poller and watcher together\<close>

text \<open>
  The state of the service: the database, the watcher, and the revision that the poller has
  read but not yet recorded.
\<close>

record service =
  sdb :: db
  swatch :: watcher
  inflight :: "int option"

inductive srv_later :: "service \<Rightarrow> service \<Rightarrow> bool" where
  refl: "srv_later s s"
| wrote: "srv_later s t \<Longrightarrow> srv_later s (t\<lparr>sdb := snd (perform e dia q (sdb t))\<rparr>)"
| beat_read: "srv_later s t \<Longrightarrow> inflight t = None \<Longrightarrow> fst (ReadRevision e (sdb t)) = Inr rv \<Longrightarrow>
    srv_later s (t\<lparr>inflight := Some rv\<rparr>)"
| beat_set: "srv_later s t \<Longrightarrow> inflight t = Some rv \<Longrightarrow>
    srv_later s (t\<lparr>swatch := watcher_set rv (swatch t), inflight := None\<rparr>)"
| beat_fail: "srv_later s t \<Longrightarrow> srv_later s (t\<lparr>swatch := setErr err (swatch t), inflight := None\<rparr>)"
| closed: "srv_later s t \<Longrightarrow> srv_later s (t\<lparr>swatch := watcher_close (swatch t)\<rparr>)"

definition srv_revision :: "service \<Rightarrow> int" where
  "srv_revision s = db_revision (sdb s)"

definition srv_rows :: "(string \<Rightarrow> string) \<Rightarrow> service \<Rightarrow> string list \<Rightarrow> CConfig list" where
  "srv_rows coll s ps = db_rows coll (sdb s) ps"

lemma srv_later_db: "srv_later s t \<Longrightarrow> later (sdb s) (sdb t)"
  by (induction rule: srv_later.induct) (auto intro: later.intros)

lemma srv_later_trans: "srv_later s t \<Longrightarrow> srv_later t u \<Longrightarrow> srv_later s u"
  by (rotate_tac, induction rule: srv_later.induct) (auto intro: srv_later.intros)

interpretation srv: config_store srv_revision "srv_rows coll" srv_later
proof
  show "srv_later s s" for s by (rule srv_later.refl)
  show "srv_later s t \<Longrightarrow> srv_later t u \<Longrightarrow> srv_later s u" for s t u by (rule srv_later_trans)
  show "srv_later s t \<Longrightarrow> srv_revision s \<le> srv_revision t" for s t
    using srv_later_db db.revision_mono by (simp add: srv_revision_def)
  show "srv_later s t \<Longrightarrow> srv_revision s = srv_revision t \<Longrightarrow> srv_rows coll s p = srv_rows coll t p" for s t p
    using srv_later_db db.rows_fixed by (simp add: srv_revision_def srv_rows_def)
qed

text \<open>Settled: the watcher is ready and neither it nor the poller is behind the database.\<close>

definition srv_settled :: "service \<Rightarrow> bool" where
  "srv_settled s \<longleftrightarrow> wReady (swatch s) \<and> wRev (swatch s) = srv_revision s \<and>
     (inflight s = None \<or> inflight s = Some (srv_revision s))"

lemma srv_settled_stays:
  "srv_later s t \<Longrightarrow> srv_settled s \<Longrightarrow> srv_revision t = srv_revision s \<Longrightarrow> srv_settled t"
proof (induction rule: srv_later.induct)
  case (wrote s t e dia q)
  have "later (sdb s) (sdb t)" "later (sdb t) (snd (perform e dia q (sdb t)))"
    using srv_later_db[OF wrote.hyps] later.wrote[OF later.same] by auto
  moreover have "db_revision (snd (perform e dia q (sdb t))) = db_revision (sdb s)"
    using wrote.prems(2) by (simp add: srv_revision_def)
  ultimately have "db_revision (sdb t) = db_revision (sdb s)" using db.revision_mono by (metis antisym)
  then show ?case using wrote.IH wrote.prems by (simp add: srv_settled_def srv_revision_def)
next
  case (beat_read s t e rv)
  have "rv = db_revision (sdb t)" using ReadRevision_db[OF beat_read.hyps(3)] .
  then show ?case using beat_read by (simp add: srv_settled_def srv_revision_def)
qed (auto simp: srv_settled_def srv_revision_def)

section \<open>The source keeps its contract\<close>

text \<open>
  One poll over HTTP: the wait begins when the service is \<open>s0\<close> and ends, for a reason, when it is
  \<open>s1\<close>; then the handler makes its store calls.
\<close>

definition http_poll ::
    "serverenv \<Rightarrow> Dialect \<Rightarrow> PollRequest \<Rightarrow> service \<Rightarrow> wake \<Rightarrow> service \<Rightarrow> service \<Rightarrow> (dbenv \<times> service) \<Rightarrow>
     (dbenv \<times> service) \<Rightarrow> (dbenv \<times> service) \<Rightarrow> poll_error + Snapshot option" where
  "http_poll se dia q s0 why s1 s2 c0 c1 c2 =
     poll_answer (watch_response se
       (handleWatch dia (watch_request q) (swatch s0) why (swatch s1) (swatch s2)
          (apsnd sdb c0) (apsnd sdb c1) (apsnd sdb c2)))"

text \<open>
  A snapshot arrives as it was sent when its texts are valid UTF-8, its revision is an \<open>int64\<close> and
  its document fits into the client's limit.
\<close>

definition deliverable :: "Snapshot \<Rightarrow> bool" where
  "deliverable s \<longleftrightarrow> wire_ok s \<and> (\<forall>b. marshal_snapshot s = Some b \<longrightarrow> length b \<le> maxBodySize)"

definition http_polls ::
    "serverenv \<Rightarrow> (string \<Rightarrow> string) \<Rightarrow> Dialect \<Rightarrow> service \<Rightarrow> service \<Rightarrow> int \<Rightarrow> string list \<Rightarrow>
     (int \<times> CConfig list) option \<Rightarrow> bool" where
  "http_polls se coll dia s t since ps out \<longleftrightarrow>
     (\<exists>q s0 why s1 s2 e0 m0 e1 m1 e2 m2.
        Since q = since \<and> since \<le> max_int64 \<and> Prefixes q = ps \<and> collate e2 = coll \<and>
        srv_later s s0 \<and> srv_later s0 s1 \<and> srv_later s1 s2 \<and> srv_later s2 m0 \<and> srv_later m0 m1 \<and>
        srv_later m1 m2 \<and> srv_later m2 t \<and>
        (\<forall>n sn. handleWatch dia (watch_request q) (swatch s0) why (swatch s1) (swatch s2)
             (e0, sdb m0) (e1, sdb m1) (e2, sdb m2) = Reply n (BSnapshot sn) \<longrightarrow> deliverable sn) \<and>
        http_poll se dia q s0 why s1 s2 (e0, m0) (e1, m1) (e2, m2) =
          Inr (map_option (\<lambda>(l, cs). \<lparr>sRevision = l, sConfigs = cs\<rparr>) out))"

lemma http_poll_some:
  assumes "http_poll se dia q s0 why s1 s2 (e0, m0) (e1, m1) (e2, m2) = Inr (Some s)"
    and "\<And>n sn. handleWatch dia (watch_request q) (swatch s0) why (swatch s1) (swatch s2)
      (e0, sdb m0) (e1, sdb m1) (e2, sdb m2) = Reply n (BSnapshot sn) \<Longrightarrow> deliverable sn"
  shows "handleWatch dia (watch_request q) (swatch s0) why (swatch s1) (swatch s2)
      (e0, sdb m0) (e1, sdb m1) (e2, sdb m2) = Reply 200 (BSnapshot s)"
proof -
  let ?h = "handleWatch dia (watch_request q) (swatch s0) why (swatch s1) (swatch s2)
      (e0, sdb m0) (e1, sdb m1) (e2, sdb m2)"
  obtain b where h: "?h = Reply 200 b"
    using assms(1)
    by (cases ?h) (auto simp: http_poll_def watch_response_def poll_answer_def split: if_splits)
  have "b \<noteq> NoBody"
    using assms(1) h by (auto simp: http_poll_def watch_response_def poll_answer_def unmarshal_snapshot_def)
  then obtain sn where b: "b = BSnapshot sn" using handleWatch_200[OF h] by blast
  then have d: "deliverable sn" using assms(2) h by simp
  then obtain t where t: "marshal_snapshot sn = Some t" using marshal_some by (auto simp: deliverable_def)
  have "unmarshal_snapshot (take maxBodySize t) = Some sn"
    using d t unmarshal_marshal[OF _ t] by (simp add: deliverable_def)
  then have "http_poll se dia q s0 why s1 s2 (e0, m0) (e1, m1) (e2, m2) = Inr (Some sn)"
    using h b t by (simp add: http_poll_def watch_response_def poll_answer_def)
  then show ?thesis using h b assms(1) by simp
qed

lemma http_poll_none:
  assumes "http_poll se dia q s0 why s1 s2 (e0, m0) (e1, m1) (e2, m2) = Inr None"
  shows "handleWatch dia (watch_request q) (swatch s0) why (swatch s1) (swatch s2)
      (e0, sdb m0) (e1, sdb m1) (e2, sdb m2) = Reply 304 NoBody"
proof -
  let ?h = "handleWatch dia (watch_request q) (swatch s0) why (swatch s1) (swatch s2)
      (e0, sdb m0) (e1, sdb m1) (e2, sdb m2)"
  obtain b where h: "?h = Reply 304 b"
    using assms(1)
    by (cases ?h) (auto simp: http_poll_def watch_response_def poll_answer_def split: if_splits option.splits)
  then show ?thesis using handleWatch_304_iff[THEN iffD1, OF h] by simp
qed

text \<open>What a poll that returned a snapshot tells.\<close>

lemma http_pollsE:
  assumes "http_polls se coll dia s t since ps out"
  obtains q s0 why s1 s2 e0 m0 e1 m1 e2 m2 where
    "Since q = since" "since \<le> max_int64" "Prefixes q = ps" "collate e2 = coll"
    "srv_later s s0" "srv_later s0 s1" "srv_later s1 s2" "srv_later s2 m0" "srv_later m0 m1"
    "srv_later m1 m2" "srv_later m2 t"
    "\<forall>n sn. handleWatch dia (watch_request q) (swatch s0) why (swatch s1) (swatch s2)
       (e0, sdb m0) (e1, sdb m1) (e2, sdb m2) = Reply n (BSnapshot sn) \<longrightarrow> deliverable sn"
    "http_poll se dia q s0 why s1 s2 (e0, m0) (e1, m1) (e2, m2) =
       Inr (map_option (\<lambda>(l, cs). \<lparr>sRevision = l, sConfigs = cs\<rparr>) out)"
  using assms unfolding http_polls_def by (elim exE conjE) (erule (12) that)

lemma http_polls_some:
  assumes "http_polls se coll dia s t since ps (Some (l, d))"
  shows "\<exists>rv s1 s2 m0 m1 m2. srv_later s s1 \<and> srv_later s1 s2 \<and> srv_later s2 m0 \<and> srv_later m0 m1 \<and> srv_later m1 m2 \<and> srv_later m2 t \<and>
    d = srv_rows coll m2 ps \<and> l = min rv (srv_revision m1) \<and>
    ((\<exists>s0. srv_later s s0 \<and> srv_later s0 s1 \<and> rv = wRev (swatch s0)) \<or> rv = wRev (swatch s1) \<or>
     wReady (swatch s2) \<and> rv = wRev (swatch s2) \<or> \<not> wReady (swatch s2) \<and> rv = srv_revision m0)"
  using assms
proof (rule http_pollsE)
  fix q s0 why s1 s2 e0 m0 e1 m1 e2 m2
  assume q: "Since q = since" "since \<le> max_int64" "Prefixes q = ps" "collate e2 = coll"
    and l: "srv_later s s0" "srv_later s0 s1" "srv_later s1 s2" "srv_later s2 m0" "srv_later m0 m1"
      "srv_later m1 m2" "srv_later m2 t"
    and del0: "\<forall>n sn. handleWatch dia (watch_request q) (swatch s0) why (swatch s1) (swatch s2)
       (e0, sdb m0) (e1, sdb m1) (e2, sdb m2) = Reply n (BSnapshot sn) \<longrightarrow> deliverable sn"
    and poll0: "http_poll se dia q s0 why s1 s2 (e0, m0) (e1, m1) (e2, m2) =
       Inr (map_option (\<lambda>(l, cs). \<lparr>sRevision = l, sConfigs = cs\<rparr>) (Some (l, d)))"
  have poll: "http_poll se dia q s0 why s1 s2 (e0, m0) (e1, m1) (e2, m2) =
       Inr (Some \<lparr>sRevision = l, sConfigs = d\<rparr>)" using poll0 by simp
  note del = del0[rule_format]
  have reply: "handleWatch dia (watch_request q) (swatch s0) why (swatch s1) (swatch s2)
      (e0, sdb m0) (e1, sdb m1) (e2, sdb m2) = Reply 200 (BSnapshot \<lparr>sRevision = l, sConfigs = d\<rparr>)"
    by (rule http_poll_some[OF poll]) (rule del)
  from handleWatch_snapshot[OF reply] obtain sn ps' rv where
      ps': "request_prefixes (watch_request q) = Inr ps'"
      and rv: "if fst (Wait sn (swatch s0) why (swatch s1)) < 0 then observedRevision (swatch s2) (e0, sdb m0) = Inr rv
        else rv = fst (Wait sn (swatch s0) why (swatch s1))"
      and snap: "server_snapshot dia rv ps' (e1, sdb m1) (e2, sdb m2) = Inr \<lparr>sRevision = l, sConfigs = d\<rparr>"
    by auto
  note low = server_snapshot_low[OF snap]
  have "under ps' = under ps" using request_prefixes_under[OF ps'] watch_request_reads(2) q by simp
  then have d: "d = srv_rows coll m2 ps"
    using low(2) q db_rows_under[of ps' ps] by (simp add: srv_rows_def)
  have lab: "l = min rv (srv_revision m1)" using low(1) by (simp add: srv_revision_def)
  have wt: "fst (Wait sn (swatch s0) why (swatch s1)) \<in> {wRev (swatch s0), wRev (swatch s1)}"
    by (cases why) (auto simp: Wait_def wait_begin_def current_def)
  have ob: "observedRevision (swatch s2) (e0, sdb m0) = Inr rv \<Longrightarrow>
      wReady (swatch s2) \<and> rv = wRev (swatch s2) \<or> \<not> wReady (swatch s2) \<and> rv = srv_revision m0"
    using ReadRevision_db by (auto simp: observedRevision_def health_def srv_revision_def split: if_splits)
  have "(\<exists>s0. srv_later s s0 \<and> srv_later s0 s1 \<and> rv = wRev (swatch s0)) \<or> rv = wRev (swatch s1) \<or>
     wReady (swatch s2) \<and> rv = wRev (swatch s2) \<or> \<not> wReady (swatch s2) \<and> rv = srv_revision m0"
    using rv wt ob l(1,2) by (cases "fst (Wait sn (swatch s0) why (swatch s1)) < 0") auto
  moreover have "srv_later s s1" by (rule srv_later_trans[OF l(1,2)])
  ultimately show ?thesis using l(3-) d lab by blast
qed

interpretation httpsource: poll_source srv_revision "srv_rows coll" srv_later "http_polls se coll dia" srv_settled
proof
  fix s t since p out
  assume "http_polls se coll dia s t since p out"
  then show "srv_later s t"
    by (rule http_pollsE) (blast intro: srv_later_trans)
next
  fix s t since p l d
  assume "http_polls se coll dia s t since p (Some (l, d))"
  from http_polls_some[OF this] obtain rv m1 m2 where
      "srv_later m1 m2" "srv_later m2 t" "d = srv_rows coll m2 p" "l \<le> srv_revision m1" by auto
  then show "srv.low_label coll t p l d"
    using srv.smaller_label srv.revision_then_rows by blast
next
  fix s since p l d
  assume set: "srv_settled s" and "http_polls se coll dia s s since p (Some (l, d))"
  from http_polls_some[OF this(2)] obtain rv s1 s2 m0 m1 m2 where
      l: "srv_later s s1" "srv_later s1 s2" "srv_later s2 m0" "srv_later m0 m1" "srv_later m1 m2" "srv_later m2 s"
      and lab: "l = min rv (srv_revision m1)"
      and rv: "(\<exists>s0. srv_later s s0 \<and> srv_later s0 s1 \<and> rv = wRev (swatch s0)) \<or> rv = wRev (swatch s1) \<or>
        wReady (swatch s2) \<and> rv = wRev (swatch s2) \<or> \<not> wReady (swatch s2) \<and> rv = srv_revision m0" by blast
  have same: "srv_revision m = srv_revision s \<and> srv_settled m" if "srv_later s m" "srv_later m s" for m
  proof -
    have "srv_revision m = srv_revision s"
      using srv.revision_mono[OF that(1)] srv.revision_mono[OF that(2)] by simp
    then show ?thesis using srv_settled_stays[OF that(1) set] by simp
  qed
  have r1: "srv_later m1 s" by (rule srv_later_trans[OF l(5,6)])
  have r2: "srv_later m0 s" by (rule srv_later_trans[OF l(4) r1])
  have r3: "srv_later s2 s" by (rule srv_later_trans[OF l(3) r2])
  have r4: "srv_later s1 s" by (rule srv_later_trans[OF l(2) r3])
  have f1: "srv_later s s2" by (rule srv_later_trans[OF l(1,2)])
  have f2: "srv_later s m0" by (rule srv_later_trans[OF f1 l(3)])
  have f3: "srv_later s m1" by (rule srv_later_trans[OF f2 l(4)])
  have "rv = srv_revision s"
    using rv
  proof (elim disjE)
    assume "\<exists>s0. srv_later s s0 \<and> srv_later s0 s1 \<and> rv = wRev (swatch s0)"
    then obtain s0 where s0: "srv_later s s0" "srv_later s0 s1" "rv = wRev (swatch s0)" by blast
    then show ?thesis using same[OF s0(1) srv_later_trans[OF s0(2) r4]] by (simp add: srv_settled_def)
  qed (use same[OF l(1) r4] same[OF f1 r3] same[OF f2 r2] in \<open>auto simp: srv_settled_def\<close>)
  then show "l = srv_revision s" using lab same[OF f3 r1] by simp
next
  fix s since p
  assume set: "srv_settled s" and "http_polls se coll dia s s since p None"
  from this(2) show "since = srv_revision s"
  proof (rule http_pollsE)
  fix q s0 why s1 s2 e0 m0 e1 m1 e2 m2
  assume q: "Since q = since" "since \<le> max_int64"
    and l: "srv_later s s0" "srv_later s0 s1" "srv_later s1 s2" "srv_later s2 m0" "srv_later m0 m1"
      "srv_later m1 m2" "srv_later m2 s"
    and "http_poll se dia q s0 why s1 s2 (e0, m0) (e1, m1) (e2, m2) =
       Inr (map_option (\<lambda>(l, cs). \<lparr>sRevision = l, sConfigs = cs\<rparr>) None)"
  then have poll: "http_poll se dia q s0 why s1 s2 (e0, m0) (e1, m1) (e2, m2) = Inr None" by simp
  have "srv_later s0 s" by (rule srv_later_trans[OF l(2) srv_later_trans[OF l(3) srv_later_trans[OF l(4)
    srv_later_trans[OF l(5) srv_later_trans[OF l(6,7)]]]]])
  then have "srv_revision s0 = srv_revision s"
    using srv.revision_mono[OF l(1)] srv.revision_mono by fastforce
  then have w: "wRev (swatch s0) = srv_revision s"
    using srv_settled_stays[OF l(1) set] by (simp add: srv_settled_def)
  obtain sn where "request_since (watch_request q) = Inr sn" "0 \<le> sn" "wRev (swatch s0) = sn"
    using http_poll_none[OF poll] handleWatch_304_iff by auto
  then show "since = srv_revision s"
    using w watch_request_reads(1)[of q] q by (auto split: if_splits)
  qed
qed

end
