(* ===== verification/Client_Inv.thy ===== *)
theory Client_Inv
  imports Client_Core
begin

text \<open>
  Lemmas on the client's operations: what each leaves unchanged, the calls a notification
  makes, atomicity of the fallback file, the delays of the refresh loop, and the invariant that
  every watcher has last been given the content the client now holds under its prefix.
\<close>

section \<open>Contents\<close>

text \<open>What a key says in a view: value and format, or nothing.\<close>

definition content :: "view \<Rightarrow> string \<Rightarrow> (string \<times> string) option" where
  "content v k = map_option (\<lambda>c. (eValue c, eFormat c)) (lookup v k)"

lemma differs_content: "differs old new k \<longleftrightarrow> content old k \<noteq> content new k"
  by (simp add: differs_def content_def)

definition same_under :: "string \<Rightarrow> view \<Rightarrow> view \<Rightarrow> bool" where
  "same_under p v w \<longleftrightarrow> (\<forall>k. prefix p k \<longrightarrow> content v k = content w k)"

lemma same_under_refl [simp]: "same_under p v v"
  by (simp add: same_under_def)

lemma same_under_trans: "same_under p u v \<Longrightarrow> same_under p v w \<Longrightarrow> same_under p u w"
  by (simp add: same_under_def)

lemma filterPrefix_Nil_iff:
  assumes "fair_order ord"
  shows "filterPrefix (diff ord old new) p = [] \<longleftrightarrow> same_under p old new"
proof -
  have "filterPrefix (diff ord old new) p = [] \<longleftrightarrow> (\<forall>k\<in>set (diff ord old new). \<not> prefix p k)"
    by (auto simp: filterPrefix_def filter_empty_conv)
  then show ?thesis using set_diff[OF assms] by (auto simp: same_under_def differs_content)
qed

section \<open>What a notification changes\<close>

lemma safely_simps [simp]:
  "opt (safely e kind p ev c) = opt c" "snap (safely e kind p ev c) = snap c"
  "seeded (safely e kind p ev c) = seeded c" "lastSuccess (safely e kind p ev c) = lastSuccess c"
  "consecutiveFail (safely e kind p ev c) = consecutiveFail c" "lastErr (safely e kind p ev c) = lastErr c"
  "watchers (safely e kind p ev c) = watchers c" "closed (safely e kind p ev c) = closed c"
  "canceled (safely e kind p ev c) = canceled c" "src_closes (safely e kind p ev c) = src_closes c"
  "disk (safely e kind p ev c) = disk c"
  by (simp_all add: safely_def)

text \<open>The calls in a trace; the log entries of contained panics are left out.\<close>

definition is_call :: "event \<Rightarrow> bool" where
  "is_call ev = (case ev of PanicIgnored _ _ \<Rightarrow> False | _ \<Rightarrow> True)"

definition calls :: "client \<Rightarrow> event list" where
  "calls c = filter is_call (trace c)"

lemma calls_safely [simp]: "is_call ev \<Longrightarrow> calls (safely e kind p ev c) = calls c @ [ev]"
  by (simp add: calls_def safely_def is_call_def)

definition same_but_trace :: "client \<Rightarrow> client \<Rightarrow> bool" where
  "same_but_trace c c' \<longleftrightarrow> c'\<lparr>trace := []\<rparr> = c\<lparr>trace := []\<rparr>"

lemma same_but_trace_refl [simp]: "same_but_trace c c"
  by (simp add: same_but_trace_def)

lemma same_but_trace_safely [simp]: "same_but_trace c (safely e kind p ev c') \<longleftrightarrow> same_but_trace c c'"
  by (simp add: same_but_trace_def safely_def)

lemma same_but_traceD:
  assumes "same_but_trace c c'"
  shows "opt c' = opt c" "snap c' = snap c" "seeded c' = seeded c" "lastSuccess c' = lastSuccess c"
    "consecutiveFail c' = consecutiveFail c" "lastErr c' = lastErr c" "watchers c' = watchers c"
    "closed c' = closed c" "canceled c' = canceled c" "src_closes c' = src_closes c" "disk c' = disk c"
proof -
  have "f (c'\<lparr>trace := []\<rparr>) = f (c\<lparr>trace := []\<rparr>)" for f :: "client \<Rightarrow> 'z"
    using assms by (simp add: same_but_trace_def)
  from this show "opt c' = opt c" by (metis client.select_convs(1) client.surjective client.update_convs(12))
qed (use assms in \<open>(cases c; cases c'; simp add: same_but_trace_def)+\<close>)

definition watch_calls :: "bool \<Rightarrow> view \<Rightarrow> string list \<Rightarrow> (string \<times> nat) list \<Rightarrow> event list" where
  "watch_calls st v changed ws =
     map (\<lambda>(p, fn). WatchCall fn \<lparr>gPrefix = p, gSnap = v, gStrict = st\<rparr>)
       (filter (\<lambda>(p, fn). filterPrefix changed p \<noteq> []) ws)"

definition change_calls :: "string list \<Rightarrow> string list \<Rightarrow> event list" where
  "change_calls changed ps =
     map (\<lambda>p. ChangeCall p (filterPrefix changed p)) (filter (\<lambda>p. filterPrefix changed p \<noteq> []) ps)"

lemma notify_watchers_effect:
  "same_but_trace c (notify_watchers e v changed ws c) \<and>
   calls (notify_watchers e v changed ws c) = calls c @ watch_calls (strict (opt c)) v changed ws"
proof (induction e v changed ws c rule: notify_watchers.induct)
  case (1 e v changed c)
  then show ?case by (simp add: watch_calls_def)
next
  case (2 e v changed p fn ws c)
  show ?case
  proof (cases "filterPrefix changed p = []")
    case True
    then show ?thesis using "2.IH"(1) by (simp add: watch_calls_def)
  next
    case False
    have tr: "same_but_trace c c'" if "same_but_trace (safely e k p ev c) c'" for c' k ev
      using that by (simp add: same_but_trace_def safely_def)
    show ?thesis using "2.IH"(2)[OF False] False tr by (auto simp: watch_calls_def is_call_def)
  qed
qed

lemma notify_changes_effect:
  "same_but_trace c (notify_changes e changed ps c) \<and>
   calls (notify_changes e changed ps c) = calls c @ change_calls changed ps"
proof (induction e changed ps c rule: notify_changes.induct)
  case (1 e changed c)
  then show ?case by (simp add: change_calls_def)
next
  case (2 e changed p ps c)
  show ?case
  proof (cases "filterPrefix changed p = []")
    case True
    then show ?thesis using "2.IH"(1) by (simp add: change_calls_def)
  next
    case False
    have tr: "same_but_trace c c'" if "same_but_trace (safely e k p ev c) c'" for c' k ev
      using that by (simp add: same_but_trace_def safely_def)
    show ?thesis using "2.IH"(2)[OF False] False tr by (auto simp: change_calls_def is_call_def)
  qed
qed

definition expected_calls :: "client \<Rightarrow> view \<Rightarrow> string list \<Rightarrow> event list" where
  "expected_calls c v changed =
     watch_calls (strict (opt c)) v changed (watchers c) @
     (if onChange (opt c) then change_calls changed (notifyPrefixes c) else [])"

lemma notify_effect:
  "same_but_trace c (notify e v changed c) \<and>
   calls (notify e v changed c) = calls c @ expected_calls c v changed"
proof -
  let ?c' = "notify_watchers e v changed (watchers c) c"
  have w: "same_but_trace c ?c'"
    "calls ?c' = calls c @ watch_calls (strict (opt c)) v changed (watchers c)"
    using notify_watchers_effect by auto
  have n: "same_but_trace ?c' (notify_changes e changed ps ?c')"
    "calls (notify_changes e changed ps ?c') = calls ?c' @ change_calls changed ps" for ps
    using notify_changes_effect by auto
  have ps: "notifyPrefixes ?c' = notifyPrefixes c" "opt ?c' = opt c"
    using same_but_traceD[OF w(1)] by (simp_all add: notifyPrefixes_def)
  show ?thesis
    using w n(1)[of "notifyPrefixes c"] n(2)[of "notifyPrefixes c"]
    by (auto simp: notify_def Let_def expected_calls_def ps same_but_trace_def)
qed

section \<open>What \<open>apply\<close> does\<close>

lemma expected_calls_Nil [simp]: "expected_calls c v [] = []"
  by (simp add: expected_calls_def watch_calls_def change_calls_def filterPrefix_def)

definition fallback_due :: "clienv \<Rightarrow> view \<Rightarrow> client \<Rightarrow> bool" where
  "fallback_due e v c \<longleftrightarrow>
     fallbackPath (opt c) \<noteq> [] \<and> (diff (map_iter e) (snap c) v \<noteq> [] \<or> \<not> seeded c)"

lemma apply_effect:
  assumes c': "c' = apply_snapshot e s notif c" and v: "v = newView s"
  shows "snap c' = v" "opt c' = opt c" "watchers c' = watchers c" "closed c' = closed c"
    "canceled c' = canceled c" "src_closes c' = src_closes c" "lastSuccess c' = lastSuccess c"
    "consecutiveFail c' = consecutiveFail c" "lastErr c' = lastErr c"
    "disk c' = (if fallback_due e v c then snd (writeFallback e v (disk c)) else disk c)"
    "seeded c' = (seeded c \<or> fallback_due e v c \<and> fst (writeFallback e v (disk c)))"
    "calls c' = calls c @ (if notif then expected_calls c v (diff (map_iter e) (snap c) v) else [])"
proof -
  let ?ch = "diff (map_iter e) (snap c) v"
  define c2 where "c2 = (if fallback_due e v c
      then c\<lparr>snap := v, disk := snd (writeFallback e v (disk c)),
             seeded := seeded c \<or> fst (writeFallback e v (disk c))\<rparr>
      else c\<lparr>snap := v\<rparr>)"
  have c2: "apply_snapshot e s notif c = (if ?ch \<noteq> [] \<and> notif then notify e v ?ch c2 else c2)"
    by (cases "writeFallback e v (disk c)")
       (simp add: apply_snapshot_def Let_def c2_def v fallback_due_def)
  have st: "same_but_trace c2 c'" "calls c' = calls c2 @ (if notif then expected_calls c2 v ?ch else [])"
    using notify_effect[of c2 e v ?ch] by (auto simp: c' c2)
  have ex: "expected_calls c2 v ?ch = expected_calls c v ?ch" "calls c2 = calls c"
    by (simp_all add: c2_def expected_calls_def notifyPrefixes_def calls_def)
  show "calls c' = calls c @ (if notif then expected_calls c v ?ch else [])" using st(2) ex by simp
  show "snap c' = v" "opt c' = opt c" "watchers c' = watchers c" "closed c' = closed c"
    "canceled c' = canceled c" "src_closes c' = src_closes c" "lastSuccess c' = lastSuccess c"
    "consecutiveFail c' = consecutiveFail c" "lastErr c' = lastErr c"
    "disk c' = (if fallback_due e v c then snd (writeFallback e v (disk c)) else disk c)"
    "seeded c' = (seeded c \<or> fallback_due e v c \<and> fst (writeFallback e v (disk c)))"
    using same_but_traceD[OF st(1)] by (simp_all add: c2_def)
qed

lemmas apply_simps [simp] = apply_effect(1-9)[OF refl refl]
lemmas apply_disk = apply_effect(10,11)[OF refl refl]
lemmas apply_calls = apply_effect(12)[OF refl refl]

section \<open>The fallback file\<close>

text \<open>
  The process may stop after any number of the steps of \<open>writeFallback\<close>; a write that is cut
  short leaves the bytes of \<open>partial_write\<close> in the temporary file.
\<close>

lemma fb_exec_main:
  "main_file (snd (fb_exec e st k)) = main_file k \<or>
   st = FbRename \<and> main_file (snd (fb_exec e st k)) = tmp_file k \<and> tmp_file k \<noteq> None \<or>
   st = FbChmod \<and> map_option fst (main_file (snd (fb_exec e st k))) = map_option fst (main_file k)"
  by (cases st) (auto simp: Let_def option.map_comp comp_def case_prod_unfold)

lemma fb_crash:
  "map_option fst (main_file (snd (fb_run e (take n (fb_steps data)) k)))
     \<in> {map_option fst (main_file k), Some data}"
proof -
  have n: "take n (fb_steps data) \<in>
      {[], [FbWriteTmp data], [FbWriteTmp data, FbRename], [FbWriteTmp data, FbRename, FbChmod]}"
    by (cases n; simp add: fb_steps_def; rename_tac m; case_tac m; simp; rename_tac m'; case_tac m'; simp)
  show ?thesis
    using n by (auto simp: Let_def split: option.splits if_splits)
qed

lemma fb_complete:
  "fst (fb_run e (fb_steps data) k) \<Longrightarrow>
   main_file (snd (fb_run e (fb_steps data) k)) = Some (data, fallbackFileMode)"
  by (auto simp: fb_steps_def Let_def split: if_splits)

lemma fb_no_fault:
  assumes "\<And>op'. \<not> fs_fault e op'"
  shows "fb_run e (fb_steps data) k =
    (True, k\<lparr>main_file := Some (data, fallbackFileMode), tmp_file := None\<rparr>)"
  using assms by (auto simp: fb_steps_def Let_def)

text \<open>Two views that hold the same: revision, keys, and the configuration of each key.\<close>

definition view_eq :: "view \<Rightarrow> view \<Rightarrow> bool" where
  "view_eq v w \<longleftrightarrow> vRevision v = vRevision w \<and> keys v = keys w \<and> lookup v = lookup w"

lemma wf_view_toWire:
  assumes "wf_view v"
  shows "map eKey (sConfigs (toWire v)) = keys v"
    "c \<in> set (sConfigs (toWire v)) \<longleftrightarrow> lookup v (eKey c) = Some c"
proof -
  have l: "\<exists>c. lookup v k = Some c \<and> eKey c = k" if "k \<in> set (keys v)" for k
    using wf_view_lookup[OF assms] that by fastforce
  then show "map eKey (sConfigs (toWire v)) = keys v"
    by (auto simp: toWire_def lookup_def[symmetric] intro!: map_idI dest: l split: option.splits)
  have "c \<in> set (sConfigs (toWire v)) \<longleftrightarrow> (\<exists>k\<in>set (keys v). lookup v k = Some c)"
    using l by (force simp: toWire_def lookup_def[symmetric] split: option.splits)
  also have "\<dots> \<longleftrightarrow> lookup v (eKey c) = Some c"
    using wf_view_lookup[OF assms] by blast
  finally show "c \<in> set (sConfigs (toWire v)) \<longleftrightarrow> lookup v (eKey c) = Some c" .
qed

lemma newView_toWire:
  assumes "wf_view v"
  shows "view_eq (newView (toWire v)) v"
proof -
  have ks: "distinct (keys v)" "sorted (keys v)" using assms by (simp_all add: wf_view_def)
  have wf: "wf_snapshot (toWire v)" using ks by (simp add: wf_snapshot_def wf_view_toWire[OF assms])
  have "lookup (newView (toWire v)) k = lookup v k" for k
  proof (cases "lookup v k")
    case None
    then have "lookup (newView (toWire v)) k \<noteq> Some c" for c
      using lookup_wf_snapshot[OF wf] wf_view_toWire(2)[OF assms] by auto
    then show ?thesis using None by (cases "lookup (newView (toWire v)) k") auto
  next
    case (Some c)
    then have "eKey c = k" using wf_view_lookup(1)[OF assms] by simp
    then show ?thesis
      using Some lookup_wf_snapshot[OF wf] wf_view_toWire(2)[OF assms, of c] by simp
  qed
  then show ?thesis
    using ks by (simp add: view_eq_def wf_view_toWire[OF assms] sorted_sort_id fun_eq_iff) (simp add: toWire_def)
qed

definition wire_view :: "view \<Rightarrow> bool" where
  "wire_view v \<longleftrightarrow> wf_view v \<and> wire_ok (toWire v)"

lemma wire_newView:
  assumes "wf_snapshot s" and "wire_ok s"
  shows "wire_view (newView s)"
proof -
  have wf: "wf_view (newView s)" by (rule wf_newView[OF assms(1)])
  have "wire_config c" if "c \<in> set (sConfigs (toWire (newView s)))" for c
  proof -
    have "lookup (newView s) (eKey c) = Some c" using that wf_view_toWire(2)[OF wf] by simp
    then have "c \<in> set (sConfigs s)" using lookup_wf_snapshot[OF assms(1)] by simp
    then show ?thesis using assms(2) by (simp add: wire_ok_def)
  qed
  moreover have "sRevision (toWire (newView s)) = sRevision s" by (simp add: toWire_def)
  ultimately show ?thesis using wf assms(2) by (simp add: wire_view_def wire_ok_def)
qed

lemma writeFallback_read:
  assumes "fst (writeFallback e v k)" and "wire_view v" and "\<not> fs_fault e' ReadFile"
  shows "\<exists>w. readFallback e' (snd (writeFallback e v k)) = Some w \<and> view_eq w v"
proof -
  obtain data where data: "marshal_snapshot (toWire v) = Some data"
    using marshal_some assms(2) by (auto simp: wire_view_def)
  have mk: "fst (fb_exec e FbMkdir k)" using assms(1) by (auto simp: writeFallback_def)
  then have wr: "writeFallback e v k = fb_run e (fb_steps data) k"
    using data by (simp add: writeFallback_def)
  have "main_file (snd (writeFallback e v k)) = Some (data, fallbackFileMode)"
    using fb_complete[of e data k] assms(1) by (simp add: wr)
  moreover have "unmarshal_snapshot data = Some (toWire v)"
    using unmarshal_marshal[OF _ data] assms(2) by (simp add: wire_view_def)
  ultimately show ?thesis
    using assms(2,3) newView_toWire[of v] by (auto simp: readFallback_def wire_view_def)
qed

section \<open>Executions of a client\<close>

text \<open>The executions: a start that succeeded, then iterations of the loop, registrations, closes.\<close>

inductive client_reach :: "clienv \<Rightarrow> client \<Rightarrow> bool" for e where
  start: "New e poll t opts k = (None, c) \<Longrightarrow> client_reach e c"
| iterate: "client_reach e c \<Longrightarrow> run_iteration e it b c = (l, w, c') \<Longrightarrow> client_reach e c'"
| watch: "client_reach e c \<Longrightarrow> fn \<notin> snd ` set (watchers c) \<Longrightarrow> client_reach e (Watch e p fn c)"
| close: "client_reach e c \<Longrightarrow> client_reach e (Close c)"

lemma markSuccess_simps [simp]:
  "opt (markSuccess t c) = opt c" "snap (markSuccess t c) = snap c" "seeded (markSuccess t c) = seeded c"
  "watchers (markSuccess t c) = watchers c" "closed (markSuccess t c) = closed c"
  "src_closes (markSuccess t c) = src_closes c" "disk (markSuccess t c) = disk c"
  "calls (markSuccess t c) = calls c" "canceled (markSuccess t c) = canceled c"
  by (simp_all add: markSuccess_def calls_def)

lemma markFailure_simps [simp]:
  "opt (markFailure e x c) = opt c" "snap (markFailure e x c) = snap c" "seeded (markFailure e x c) = seeded c"
  "watchers (markFailure e x c) = watchers c" "closed (markFailure e x c) = closed c"
  "src_closes (markFailure e x c) = src_closes c" "disk (markFailure e x c) = disk c"
  "lastSuccess (markFailure e x c) = lastSuccess c" "canceled (markFailure e x c) = canceled c"
  "lastErr (markFailure e x c) = Some (error_string x)"
  "consecutiveFail (markFailure e x c) = int64 (consecutiveFail c + 1)"
  by (simp_all add: markFailure_def Let_def)

lemma calls_update [simp]:
  "calls (c\<lparr>consecutiveFail := n, lastErr := t\<rparr>) = calls c" "calls (c\<lparr>watchers := ws\<rparr>) = calls c"
  "calls (c\<lparr>snap := v\<rparr>) = calls c" "calls (c\<lparr>src_closes := m\<rparr>) = calls c"
  "calls (c\<lparr>closed := b\<rparr>) = calls c" "calls (c\<lparr>canceled := b\<rparr>) = calls c"
  by (simp_all add: calls_def)

lemma calls_markFailure [simp]:
  "calls (markFailure e x c) = calls c @ (if onError (opt c) then [ErrorCall x] else [])"
  by (simp add: markFailure_def Let_def is_call_def)

text \<open>How an iteration moves the client: it polls, and then only counts and reports.\<close>

lemma run_iteration_effect:
  assumes "run_iteration e it b c = (l, w, c')"
  shows "c' = c \<or> (\<exists>err c1. fetchOnce e (answer it) True c = (err, c1) \<and>
    (c' = c1 \<or> (\<exists>t. c' = markSuccess t c1) \<or> (\<exists>x. err = Some x \<and> c' = markFailure e x c1)))"
proof (cases "done_before it")
  case True
  then show ?thesis using assms by (simp add: run_iteration_def)
next
  case False
  obtain err c1 where f: "fetchOnce e (answer it) True c = (err, c1)"
    by (cases "fetchOnce e (answer it) True c")
  show ?thesis
    using assms f False by (cases err) (auto simp: run_iteration_def Let_def split: if_splits)
qed

lemma fetchOnce_effect:
  assumes "fetchOnce e poll notif c = (err, c1)"
  shows "(\<exists>x. err = Some x \<and> c1 = c \<and> poll (poll_request c) = Inl x) \<or>
    err = None \<and> (c1 = c \<and> poll (poll_request c) = Inr None \<or>
      (\<exists>s. poll (poll_request c) = Inr (Some s) \<and> c1 = apply_snapshot e s notif c))"
  using assms by (auto simp: fetchOnce_def split: sum.splits option.splits)

text \<open>A property of clients that every operation keeps holds along every execution.\<close>

lemma client_reach_invariant:
  assumes "client_reach e c"
    and start: "\<And>poll t opts k c. New e poll t opts k = (None, c) \<Longrightarrow> P c"
    and app: "\<And>s c. P c \<Longrightarrow> P (apply_snapshot e s True c)"
    and succ: "\<And>t c. P c \<Longrightarrow> P (markSuccess t c)"
    and fail: "\<And>x c. P c \<Longrightarrow> P (markFailure e x c)"
    and watch: "\<And>p fn c. P c \<Longrightarrow> fn \<notin> snd ` set (watchers c) \<Longrightarrow> P (Watch e p fn c)"
    and close: "\<And>c. P c \<Longrightarrow> P (Close c)"
  shows "P c"
  using assms(1)
proof (induction rule: client_reach.induct)
  case (iterate c it b l w c')
  have "P c1" if "fetchOnce e (answer it) True c = (err, c1)" for err c1
    using fetchOnce_effect[OF that] iterate.IH app by auto
  then show ?case using run_iteration_effect[OF iterate.hyps(2)] iterate.IH succ fail by auto
qed (use start watch close in auto)

lemma New_cases:
  assumes "New e poll t opts k = (r, c)"
  obtains (fetched) s where "poll (poll_request (fresh_client (build_options opts) k)) = Inr (Some s)"
      "0 \<le> sRevision s" "r = None"
      "c = markSuccess t (apply_snapshot e s False (fresh_client (build_options opts) k))"
  | (not_fetched) c0 where
      "c0 = fresh_client (build_options opts) k \<and>
          (\<forall>s. poll (poll_request (fresh_client (build_options opts) k)) \<noteq> Inr (Some s)) \<or>
        (\<exists>s. poll (poll_request (fresh_client (build_options opts) k)) = Inr (Some s) \<and> sRevision s < 0 \<and>
           c0 = apply_snapshot e s False (fresh_client (build_options opts) k))"
      "(\<exists>v. fallbackPath (opt c0) \<noteq> [] \<and> readFallback e (disk c0) = Some v \<and> r = None \<and> c = c0\<lparr>snap := v\<rparr>) \<or>
       (fallbackPath (opt c0) = [] \<or> readFallback e (disk c0) = None) \<and>
         (if degradeOnStart (opt c0) then r = None \<and> c = c0
          else r \<noteq> None \<and> c = c0\<lparr>src_closes := src_closes c0 + 1\<rparr>)"
proof -
  let ?c0 = "fresh_client (build_options opts) k"
  obtain err c1 where f: "fetchOnce e poll False ?c0 = (err, c1)" by (cases "fetchOnce e poll False ?c0")
  have h0: "\<not> hasSnapshot ?c0" by (simp add: hasSnapshot_def fresh_client_def emptyView_def)
  show thesis
  proof (cases "err = None \<and> hasSnapshot c1")
    case True
    then obtain s where s: "poll (poll_request ?c0) = Inr (Some s)" "c1 = apply_snapshot e s False ?c0"
      using fetchOnce_effect[OF f] h0 by auto
    have "0 \<le> sRevision s" using True s(2) by (simp add: hasSnapshot_def)
    then show thesis
      using assms f True s fetched[OF s(1)] by (auto simp: New_def Let_def hasSnapshot_def)
  next
    case False
    have c1: "c1 = ?c0 \<and> (\<forall>s. poll (poll_request ?c0) \<noteq> Inr (Some s)) \<or> (\<exists>s. poll (poll_request ?c0) = Inr (Some s) \<and> sRevision s < 0 \<and>
        c1 = apply_snapshot e s False ?c0)"
      using fetchOnce_effect[OF f] False by (auto simp: hasSnapshot_def)
    have cond: "err \<noteq> None \<or> \<not> hasSnapshot c1" using False by auto
    have n: "New e poll t opts k = (case loadFallback e c1 of (loaded, c3) \<Rightarrow>
              if loaded then (None, c3)
              else if degradeOnStart (opt c3) then (None, c3)
              else (Some (case err of Some x \<Rightarrow> x | None \<Rightarrow> ErrNoSnapshot),
                    c3\<lparr>src_closes := src_closes c3 + 1\<rparr>))"
      using False by (auto simp: New_def Let_def f)
    show thesis
      by (rule not_fetched[OF c1])
         (use assms n in \<open>auto simp: loadFallback_def split: if_splits option.splits\<close>)
  qed
qed

section \<open>Watchers\<close>

fun given :: "nat \<Rightarrow> event \<Rightarrow> Group option \<Rightarrow> Group option" where
  "given fn (WatchCall f g) r = (if f = fn then Some g else r)"
| "given fn _ r = r"

text \<open>The group that callback \<open>fn\<close> was last called with.\<close>

definition last_given :: "nat \<Rightarrow> client \<Rightarrow> Group option" where
  "last_given fn c = fold (given fn) (calls c) None"

definition watch_sync :: "client \<Rightarrow> bool" where
  "watch_sync c \<longleftrightarrow>
     distinct (map snd (watchers c)) \<and>
     (\<forall>(p, fn)\<in>set (watchers c). \<exists>g. last_given fn c = Some g \<and> gPrefix g = p \<and>
        same_under p (gSnap g) (snap c))"

lemma fold_given_watch:
  "distinct (map snd ws) \<Longrightarrow> fold (given fn) (watch_calls st v ch ws) r =
     (case find (\<lambda>(p, f). f = fn \<and> filterPrefix ch p \<noteq> []) ws of
        None \<Rightarrow> r | Some (p, f) \<Rightarrow> Some \<lparr>gPrefix = p, gSnap = v, gStrict = st\<rparr>)"
proof (induction ws arbitrary: r)
  case Nil
  then show ?case by (simp add: watch_calls_def)
next
  case (Cons a ws)
  obtain p f where a: "a = (p, f)" by (cases a)
  have none: "find (\<lambda>(p, f). f = fn \<and> filterPrefix ch p \<noteq> []) ws = None" if "f = fn"
    using Cons.prems a that by (force simp: find_None_iff)
  show ?case using Cons none a by (auto simp: watch_calls_def)
qed

lemma fold_given_changes [simp]: "fold (given fn) (change_calls ch ps) r = r"
  by (induction ps) (auto simp: change_calls_def)

lemma find_watcher:
  assumes "distinct (map snd ws)" and "(p, fn) \<in> set ws"
  shows "find (\<lambda>(p', f). f = fn \<and> P p') ws = (if P p then Some (p, fn) else None)"
  using assms
proof (induction ws)
  case Nil
  then show ?case by simp
next
  case (Cons a ws)
  obtain q f where a: "a = (q, f)" by (cases a)
  show ?case
  proof (cases "f = fn")
    case True
    then have "a = (p, fn)" "\<forall>x\<in>set ws. snd x \<noteq> fn" using Cons.prems a by force+
    then have "find (\<lambda>(p', f). f = fn \<and> P p') ws = None" by (auto simp: find_None_iff)
    then show ?thesis using \<open>a = (p, fn)\<close> by simp
  next
    case False
    then show ?thesis using Cons a by auto
  qed
qed

lemma watch_sync_apply:
  assumes "fair_order (map_iter e)" and "watch_sync c"
  shows "watch_sync (apply_snapshot e s True c)"
proof -
  let ?ch = "diff (map_iter e) (snap c) (newView s)"
  have d: "distinct (map snd (watchers c))" using assms(2) by (simp add: watch_sync_def)
  have "\<exists>g. last_given fn (apply_snapshot e s True c) = Some g \<and> gPrefix g = p \<and>
      same_under p (gSnap g) (newView s)" if w: "(p, fn) \<in> set (watchers c)" for p fn
  proof -
    obtain g where g: "last_given fn c = Some g" "gPrefix g = p" "same_under p (gSnap g) (snap c)"
      using assms(2) w by (auto simp: watch_sync_def)
    have eq: "last_given fn (apply_snapshot e s True c) =
        (if filterPrefix ?ch p \<noteq> [] then Some \<lparr>gPrefix = p, gSnap = newView s, gStrict = strict (opt c)\<rparr>
         else last_given fn c)"
      using find_watcher[OF d w, of "\<lambda>p. filterPrefix ?ch p \<noteq> []"]
      by (simp add: last_given_def apply_calls expected_calls_def fold_given_watch[OF d])
    show ?thesis
      using g filterPrefix_Nil_iff[OF assms(1), of "snap c" "newView s" p] same_under_trans
      by (cases "filterPrefix ?ch p = []") (auto simp: eq)
  qed
  then show ?thesis using d by (auto simp: watch_sync_def)
qed

lemma watch_sync_Watch:
  assumes "watch_sync c" and "fn \<notin> snd ` set (watchers c)"
  shows "watch_sync (Watch e p fn c)"
proof -
  have c: "calls (Watch e p fn c) = calls c @ [WatchCall fn (client_group p c)]"
    "snap (Watch e p fn c) = snap c" "watchers (Watch e p fn c) = watchers c @ [(p, fn)]"
    by (simp_all add: Watch_def Let_def is_call_def client_group_def)
  have old: "last_given f (Watch e p fn c) = last_given f c" if "f \<noteq> fn" for f
    using that by (simp add: last_given_def c)
  have new: "last_given fn (Watch e p fn c) = Some (client_group p c)" by (simp add: last_given_def c)
  have "f \<noteq> fn" if "(q, f) \<in> set (watchers c)" for q f using assms(2) that by force
  then show ?thesis
    using assms old new by (fastforce simp: watch_sync_def c client_group_def)
qed

lemma reach_watch_sync:
  assumes "client_reach e c" and "fair_order (map_iter e)"
  shows "watch_sync c"
  using assms(1)
proof (rule client_reach_invariant)
  fix poll t opts k c
  assume "New e poll t opts k = (None, c)"
  then have "watchers c = []"
    by (cases rule: New_cases) (auto simp: fresh_client_def split: if_splits)
  then show "watch_sync c" by (simp add: watch_sync_def)
next
  fix s c
  assume "watch_sync c"
  then show "watch_sync (apply_snapshot e s True c)" by (rule watch_sync_apply[OF assms(2)])
next
  fix p fn c
  assume "watch_sync c" "fn \<notin> snd ` set (watchers c)"
  then show "watch_sync (Watch e p fn c)" by (rule watch_sync_Watch)
qed (auto simp: watch_sync_def last_given_def Close_def)

section \<open>Backoff\<close>

definition valid_rand :: "(int \<Rightarrow> int) \<Rightarrow> bool" where
  "valid_rand f \<longleftrightarrow> (\<forall>n>0. 0 \<le> f n \<and> f n < n)"

lemma jitter_bounds:
  assumes "valid_rand f" and "0 \<le> d"
  shows "3 * d \<le> 4 * jitter f d \<and> 4 * jitter f d \<le> 5 * d"
proof (cases "d div 2 \<le> 0")
  case True
  then show ?thesis using assms(2) by (simp add: jitter_def)
next
  case False
  then have "0 \<le> f (d div 2)" "f (d div 2) < d div 2" using assms(1) by (auto simp: valid_rand_def)
  moreover have "2 * (d div 2) \<le> d" "2 * (d div 2 div 2) \<le> d div 2" "d div 2 - 1 \<le> 2 * (d div 2 div 2)"
    by linarith+
  moreover have "jitter f d = d - d div 2 div 2 + f (d div 2)"
    using False assms(2) by (simp add: jitter_def Let_def)
  ultimately show ?thesis by linarith
qed

text \<open>A failing iteration: an error that is not the end of the poll's own time, and no cancellation.\<close>

definition fails :: "iteration \<Rightarrow> bool" where
  "fails it \<longleftrightarrow> \<not> done_before it \<and> \<not> done_after it \<and> \<not> done_waiting it \<and> \<not> own_deadline it \<and>
     (\<forall>q. \<exists>x. answer it q = Inl x)"

lemma run_iteration_wait:
  assumes "run_iteration e it b c = (l, w, c')"
  shows "w = None \<and> (l = Stopped \<or> l = Running minBackoff) \<or>
    w = Some (jitter (randN it) b) \<and> (l = Stopped \<or> l = Running (min (b * 2) maxBackoff))"
  using assms by (auto simp: run_iteration_def Let_def split: prod.splits option.splits if_splits)

lemma run_iteration_fails:
  assumes "fails it"
  shows "\<exists>x. run_iteration e it b c = (Running (min (b * 2) maxBackoff), Some (jitter (randN it) b), markFailure e x c)"
proof -
  obtain x where x: "answer it (poll_request c) = Inl x" using assms by (auto simp: fails_def)
  show ?thesis
    by (rule exI[of _ x]) (use assms x in \<open>simp add: fails_def run_iteration_def fetchOnce_def Let_def\<close>)
qed

lemma run_loop_delays:
  assumes "run_loop e its b c = (l, ws, c')" and "minBackoff \<le> b" "b \<le> maxBackoff"
    and "\<forall>it\<in>set its. valid_rand (randN it)" and "w \<in> set ws"
  shows "3 * minBackoff \<le> 4 * w \<and> 4 * w \<le> 5 * maxBackoff"
  using assms
proof (induction its arbitrary: b c l ws c')
  case Nil
  then show ?case by simp
next
  case (Cons it its)
  obtain l1 w1 c1 where it: "run_iteration e it b c = (l1, w1, c1)" by (cases "run_iteration e it b c")
  have b: "0 \<le> b" "minBackoff \<le> maxBackoff" using Cons.prems(2) by (simp_all add: backoff_defs)
  note wait = run_iteration_wait[OF it]
  have head: "3 * minBackoff \<le> 4 * d \<and> 4 * d \<le> 5 * maxBackoff" if "w1 = Some d" for d
  proof -
    have "d = jitter (randN it) b" using wait that by auto
    then show ?thesis using jitter_bounds[of "randN it" b] Cons.prems(2-4) b by auto
  qed
  show ?case
  proof (cases l1)
    case Stopped
    then show ?thesis using Cons.prems it head by (auto split: option.splits)
  next
    case (Running b1)
    have b1: "minBackoff \<le> b1" "b1 \<le> maxBackoff"
      using wait Running Cons.prems(2,3) b by (auto simp: min_def split: if_splits)
    obtain l2 ws2 c2 where rest: "run_loop e its b1 c1 = (l2, ws2, c2)" by (cases "run_loop e its b1 c1")
    have "w \<in> set ws2 \<or> w1 = Some w" using Cons.prems it Running rest by (auto split: option.splits)
    then show ?thesis using head Cons.IH[OF rest b1] Cons.prems(4) by auto
  qed
qed

text \<open>The delay of the \<open>n\<close>th failure in a row, before jitter.\<close>

definition backoff_at :: "int \<Rightarrow> nat \<Rightarrow> int" where
  "backoff_at b n = min (b * 2 ^ n) maxBackoff"

lemma backoff_at_Suc: "b \<le> maxBackoff \<Longrightarrow> 0 \<le> b \<Longrightarrow> backoff_at (min (b * 2) maxBackoff) n = backoff_at b (Suc n)"
proof -
  assume b: "b \<le> maxBackoff" "0 \<le> b"
  show ?thesis
  proof (cases "b * 2 \<le> maxBackoff")
    case True
    then show ?thesis by (simp add: backoff_at_def min_absorb1 mult.assoc)
  next
    case False
    have p: "(1::int) \<le> 2 ^ n" by simp
    have "maxBackoff * 1 \<le> maxBackoff * 2 ^ n" by (intro mult_left_mono p) (simp add: backoff_defs)
    moreover have "maxBackoff * 2 ^ n \<le> b * 2 * 2 ^ n" using False by (intro mult_right_mono) simp_all
    ultimately have "maxBackoff \<le> maxBackoff * 2 ^ n" "maxBackoff \<le> b * 2 ^ Suc n"
      by (simp_all only: power_Suc mult.assoc mult_1_right)
    then show ?thesis using False by (simp add: backoff_at_def min_absorb2)
  qed
qed

lemma run_loop_failing:
  assumes "\<forall>it\<in>set its. fails it" and "0 \<le> b" "b \<le> maxBackoff"
  shows "\<exists>l ws c'. run_loop e its b c = (l, ws, c') \<and> l = Running (backoff_at b (length its)) \<and>
    ws = map (\<lambda>i. jitter (randN (its ! i)) (backoff_at b i)) [0..<length its] \<and>
    snap c' = snap c \<and> disk c' = disk c"
  using assms
proof (induction its arbitrary: b c)
  case Nil
  then show ?case by (simp add: backoff_at_def)
next
  case (Cons it its)
  let ?b = "min (b * 2) maxBackoff"
  obtain x where it: "run_iteration e it b c = (Running ?b, Some (jitter (randN it) b), markFailure e x c)"
    using run_iteration_fails Cons.prems(1) by (metis list.set_intros(1))
  have b: "0 \<le> ?b" "?b \<le> maxBackoff" using Cons.prems by (auto simp: backoff_defs)
  have prem: "\<forall>it\<in>set its. fails it" using Cons.prems by simp
  obtain l ws c' where IH: "run_loop e its ?b (markFailure e x c) = (l, ws, c')"
      "l = Running (backoff_at ?b (length its))"
      "ws = map (\<lambda>i. jitter (randN (its ! i)) (backoff_at ?b i)) [0..<length its]"
      "snap c' = snap (markFailure e x c)" "disk c' = disk (markFailure e x c)"
    using Cons.IH[OF prem b, of "markFailure e x c"] by blast
  have upt: "[0..<Suc n] = 0 # map Suc [0..<n]" for n
    by (simp add: upt_conv_Cons map_Suc_upt del: upt_Suc)
  have "backoff_at b 0 = b" using Cons.prems by (simp add: backoff_at_def)
  then show ?case using IH it Cons.prems(2,3)
    by (simp add: upt backoff_at_Suc comp_def del: upt_Suc)
qed

end
