(* ===== verification/Client_Props.thy ===== *)
theory Client_Props
  imports Client_Inv
begin

text \<open>
  The properties of the client: consistent reads of a prefix, exact change notification, watchers
  that never miss a change, the fallback file, the start and the backoff of the refresh loop.
\<close>

section \<open>Example values\<close>

definition cenv0 :: clienv where
  "cenv0 = \<lparr>map_iter = rev, panics = (\<lambda>_. False), fs_fault = (\<lambda>_. False), partial_write = (\<lambda>_. [])\<rparr>"

definition snap1 :: Snapshot where
  "snap1 = \<lparr>sRevision = 7, sConfigs = [\<lparr>eKey = ''b:y'', eValue = ''2'', eFormat = ''raw''\<rparr>,
     \<lparr>eKey = ''a:x'', eValue = ''1'', eFormat = ''raw''\<rparr>]\<rparr>"

definition snap2 :: Snapshot where
  "snap2 = \<lparr>sRevision = 8, sConfigs = [\<lparr>eKey = ''a:x'', eValue = ''3'', eFormat = ''raw''\<rparr>,
     \<lparr>eKey = ''b:y'', eValue = ''2'', eFormat = ''raw''\<rparr>]\<rparr>"

lemma cenv0_simps [simp]:
  "fair_order (map_iter cenv0)" "fs_fault cenv0 op' = False" "panics cenv0 ev = False"
  by (simp_all add: cenv0_def fair_order_def)

lemma snap_wf [simp]: "wf_snapshot snap1" "wf_snapshot snap2"
  by (simp_all add: wf_snapshot_def snap1_def snap2_def)

lemma snap_wire [simp]: "wire_ok snap1" "wire_ok snap2"
  by (auto simp: wire_ok_def snap1_def snap2_def wire_config_def min_int64_def max_int64_def
      intro!: valid_utf8_ascii)

text \<open>A client that started on \<open>snap1\<close> with a fallback file.\<close>

definition opts1 :: "Option list" where
  "opts1 = [WithFallbackFile ''f'', WithOnChange True, WithPrefixes [''a:'', ''b:'', ''a:'']]"

definition client1 :: client where
  "client1 = snd (New cenv0 (\<lambda>_. Inr (Some snap1)) 5 opts1 \<lparr>main_file = None, tmp_file = None\<rparr>)"

lemma opts1_simps [simp]:
  "fallbackPath (build_options opts1) = ''f''" "onChange (build_options opts1) = True"
  "prefixes_opt (build_options opts1) = [''a:'', ''b:'']" "strict (build_options opts1) = False"
  "degradeOnStart (build_options opts1) = False"
  by (simp_all add: opts1_def build_options_def default_options_def normalizePrefixes_def Let_def)

lemma new_client1: "New cenv0 (\<lambda>_. Inr (Some snap1)) 5 opts1 \<lparr>main_file = None, tmp_file = None\<rparr> = (None, client1)"
proof -
  let ?r = "New cenv0 (\<lambda>_. Inr (Some snap1)) 5 opts1 \<lparr>main_file = None, tmp_file = None\<rparr>"
  have "fst ?r = None" by (simp add: New_def fetchOnce_def hasSnapshot_def snap1_def Let_def)
  then show ?thesis by (metis client1_def prod.collapse)
qed

lemma reach_client1: "client_reach cenv0 client1"
  by (rule client_reach.start[OF new_client1])

lemma client1_simps [simp]:
  "snap client1 = newView snap1" "watchers client1 = []" "opt client1 = build_options opts1"
  "src_closes client1 = 0" "closed client1 = False"
  by (simp_all add: client1_def New_def fetchOnce_def hasSnapshot_def snap1_def Let_def fresh_client_def)

section \<open>Properties\<close>

text \<open>
  C9. A group reads its prefix exactly: \<open>Keys\<close> lists, sorted and once each, the relative names of
  the snapshot's configurations under the prefix, \<open>Len\<close> counts them, and \<open>Raw\<close> finds the value
  of each and of nothing else. The two binary searches over the sorted keys lose nothing.
\<close>

theorem group_reads_prefix:
  assumes "wf_snapshot s" and "gSnap g = newView s"
  shows "sorted (Keys g) \<and> distinct (Keys g) \<and> Len g = int (length (Keys g)) \<and>
    set (Keys g) = {k. \<exists>c\<in>set (sConfigs s). eKey c = gPrefix g @ k} \<and>
    (\<forall>k v. Raw g k = Some v \<longleftrightarrow> (\<exists>c\<in>set (sConfigs s). eKey c = gPrefix g @ k \<and> eValue c = v))"
proof -
  let ?p = "gPrefix g" and ?ks = "keys (gSnap g)"
  have sorted: "sorted ?ks" "distinct ?ks" using assms by (simp_all add: wf_snapshot_def)
  have ks: "Keys g = map (\<lambda>k. TrimPrefix k ?p) (filter (prefix ?p) ?ks)" using Keys_filter[OF sorted(1)] .
  have full: "map (append ?p) (Keys g) = filter (prefix ?p) ?ks"
    unfolding ks by (simp add: comp_def cong: map_cong) (rule map_idI, simp)
  have app_mono: "q @ a \<le> q @ b \<longleftrightarrow> a \<le> b" for q a b :: string by (induction q) auto
  have "sorted (map (append ?p) (Keys g))" unfolding full using sorted by (simp add: sorted_wrt_filter)
  then have s: "sorted (Keys g)" by (simp add: sorted_map app_mono)
  have "distinct (map (append ?p) (Keys g))" unfolding full using sorted by simp
  then have d: "distinct (Keys g)" by (simp add: distinct_map)
  have "set (Keys g) = {k. ?p @ k \<in> set ?ks}"
  proof -
    have "k \<in> set (Keys g) \<longleftrightarrow> ?p @ k \<in> append ?p ` set (Keys g)" for k by auto
    moreover have "append ?p ` set (Keys g) = {k \<in> set ?ks. prefix ?p k}"
      using arg_cong[OF full, of set] by auto
    ultimately show ?thesis by auto
  qed
  then have k: "set (Keys g) = {k. \<exists>c\<in>set (sConfigs s). eKey c = ?p @ k}"
    using assms(2) by (auto simp: image_iff eq_commute)
  have "Raw g k = Some v \<longleftrightarrow> (\<exists>c\<in>set (sConfigs s). eKey c = ?p @ k \<and> eValue c = v)" for k v
    using lookup_wf_snapshot[OF assms(1)] by (auto simp: Raw_lookup assms(2))
  then show ?thesis using s d k Len_filter[OF sorted(1)] by (simp add: ks)
qed

theorem group_reads_prefix_witness:
  "set (Keys \<lparr>gPrefix = ''a:'', gSnap = newView snap1, gStrict = False\<rparr>) = {''x''} \<and>
   Raw \<lparr>gPrefix = ''a:'', gSnap = newView snap1, gStrict = False\<rparr> ''x'' = Some ''1''"
proof -
  let ?g = "\<lparr>gPrefix = ''a:'', gSnap = newView snap1, gStrict = False\<rparr>"
  have "set (Keys ?g) = {k. \<exists>c\<in>set (sConfigs snap1). eKey c = ''a:'' @ k}"
    "Raw ?g ''x'' = Some ''1'' \<longleftrightarrow> (\<exists>c\<in>set (sConfigs snap1). eKey c = ''a:x'' \<and> eValue c = ''1'')"
    using group_reads_prefix[of snap1 ?g] by simp_all
  then show ?thesis by (auto simp: snap1_def)
qed

text \<open>
  C10. \<open>diff\<close> returns, sorted and without repetition, exactly the keys whose presence, value or
  format differs between the two snapshots, in whatever order the runtime ranges over the maps.
\<close>

theorem diff_exact:
  assumes "fair_order ord" "fair_order ord'" "wf_snapshot s" "wf_snapshot s'"
  shows "set (diff ord (newView s) (newView s')) = {k. content (newView s) k \<noteq> content (newView s') k} \<and>
    sorted (diff ord (newView s) (newView s')) \<and> distinct (diff ord (newView s) (newView s')) \<and>
    diff ord' (newView s) (newView s') = diff ord (newView s) (newView s')"
  using set_diff[OF assms(1)] diff_sorted_distinct[OF assms(1)] newView_byKey(2)
    diff_order_irrelevant[OF assms(1,2)]
  by (simp add: differs_content)

theorem diff_exact_witness:
  "diff rev (newView snap1) (newView snap2) = [''a:x'']"
proof -
  let ?d = "diff rev (newView snap1) (newView snap2)"
  have r: "set ?d = {k. content (newView snap1) k \<noteq> content (newView snap2) k}" "distinct ?d"
    using diff_exact[of rev id snap1 snap2] by (simp_all add: fair_order_def)
  have "content (newView snap1) k \<noteq> content (newView snap2) k \<longleftrightarrow> k = ''a:x''" for k
    by (simp add: content_def lookup_newView snap1_def snap2_def)
  then have "set ?d = {''a:x''}" using r(1) by simp
  then show ?thesis using r(2) by (cases ?d) (auto simp: subset_singleton_iff)
qed

text \<open>
  C11. A refresh that changed something calls exactly the callbacks it concerns, once each and
  in order: every watcher with a changed key under its prefix, in the order of registration, on
  the new snapshot; then \<open>OnChange\<close> for every configured prefix with changed keys under it, with
  those keys. Nothing else is called, nothing is called when no content changed, and a callback
  that panics keeps no other from being called.
\<close>

theorem refresh_notifies_exactly:
  assumes "fair_order (map_iter e)"
  shows "calls (apply_snapshot e s True c) = calls c @
      map (\<lambda>(p, fn). WatchCall fn \<lparr>gPrefix = p, gSnap = newView s, gStrict = strict (opt c)\<rparr>)
        (filter (\<lambda>(p, fn). \<not> same_under p (snap c) (newView s)) (watchers c)) @
      (if onChange (opt c) then
         map (\<lambda>p. ChangeCall p (filter (prefix p) (diff (map_iter e) (snap c) (newView s))))
           (filter (\<lambda>p. \<not> same_under p (snap c) (newView s))
             (if prefixes_opt (opt c) = [] then [[]] else prefixes_opt (opt c)))
       else [])"
proof -
  have f: "filterPrefix ks p = filter (prefix p) ks" for ks p by (simp add: filterPrefix_def)
  have n: "filter (prefix p) (diff (map_iter e) (snap c) (newView s)) = [] \<longleftrightarrow> same_under p (snap c) (newView s)" for p
    using filterPrefix_Nil_iff[OF assms, of "snap c" "newView s" p] by (simp add: f)
  show ?thesis
    by (simp add: apply_calls expected_calls_def watch_calls_def change_calls_def notifyPrefixes_def f n
        case_prod_unfold)
qed

theorem refresh_notifies_exactly_witness:
  "filter (\<lambda>ev. \<exists>p ks. ev = ChangeCall p ks) (calls (apply_snapshot cenv0 snap2 True client1)) =
   filter (\<lambda>ev. \<exists>p ks. ev = ChangeCall p ks) (calls client1) @ [ChangeCall ''a:'' [''a:x'']]"
proof -
  have ct: "content (newView snap1) k \<noteq> content (newView snap2) k \<longleftrightarrow> k = ''a:x''" for k
    by (simp add: content_def lookup_newView snap1_def snap2_def)
  have "content (newView snap1) ''a:x'' \<noteq> content (newView snap2) ''a:x''" by (simp only: ct)
  then have a: "\<not> same_under ''a:'' (newView snap1) (newView snap2)"
    by (simp only: same_under_def not_all not_imp) (rule exI[of _ "''a:x''"], simp)
  have b: "same_under ''b:'' (newView snap1) (newView snap2)"
  proof (unfold same_under_def, intro allI impI)
    fix k assume "prefix ''b:'' k"
    then have "k \<noteq> ''a:x''" by auto
    then show "content (newView snap1) k = content (newView snap2) k" using ct by blast
  qed
  have "set (diff (map_iter cenv0) (newView snap1) (newView snap2)) = {''a:x''}"
    "distinct (diff (map_iter cenv0) (newView snap1) (newView snap2))"
    using set_diff[of "map_iter cenv0" "newView snap1" "newView snap2"] ct
      diff_sorted_distinct[of "map_iter cenv0" "newView snap1" "newView snap2"] newView_byKey(2)
    by (simp_all add: differs_content)
  then have "diff (map_iter cenv0) (newView snap1) (newView snap2) = [''a:x'']"
    by (cases "diff (map_iter cenv0) (newView snap1) (newView snap2)") (auto simp: subset_singleton_iff)
  then show ?thesis
    using refresh_notifies_exactly[of cenv0 snap2 client1] a b by simp
qed

text \<open>
  C12. Watchers miss nothing. Along every execution (a start, then any polls with any answers,
  registrations and closes), the group that a registered callback was last called with has
  under its prefix the same keys, values and formats as the snapshot the client holds now.
\<close>

theorem watchers_miss_nothing:
  assumes "client_reach e c" and "fair_order (map_iter e)" and "(p, fn) \<in> set (watchers c)"
  shows "\<exists>g. last_given fn c = Some g \<and> gPrefix g = p \<and>
    (\<forall>k. prefix p k \<longrightarrow> content (gSnap g) k = content (snap c) k)"
  using reach_watch_sync[OF assms(1,2)] assms(3) by (auto simp: watch_sync_def same_under_def)

theorem watchers_miss_nothing_witness:
  "\<exists>g. last_given 3 (Watch cenv0 ''a:'' 3 client1) = Some g \<and>
     content (gSnap g) ''a:x'' = Some (''1'', ''raw'')"
proof -
  have r: "client_reach cenv0 (Watch cenv0 ''a:'' 3 client1)"
    by (rule client_reach.watch[OF reach_client1]) simp
  have w: "(''a:'', 3) \<in> set (watchers (Watch cenv0 ''a:'' 3 client1))"
    "snap (Watch cenv0 ''a:'' 3 client1) = newView snap1" by (simp_all add: Watch_def Let_def)
  have "content (newView snap1) ''a:x'' = Some (''1'', ''raw'')"
    by (simp add: content_def lookup_newView snap1_def)
  then show ?thesis using watchers_miss_nothing[OF r _ w(1)] w(2) by auto
qed

text \<open>
  C13. The fallback file is never torn: whichever file operation fails, and wherever in
  \<open>writeFallback\<close> the process stops, the file at the path holds what it held before or the complete
  new document.
\<close>

theorem fallback_file_not_torn:
  "map_option fst (main_file (snd (fb_run e (take n (fb_steps data)) k)))
     \<in> {map_option fst (main_file k), Some data}"
  by (rule fb_crash)

text \<open>
  C14. A cold start from the file. When the file was written without an error from a snapshot
  with distinct keys and valid UTF-8, a client that starts later and whose source fails holds
  that snapshot: the same revision, the same keys and the same configuration of every key.
\<close>

theorem restart_from_fallback:
  assumes "wf_snapshot s" and "wire_ok s" and "fst (writeFallback e (newView s) k)"
    and "\<not> fs_fault e' ReadFile" and "fallbackPath (build_options opts) \<noteq> []"
    and "\<And>q. poll q = Inl err"
  shows "\<exists>c. New e' poll t opts (snd (writeFallback e (newView s) k)) = (None, c) \<and>
    vRevision (snap c) = sRevision s \<and> keys (snap c) = keys (newView s) \<and>
    lookup (snap c) = lookup (newView s)"
proof -
  obtain w where w: "readFallback e' (snd (writeFallback e (newView s) k)) = Some w" "view_eq w (newView s)"
    using writeFallback_read[OF assms(3) wire_newView[OF assms(1,2)] assms(4)] by blast
  then show ?thesis
    using assms(5,6)
    by (simp add: New_def fetchOnce_def loadFallback_def fresh_client_def view_eq_def)
qed

theorem restart_from_fallback_witness:
  "\<exists>c. New cenv0 (\<lambda>_. Inl (SourceErr False ''down'')) 9 opts1
       (snd (writeFallback cenv0 (newView snap1) \<lparr>main_file = None, tmp_file = None\<rparr>)) = (None, c) \<and>
     vRevision (snap c) = 7"
proof -
  have ok: "fst (writeFallback cenv0 (newView snap1) \<lparr>main_file = None, tmp_file = None\<rparr>)"
    using marshal_some[of "toWire (newView snap1)"] wire_newView[of snap1]
    by (auto simp: writeFallback_def wire_view_def fb_no_fault)
  have "sRevision snap1 = 7" by (simp add: snap1_def)
  then show ?thesis
    using restart_from_fallback[OF _ _ ok, of cenv0 opts1 "\<lambda>_. Inl (SourceErr False ''down'')"]
    by auto
qed

text \<open>
  C15. The refresh loop backs off. When polls fail one after the other, the delay after the
  nth is 200 ms doubled n times and capped at 30 s, up to a quarter more or less, and the
  client goes on serving the snapshot it holds. After any history the delays stay between
  150 ms and 37.5 s.
\<close>

theorem run_loop_backoff:
  assumes "\<forall>it\<in>set its. valid_rand (randN it)" and "run_loop e its minBackoff c = (l, ws, c')"
  shows "(\<forall>w\<in>set ws. 150 * millisecond \<le> w \<and> 2 * w \<le> 75 * second) \<and>
    ((\<forall>it\<in>set its. fails it) \<longrightarrow> length ws = length its \<and> snap c' = snap c \<and>
      (\<forall>i<length ws. 3 * min (200 * millisecond * 2 ^ i) (30 * second) \<le> 4 * (ws ! i) \<and>
        4 * (ws ! i) \<le> 5 * min (200 * millisecond * 2 ^ i) (30 * second)))"
proof (intro conjI ballI impI)
  fix w assume "w \<in> set ws"
  then have "3 * minBackoff \<le> 4 * w \<and> 4 * w \<le> 5 * maxBackoff"
    using run_loop_delays[OF assms(2) _ _ assms(1)] by (simp add: backoff_defs)
  then show "150 * millisecond \<le> w" "2 * w \<le> 75 * second" by (simp_all add: backoff_defs)
next
  assume f: "\<forall>it\<in>set its. fails it"
  have "0 \<le> minBackoff" "minBackoff \<le> maxBackoff" by (simp_all add: backoff_defs)
  then have r: "ws = map (\<lambda>i. jitter (randN (its ! i)) (backoff_at minBackoff i)) [0..<length its]"
    "snap c' = snap c"
    using run_loop_failing[OF f, of minBackoff e c] assms(2) by auto
  show "length ws = length its" "snap c' = snap c" using r by simp_all
  have b: "backoff_at minBackoff i = min (200 * millisecond * 2 ^ i) (30 * second)" for i
    by (simp add: backoff_at_def minBackoff_def maxBackoff_def)
  show "\<forall>i<length ws. 3 * min (200 * millisecond * 2 ^ i) (30 * second) \<le> 4 * (ws ! i) \<and>
      4 * (ws ! i) \<le> 5 * min (200 * millisecond * 2 ^ i) (30 * second)"
  proof (intro allI impI)
    fix i assume i: "i < length ws"
    then have "valid_rand (randN (its ! i))" using assms(1) r by simp
    moreover have "0 \<le> backoff_at minBackoff i" by (simp add: backoff_at_def backoff_defs)
    ultimately show "3 * min (200 * millisecond * 2 ^ i) (30 * second) \<le> 4 * (ws ! i) \<and>
        4 * (ws ! i) \<le> 5 * min (200 * millisecond * 2 ^ i) (30 * second)"
      using jitter_bounds[of "randN (its ! i)" "backoff_at minBackoff i"] i r(1) by (simp add: b)
  qed
qed

definition failing_iteration :: iteration where
  "failing_iteration = \<lparr>done_before = False, answer = (\<lambda>_. Inl (SourceErr False ''down'')),
     own_deadline = False, done_after = False, done_waiting = False, now = 0, randN = (\<lambda>_. 0)\<rparr>"

theorem run_loop_backoff_witness:
  "\<exists>l ws c'. run_loop cenv0 [failing_iteration, failing_iteration] minBackoff client1 = (l, ws, c') \<and>
     length ws = 2 \<and> 4 * (ws ! 1) \<le> 5 * (400 * millisecond) \<and> snap c' = newView snap1"
proof -
  obtain l ws c' where r: "run_loop cenv0 [failing_iteration, failing_iteration] minBackoff client1 = (l, ws, c')"
    by (cases "run_loop cenv0 [failing_iteration, failing_iteration] minBackoff client1")
  have v: "\<forall>it\<in>set [failing_iteration, failing_iteration]. valid_rand (randN it)"
    "\<forall>it\<in>set [failing_iteration, failing_iteration]. fails it"
    by (simp_all add: failing_iteration_def valid_rand_def fails_def)
  from run_loop_backoff[OF v(1) r] v(2) have len: "length ws = 2" "snap c' = newView snap1"
    and w: "\<forall>i<length ws. 4 * (ws ! i) \<le> 5 * min (200 * millisecond * 2 ^ i) (30 * second)" by auto
  note len
  moreover have "4 * (ws ! 1) \<le> 5 * min (200 * millisecond * 2 ^ 1) (30 * second)"
    using w[rule_format, of 1] len by simp
  moreover have "min (200 * millisecond * 2 ^ 1) (30 * second) = 400 * millisecond"
    by (simp add: backoff_defs)
  ultimately show ?thesis using r by simp
qed

text \<open>
  C16. The start. \<open>New\<close> asks the source once for everything (no baseline) and calls no callback. It
  returns a client exactly when the source delivered a snapshot with a revision, or the fallback
  file could be read, or starting empty was allowed, tried in this order; otherwise it returns
  an error and has closed the source, once.
\<close>

theorem new_outcome:
  assumes "New e poll t opts k = (r, c)"
  shows "poll_request (fresh_client (build_options opts) k) =
      \<lparr>Since = -1, Prefixes = prefixes_opt (build_options opts), Interval = pollInterval (build_options opts),
       Timeout = longPollTimeout (build_options opts)\<rparr> \<and>
    (r = None \<longleftrightarrow>
       (\<exists>s. poll (poll_request (fresh_client (build_options opts) k)) = Inr (Some s) \<and> 0 \<le> sRevision s) \<or>
       fallbackPath (build_options opts) \<noteq> [] \<and> readFallback e (disk c) \<noteq> None \<or>
       degradeOnStart (build_options opts)) \<and>
    src_closes c = (if r = None then 0 else 1) \<and> calls c = []"
proof -
  let ?c0 = "fresh_client (build_options opts) k"
  have c0: "snap ?c0 = emptyView" "opt ?c0 = build_options opts" "src_closes ?c0 = 0" "calls ?c0 = []"
    by (simp_all add: fresh_client_def calls_def)
  have req: "poll_request ?c0 = \<lparr>Since = -1, Prefixes = prefixes_opt (build_options opts),
      Interval = pollInterval (build_options opts), Timeout = longPollTimeout (build_options opts)\<rparr>"
    by (simp add: poll_request_def c0 emptyView_def)
  from assms show ?thesis
  proof (cases rule: New_cases)
    case (fetched s)
    then show ?thesis using req by (simp add: c0 apply_calls)
  next
    case (not_fetched c')
    have c': "opt c' = build_options opts" "src_closes c' = 0" "calls c' = []"
      using not_fetched(1) by (auto simp: c0 apply_calls)
    have none: "\<not> (\<exists>s. poll (poll_request ?c0) = Inr (Some s) \<and> 0 \<le> sRevision s)"
      using not_fetched(1) by auto
    have "disk c = disk c'" "src_closes c = (if r = None then 0 else 1)" "calls c = []"
      using not_fetched(2) c' by (auto split: if_splits)
    moreover have "r = None \<longleftrightarrow> fallbackPath (build_options opts) \<noteq> [] \<and> readFallback e (disk c') \<noteq> None \<or>
        degradeOnStart (build_options opts)"
      using not_fetched(2) c' by (auto split: if_splits)
    ultimately show ?thesis using req none by auto
  qed
qed

theorem new_outcome_witness:
  "src_closes client1 = 0 \<and> calls client1 = []"
  using new_outcome[OF new_client1] by simp

text \<open>A client's source is closed once, however often \<open>Close\<close> is called.\<close>

lemma close_once:
  assumes "client_reach e c"
  shows "src_closes c = (if closed c then 1 else 0) \<and> Close (Close c) = Close c"
proof -
  have "src_closes c = (if closed c then 1 else 0)"
    using assms
  proof (rule client_reach_invariant)
    fix poll t opts k c
    assume n: "New e poll t opts k = (None, c)"
    then show "src_closes c = (if closed c then 1 else 0)"
      by (cases rule: New_cases) (auto simp: fresh_client_def split: if_splits)
  qed (auto simp: Close_def Watch_def Let_def split: if_splits)
  then show ?thesis by (simp add: Close_def)
qed

text \<open>
  Once the file has been written, a later write that fails is not made up for: while the content
  stays the same no refresh writes again, and the file keeps the older snapshot.
\<close>

lemma fallback_failure_not_retried:
  assumes "seeded c" and "fair_order (map_iter e)" and "\<forall>k. content (snap c) k = content (newView s) k"
  shows "disk (apply_snapshot e s notif c) = disk c"
proof -
  have "set (diff (map_iter e) (snap c) (newView s)) = {}"
    using set_diff[OF assms(2)] assms(3) by (simp add: differs_content)
  then show ?thesis using assms(1) by (simp add: apply_disk fallback_due_def)
qed

end
