(* ===== verification/Client_Runs.thy ===== *)
theory Client_Runs
  imports HTTP_Source Client_Props Store_Props
begin

text \<open>
  Clients that live with a source: started, refreshed, stopped and started again while others
  write. What such a client holds in memory and in its fallback file is labelled low, whatever
  the interleaving, so one poll of a settled source brings it to the current content. The
  argument is made once for every source that keeps the contract (\<open>client_source\<close>) and holds of
  the database and of the HTTP source.

  A client that finds a file it did not write under the same prefixes and for the same database
  is not among these executions: \<open>New\<close> takes the file as it is, and the label in it may happen
  to be the current revision.
\<close>

section \<open>Executions\<close>

text \<open>What a poll answers: an error at any time, or what the source returns between two moments.\<close>

definition polled ::
    "('st \<Rightarrow> 'st \<Rightarrow> bool) \<Rightarrow> ('st \<Rightarrow> 'st \<Rightarrow> int \<Rightarrow> string list \<Rightarrow> (int \<times> CConfig list) option \<Rightarrow> bool) \<Rightarrow>
     'st \<Rightarrow> 'st \<Rightarrow> client \<Rightarrow> poll_result \<Rightarrow> bool" where
  "polled before polls s t c ans \<longleftrightarrow> before s t \<and>
     (\<forall>out. ans = Inr out \<longrightarrow>
        polls s t (Since (poll_request c)) (PollRequest.Prefixes (poll_request c))
          (map_option (\<lambda>sn. (sRevision sn, sConfigs sn)) out))"

text \<open>
  A client starts where no fallback file is, or finds the file that a client of the same source
  with the same prefixes left; the temporary file beside it may be anything.
\<close>

inductive client_run ::
    "('st \<Rightarrow> bool) \<Rightarrow> ('st \<Rightarrow> 'st \<Rightarrow> bool) \<Rightarrow> ('st \<Rightarrow> 'st \<Rightarrow> int \<Rightarrow> string list \<Rightarrow> (int \<times> CConfig list) option \<Rightarrow> bool) \<Rightarrow>
     'st \<Rightarrow> client \<Rightarrow> bool" for sound before polls where
  start: "sound s \<Longrightarrow> polled before polls s t (fresh_client (build_options opts) k) ans \<Longrightarrow> main_file k = None \<Longrightarrow>
    New e (\<lambda>_. ans) tm opts k = (None, c) \<Longrightarrow> client_run sound before polls t c"
| restart: "client_run sound before polls s c0 \<Longrightarrow>
    map_option fst (main_file k) = map_option fst (main_file (disk c0)) \<Longrightarrow>
    prefixes_opt (build_options opts) = prefixes_opt (opt c0) \<Longrightarrow>
    polled before polls s t (fresh_client (build_options opts) k) ans \<Longrightarrow>
    New e (\<lambda>_. ans) tm opts k = (None, c) \<Longrightarrow> client_run sound before polls t c"
| idle: "client_run sound before polls s c \<Longrightarrow> before s t \<Longrightarrow> client_run sound before polls t c"
| iterate: "client_run sound before polls s c \<Longrightarrow> polled before polls s t c (answer it (poll_request c)) \<Longrightarrow>
    run_iteration e it b c = (l, w, c') \<Longrightarrow> client_run sound before polls t c'"
| watch: "client_run sound before polls s c \<Longrightarrow> client_run sound before polls s (Watch e p fn c)"
| close: "client_run sound before polls s c \<Longrightarrow> client_run sound before polls s (Close c)"

section \<open>Content\<close>

text \<open>The content of a list of rows, and that of the database under some prefixes.\<close>

definition rows_content :: "CConfig list \<Rightarrow> string \<Rightarrow> (string \<times> string) option" where
  "rows_content cs = content (newView \<lparr>sRevision = 0, sConfigs = cs\<rparr>)"

lemma content_newView: "content (newView s) = rows_content (sConfigs s)"
  by (rule ext) (simp add: rows_content_def content_def lookup_newView)

definition db_content :: "db \<Rightarrow> string \<Rightarrow> (string \<times> string) option" where
  "db_content d k = map_option (\<lambda>c. (cValue c, cFormat c)) (config_row k (tabs d))"

definition one_row_per_key :: "db \<Rightarrow> bool" where
  "one_row_per_key d \<longleftrightarrow> distinct (map cKey (config (tabs d)))"

lemma wf_one_row: "wf_db y d \<Longrightarrow> one_row_per_key d"
  using wf_dbD(1) by (simp add: one_row_per_key_def)

lemma later_one_row: "later d d' \<Longrightarrow> one_row_per_key d \<Longrightarrow> one_row_per_key d'"
proof (induction rule: later.induct)
  case (wrote d d' e dia q)
  then have d': "distinct (map cKey (config (tabs d')))" by (simp add: one_row_per_key_def)
  then have n: "distinct (map cKey (new_config e key op' c val format (config (tabs d'))))" for key op' c val format
    by (simp add: new_config_def map_cKey_upsert distinct_filter_map)
  show ?case
    unfolding perform_db_write one_row_per_key_def
    by (rule db_write_cases[of "req_resolve e q" e dia "req_key q" "req_op q" "req_change q" d'])
       (simp_all add: d' n)
qed (simp)

lemma map_eKey_rows:
  "map eKey (db_rows coll d ps) =
    map cKey (sort_key (\<lambda>c. coll (cKey c)) (filter (\<lambda>c. under ps (cKey c)) (config (tabs d))))"
  by (simp add: db_rows_def to_entry_def comp_def)

lemma db_rows_distinct:
  assumes "one_row_per_key d"
  shows "distinct (map eKey (db_rows coll d ps))"
proof -
  let ?rows = "filter (\<lambda>c. under ps (cKey c)) (config (tabs d))"
  have "mset (map cKey (sort_key (\<lambda>c. coll (cKey c)) ?rows)) = mset (map cKey ?rows)" by simp
  moreover have "distinct (map cKey ?rows)"
    using assms distinct_filter_map by (simp add: one_row_per_key_def)
  ultimately show ?thesis unfolding map_eKey_rows using mset_eq_imp_distinct_iff by blast
qed

lemma rows_content_db:
  assumes "one_row_per_key d"
  shows "rows_content (db_rows coll d ps) k = (if under ps k then db_content d k else None)"
proof -
  let ?s = "\<lparr>sRevision = 0, sConfigs = db_rows coll d ps\<rparr>"
  have wf: "wf_snapshot ?s" using db_rows_distinct[OF assms] by (simp add: wf_snapshot_def)
  have mem: "e \<in> set (sConfigs ?s) \<longleftrightarrow> (\<exists>c\<in>set (config (tabs d)). under ps (cKey c) \<and> e = to_entry c)" for e
    by (auto simp: db_rows_def)
  note row = config_row_in[OF assms[unfolded one_row_per_key_def]]
  have "lookup (newView ?s) k = (if under ps k then map_option to_entry (config_row k (tabs d)) else None)"
  proof (cases "under ps k \<and> config_row k (tabs d) \<noteq> None")
    case True
    then obtain c where c: "config_row k (tabs d) = Some c" by auto
    then have "cKey c = k" "c \<in> set (config (tabs d))" using config_row_key by auto
    then have "lookup (newView ?s) k = Some (to_entry c)"
      using lookup_wf_snapshot[OF wf] mem True by (auto simp: to_entry_def)
    then show ?thesis using c True by simp
  next
    case False
    have "lookup (newView ?s) k \<noteq> Some e" for e
    proof
      assume "lookup (newView ?s) k = Some e"
      then have "e \<in> set (sConfigs ?s)" "eKey e = k" using lookup_wf_snapshot[OF wf] by auto
      then obtain c where "c \<in> set (config (tabs d))" "under ps (cKey c)" "cKey c = k"
        using mem by (auto simp: to_entry_def)
      then show False using False row by auto
    qed
    then show ?thesis using False by (cases "lookup (newView ?s) k") auto
  qed
  then show ?thesis
    by (simp add: rows_content_def content_def db_content_def option.map_comp comp_def to_entry_def)
qed

section \<open>Clients of a source\<close>

text \<open>What a write of the fallback file leaves to be read.\<close>

lemma ParseInt_int_str_some: "ParseInt bits (int_str i) = Some n \<Longrightarrow> n = i"
  using hd_nat_str[of "nat i"] by (auto simp: ParseInt_def int_str_def Let_def split: if_splits)

lemma unmarshal_toWire:
  assumes "marshal_snapshot s = Some data" and "unmarshal_snapshot data = Some s'"
  shows "s' = s"
proof -
  have "Unmarshal data = Some (snapshot_json s)"
    using Unmarshal_Marshal[of "snapshot_json s" data] assms(1)
    by (simp add: marshal_snapshot_def emittable_snapshot)
  then have d: "decode_snapshot (snapshot_json s) = Some s'"
    using assms(2) by (simp add: unmarshal_snapshot_def)
  moreover have "decode_all decode_config (map config_json (sConfigs s)) = Some (sConfigs s)"
    by (rule decode_all_map) simp
  ultimately show ?thesis
    by (cases s) (auto simp: decode_snapshot_def snapshot_json_def bind_eq_Some_conv
        dest!: ParseInt_int_str_some)
qed

lemma writeFallback_main:
  obtains "map_option fst (main_file (snd (writeFallback e v k))) = map_option fst (main_file k)"
  | data where "marshal_snapshot (toWire v) = Some data"
      "map_option fst (main_file (snd (writeFallback e v k))) = Some data"
  using fb_crash[of e 3]
  by (cases "fst (fb_exec e FbMkdir k)"; cases "marshal_snapshot (toWire v)")
     (auto simp: writeFallback_def fb_steps_def)

locale client_source = poll_source revision rows later polls settled
  for revision :: "'st \<Rightarrow> int" and rows :: "'st \<Rightarrow> string list \<Rightarrow> CConfig list"
    and later :: "'st \<Rightarrow> 'st \<Rightarrow> bool"
    and polls :: "'st \<Rightarrow> 'st \<Rightarrow> int \<Rightarrow> string list \<Rightarrow> (int \<times> CConfig list) option \<Rightarrow> bool"
    and settled :: "'st \<Rightarrow> bool" +
  fixes sound :: "'st \<Rightarrow> bool"
  assumes sound_later: "later s t \<Longrightarrow> sound s \<Longrightarrow> sound t"
    and rows_distinct: "sound s \<Longrightarrow> distinct (map eKey (rows s ps))"
    and poll_sound: "polls s t since ps (Some (l, cs)) \<Longrightarrow>
      \<exists>m. later s m \<and> later m t \<and> l \<le> revision m \<and> cs = rows m ps"
begin

definition view_low :: "string list \<Rightarrow> 'st \<Rightarrow> view \<Rightarrow> bool" where
  "view_low ps s v \<longleftrightarrow> vRevision v < 0 \<or>
     (\<exists>m. later m s \<and> vRevision v \<le> revision m \<and> content v = rows_content (rows m ps))"

definition file_low :: "string list \<Rightarrow> 'st \<Rightarrow> disk \<Rightarrow> bool" where
  "file_low ps s k \<longleftrightarrow> (\<forall>data sn. map_option fst (main_file k) = Some data \<longrightarrow>
     unmarshal_snapshot data = Some sn \<longrightarrow> view_low ps s (newView sn))"

definition client_low :: "'st \<Rightarrow> client \<Rightarrow> bool" where
  "client_low s c \<longleftrightarrow> view_low (prefixes_opt (opt c)) s (snap c) \<and> file_low (prefixes_opt (opt c)) s (disk c)"

lemma view_low_later: "view_low ps s v \<Longrightarrow> later s t \<Longrightarrow> view_low ps t v"
  using later_trans by (auto simp: view_low_def)

lemma file_low_later: "file_low ps s k \<Longrightarrow> later s t \<Longrightarrow> file_low ps t k"
  using view_low_later by (auto simp: file_low_def)

lemma client_low_later: "client_low s c \<Longrightarrow> later s t \<Longrightarrow> client_low t c"
  using view_low_later file_low_later by (auto simp: client_low_def)

lemma file_low_cong: "map_option fst (main_file k) = map_option fst (main_file k') \<Longrightarrow>
    file_low ps s k = file_low ps s k'"
  by (simp add: file_low_def)

text \<open>Installing a snapshot that a poll returned keeps memory and file low.\<close>

lemma client_low_apply:
  assumes low: "client_low t c" and s: "sound s"
    and poll: "polls s t since (prefixes_opt (opt c)) (Some (sRevision sn, sConfigs sn))"
  shows "client_low t (apply_snapshot e sn n c)"
proof -
  let ?ps = "prefixes_opt (opt c)" and ?v = "newView sn"
  obtain m where m: "later s m" "later m t" "sRevision sn \<le> revision m" "sConfigs sn = rows m ?ps"
    using poll_sound[OF poll] by blast
  have v: "view_low ?ps t ?v"
    using m by (auto simp: view_low_def content_newView)
  have wf: "wf_view ?v"
    using rows_distinct[OF sound_later[OF m(1) s]] by (intro wf_newView) (simp add: wf_snapshot_def m(4))
  have bk: "view_low ?ps t (newView (toWire ?v))"
    using v newView_toWire[OF wf] by (auto simp: view_low_def view_eq_def content_def fun_eq_iff)
  have "file_low ?ps t (snd (writeFallback e ?v (disk c)))"
  proof (rule writeFallback_main[of e ?v "disk c"])
    assume "map_option fst (main_file (snd (writeFallback e ?v (disk c)))) = map_option fst (main_file (disk c))"
    from file_low_cong[OF this] show ?thesis using low by (simp add: client_low_def)
  next
    fix data
    assume data: "marshal_snapshot (toWire ?v) = Some data"
      "map_option fst (main_file (snd (writeFallback e ?v (disk c)))) = Some data"
    then show ?thesis using unmarshal_toWire[OF data(1)] bk by (auto simp: file_low_def)
  qed
  then show ?thesis
    using v low by (simp add: client_low_def apply_disk)
qed

lemma client_low_fetch:
  assumes "client_low s c" and "sound s" and "polled later polls s t c ans"
    and "fetchOnce e (\<lambda>_. ans) n c = (err, c1)"
  shows "client_low t c1"
proof -
  have l: "client_low t c" using assms(1,3) client_low_later by (simp add: polled_def)
  show ?thesis
    using fetchOnce_effect[OF assms(4)] l client_low_apply[OF l assms(2)] assms(3)
    by (auto simp: polled_def poll_request_def)
qed

lemma client_low_fresh: "file_low (prefixes_opt o') s k \<Longrightarrow> client_low s (fresh_client o' k)"
  by (simp add: client_low_def view_low_def fresh_client_def emptyView_def)

lemma client_low_New:
  assumes fl: "file_low (prefixes_opt (build_options opts)) s k" and s: "sound s"
    and poll: "polled later polls s t (fresh_client (build_options opts) k) ans"
    and new: "New e (\<lambda>_. ans) tm opts k = (None, c)"
  shows "client_low t c"
proof -
  let ?c0 = "fresh_client (build_options opts) k"
  note c0 = client_low_fresh[OF fl]
  have app: "client_low t (apply_snapshot e sn False ?c0)" if "ans = Inr (Some sn)" for sn
    using client_low_fetch[OF c0 s poll, of e False] that by (simp add: fetchOnce_def)
  have c0': "client_low t ?c0" using client_low_later[OF c0] poll by (simp add: polled_def)
  show ?thesis
  proof (rule New_cases[OF new])
    fix sn assume "ans = Inr (Some sn)" "c = markSuccess tm (apply_snapshot e sn False ?c0)"
    then show ?thesis using app by (simp add: client_low_def)
  next
    fix c1
    assume c1: "c1 = ?c0 \<and> (\<forall>s. ans \<noteq> Inr (Some s)) \<or>
        (\<exists>s. ans = Inr (Some s) \<and> sRevision s < 0 \<and> c1 = apply_snapshot e s False ?c0)"
      and r: "(\<exists>v. fallbackPath (opt c1) \<noteq> [] \<and> readFallback e (disk c1) = Some v \<and> None = None \<and> c = c1\<lparr>snap := v\<rparr>) \<or>
       (fallbackPath (opt c1) = [] \<or> readFallback e (disk c1) = None) \<and>
         (if degradeOnStart (opt c1) then None = None \<and> c = c1
          else (None::client_error option) \<noteq> None \<and> c = c1\<lparr>src_closes := src_closes c1 + 1\<rparr>)"
    have low: "client_low t c1" using c1 app c0' by auto
    from r consider v where "readFallback e (disk c1) = Some v" "c = c1\<lparr>snap := v\<rparr>" | "c = c1"
      by (auto split: if_splits)
    then show ?thesis
    proof cases
      case 1
      then have "view_low (prefixes_opt (opt c1)) t v"
        using low by (auto simp: client_low_def file_low_def readFallback_def split: if_splits option.splits)
      then show ?thesis using low 1 by (simp add: client_low_def)
    qed (use low in simp)
  qed
qed

lemma client_low_iteration:
  assumes "client_low s c" and "sound s" and "polled later polls s t c (answer it (poll_request c))"
    and "run_iteration e it b c = (l, w, c')"
  shows "client_low t c'"
proof -
  have f: "fetchOnce e (answer it) True c = fetchOnce e (\<lambda>_. answer it (poll_request c)) True c"
    by (simp add: fetchOnce_def)
  have "client_low t c1" if "fetchOnce e (answer it) True c = (err, c1)" for err c1
    using client_low_fetch[OF assms(1-3)] that f by simp
  moreover have "client_low t c" using assms(1,3) client_low_later by (simp add: polled_def)
  ultimately show ?thesis
    using run_iteration_effect[OF assms(4)] by (auto simp: client_low_def)
qed

text \<open>The invariant of the executions.\<close>

lemma client_run_low: "client_run sound later polls s c \<Longrightarrow> sound s \<and> client_low s c"
proof (induction rule: client_run.induct)
  case (start s t opts k ans e tm c)
  then show ?case
    using client_low_New[of opts s k] sound_later[of s t] by (simp add: file_low_def polled_def)
next
  case (restart s c0 k opts t ans e tm c)
  then show ?case
    using client_low_New[of opts s k] file_low_cong[of k "disk c0"] sound_later[of s t]
    by (simp add: client_low_def polled_def)
next
  case (iterate s c t it e b l w c')
  then show ?case using client_low_iteration[of s c t it] sound_later[of s t] by (auto simp: polled_def)
next
  case (idle s c t)
  then show ?case using client_low_later sound_later by blast
next
  case (watch s c e p fn)
  then show ?case by (simp add: client_low_def Watch_def Let_def safely_def)
next
  case (close s c)
  then show ?case by (simp add: client_low_def Close_def)
qed

text \<open>
  Convergence. A poll of a settled source that ends without an error brings any client whose
  revision differs, and every client of the executions above, to the current content.
\<close>

lemma client_converges_lemma:
  assumes set: "settled s" and r0: "0 \<le> revision s"
    and c: "client_run sound later polls s c \<or> sound s \<and> vRevision (snap c) \<noteq> revision s"
    and poll: "polls s s (Since (poll_request c)) (PollRequest.Prefixes (poll_request c))
      (map_option (\<lambda>sn. (sRevision sn, sConfigs sn)) out)"
    and f: "fetchOnce e (\<lambda>_. Inr out) n c = (err, c')"
  shows "err = None \<and> vRevision (snap c') = revision s \<and>
    content (snap c') = rows_content (rows s (prefixes_opt (opt c)))"
proof (cases out)
  case None
  then have rev: "vRevision (snap c) = revision s"
    using poll_unchanged[OF set] poll by (simp add: poll_request_def)
  then have "client_low s c" using c client_run_low by blast
  then obtain m where m: "later m s" "revision s \<le> revision m"
      "content (snap c) = rows_content (rows m (prefixes_opt (opt c)))"
    using rev r0 by (auto simp: client_low_def view_low_def)
  have "revision m = revision s" using revision_mono[OF m(1)] m(2) by simp
  then have "rows m (prefixes_opt (opt c)) = rows s (prefixes_opt (opt c))" using rows_fixed[OF m(1)] by simp
  then show ?thesis using f None rev m(3) by (simp add: fetchOnce_def)
next
  case (Some sn)
  then have p: "polls s s (vRevision (snap c)) (prefixes_opt (opt c)) (Some (sRevision sn, sConfigs sn))"
    using poll by (simp add: poll_request_def)
  obtain m where m: "later s m" "later m s" "sConfigs sn = rows m (prefixes_opt (opt c))"
    using poll_sound[OF p] by blast
  have "revision m = revision s" using revision_mono[OF m(1)] revision_mono[OF m(2)] by simp
  then have "sConfigs sn = rows s (prefixes_opt (opt c))" using m(3) rows_fixed[OF m(2)] by simp
  moreover have "sRevision sn = revision s" using poll_settled[OF set p] .
  ultimately show ?thesis using f Some by (auto simp: fetchOnce_def content_newView)
qed

end

section \<open>Both sources\<close>

lemma db_polls_sound:
  assumes "db_polls coll dia s t since ps (Some (l, cs))"
  shows "\<exists>m. later s m \<and> later m t \<and> l \<le> db_revision m \<and> cs = db_rows coll m ps"
proof -
  from assms obtain m m' where "later s m" "later m m'" "later m' t" "l = db_revision m" "cs = db_rows coll m' ps"
    by (auto simp: db_polls_def dest!: source_poll_snapshot)
  then show ?thesis using db_later_trans db.revision_mono by blast
qed

interpretation dbclient: client_source db_revision "db_rows coll" later "db_polls coll dia" "\<lambda>_. True" one_row_per_key
proof
  show "later s t \<Longrightarrow> one_row_per_key s \<Longrightarrow> one_row_per_key t" for s t by (rule later_one_row)
  show "one_row_per_key s \<Longrightarrow> distinct (map eKey (db_rows coll s ps))" for s ps by (rule db_rows_distinct)
  show "db_polls coll dia s t since ps (Some (l, cs)) \<Longrightarrow>
      \<exists>m. later s m \<and> later m t \<and> l \<le> db_revision m \<and> cs = db_rows coll m ps" for s t since ps l cs
    by (rule db_polls_sound)
qed

definition srv_one_row :: "service \<Rightarrow> bool" where
  "srv_one_row s \<longleftrightarrow> one_row_per_key (sdb s)"

lemma http_polls_sound:
  assumes "http_polls se coll dia s t since ps (Some (l, cs))"
  shows "\<exists>m. srv_later s m \<and> srv_later m t \<and> l \<le> srv_revision m \<and> cs = srv_rows coll m ps"
proof -
  from http_polls_some[OF assms] obtain rv s1 s2 m0 m1 m2 where
      l: "srv_later s s1" "srv_later s1 s2" "srv_later s2 m0" "srv_later m0 m1" "srv_later m1 m2" "srv_later m2 t"
      and r: "cs = srv_rows coll m2 ps" "l = min rv (srv_revision m1)" by blast
  have "srv_later s m2"
    by (rule srv_later_trans[OF l(1) srv_later_trans[OF l(2) srv_later_trans[OF l(3) srv_later_trans[OF l(4,5)]]]])
  moreover have "l \<le> srv_revision m2" using srv.revision_mono[OF l(5)] r(2) by simp
  ultimately show ?thesis using l(6) r(1) by blast
qed

interpretation httpclient: client_source srv_revision "srv_rows coll" srv_later "http_polls se coll dia"
  srv_settled srv_one_row
proof
  show "srv_later s t \<Longrightarrow> srv_one_row s \<Longrightarrow> srv_one_row t" for s t
    using later_one_row[OF srv_later_db] by (simp add: srv_one_row_def)
  show "srv_one_row s \<Longrightarrow> distinct (map eKey (srv_rows coll s ps))" for s ps
    by (simp add: srv_one_row_def srv_rows_def db_rows_distinct)
  show "http_polls se coll dia s t since ps (Some (l, cs)) \<Longrightarrow>
      \<exists>m. srv_later s m \<and> srv_later m t \<and> l \<le> srv_revision m \<and> cs = srv_rows coll m ps" for s t since ps l cs
    by (rule http_polls_sound)
qed

end
