(* ===== verification/System_Props.thy ===== *)
theory System_Props
  imports Client_Runs
begin

text \<open>
  The properties of the whole path from the database to the client's memory, through either
  source: labels are never too high while others write, and once the writing stops one poll
  brings the client's snapshot to exactly the database's content.
\<close>

section \<open>Properties\<close>

text \<open>
  C22. The database source never labels too high. A snapshot that a poll returns, while others
  write between any two of its queries, consists of the rows under the prefixes at one moment
  and carries a revision that differs from the client's and is at most the one of that moment;
  if the revision is still the label afterwards, the rows are still the current ones. A poll
  that says "unchanged" has seen the client's revision.
\<close>

theorem db_source_label_low:
  assumes "rounds_between coll d d' rds" and "source_poll dia q rds = Some (Inr out)"
  shows "case out of
      None \<Rightarrow> \<exists>m. later d m \<and> later m d' \<and> Since q = db_revision m
    | Some s \<Rightarrow> sRevision s \<noteq> Since q \<and>
        (\<exists>m. later d m \<and> later m d' \<and> sRevision s \<le> db_revision m \<and> sConfigs s = db_rows coll m (Prefixes q)) \<and>
        (sRevision s = db_revision d' \<longrightarrow> sConfigs s = db_rows coll d' (Prefixes q))"
proof (cases out)
  case None
  then show ?thesis using source_poll_unchanged[OF assms(1)] assms(2) by simp
next
  case (Some s)
  then obtain m m' where m: "later d m" "later m m'" "later m' d'" "sRevision s = db_revision m"
      "sRevision s \<noteq> Since q" "sConfigs s = db_rows coll m' (Prefixes q)"
    using source_poll_snapshot[OF assms(1)] assms(2) by blast
  have "db.low_label coll d' (Prefixes q) (sRevision s) (sConfigs s)"
    unfolding m(4,6) by (rule db.revision_then_rows[OF m(2,3)])
  then have "sRevision s = db_revision d' \<longrightarrow> sConfigs s = db_rows coll d' (Prefixes q)"
    using db.current_label_current_data[of coll d' "Prefixes q" "sConfigs s"] by auto
  moreover have "sRevision s \<le> db_revision m'" using m(4) db.revision_mono[OF m(2)] by simp
  ultimately show ?thesis using Some m(3,5,6) db_later_trans[OF m(1,2)] by auto
qed

definition round0 :: round where
  "round0 = \<lparr>rev_env = env0, rev_db = empty_db, list_env = env0, list_db = db1, ctx_done = False\<rparr>"

lemma later_db1: "later empty_db db1"
  using later.wrote[OF later.same, of empty_db env0 MySQL "ReqSet ''app:a'' ''30s'' ''raw'' chg0"]
  by (simp add: set_db1)

theorem db_source_label_low_witness:
  "\<exists>s. source_poll MySQL \<lparr>Since = -1, Prefixes = [''app:''], Interval = 0, Timeout = 0\<rparr> [round0] =
      Some (Inr (Some s)) \<and> sRevision s \<le> 1"
proof -
  let ?q = "\<lparr>Since = -1, Prefixes = [''app:''], Interval = 0, Timeout = 0\<rparr>"
  have r: "rounds_between (\<lambda>s. s) empty_db db1 [round0]"
    by (rule rounds_between.more) (simp_all add: round0_def later_db1 later.same rounds_between.none)
  have "fst (ReadRevision env0 empty_db) = Inr 0" by (simp add: ReadRevision_no_fault)
  then obtain s where s: "source_poll MySQL ?q [round0] = Some (Inr (Some s))"
    by (simp add: round0_def source_fetch_def ListPrefixes_no_fault)
  have bound: "db_revision d \<le> 1" if "later d db1" for d
    using db.revision_mono[OF that] by (simp add: db_revision_def)
  from db_source_label_low[OF r s] obtain m where "later m db1" "sRevision s \<le> db_revision m" by auto
  with bound have "sRevision s \<le> 1" by fastforce
  then show ?thesis using s by blast
qed

text \<open>
  C23. Convergence over HTTP. Once the service is settled (nobody writes, and the watcher has
  seen the last revision), one refresh whose poll ends without an error leaves the client with
  the current revision and exactly the current content under its prefixes. This holds of every
  client whose revision differs from the database's, whatever it holds, and of every client
  that lived with this service from its first start on (no fallback file, or one that such a
  client with the same prefixes left), through any polls, failures, restarts and writes of
  others. Polls are those whose snapshots are valid UTF-8 and fit into the client's 64 MiB.
\<close>

theorem http_source_converges:
  assumes "srv_settled s" and "0 \<le> srv_revision s"
    and "http_polls se coll dia s s (Since (poll_request c)) (PollRequest.Prefixes (poll_request c))
      (map_option (\<lambda>sn. (sRevision sn, sConfigs sn)) out)"
    and "fetchOnce e (\<lambda>_. Inr out) notif c = (err, c')"
    and "client_run srv_one_row srv_later (http_polls se coll dia) s c \<or>
      srv_one_row s \<and> vRevision (snap c) \<noteq> srv_revision s"
  shows "err = None \<and> vRevision (snap c') = srv_revision s \<and>
    (\<forall>k. content (snap c') k = (if under (prefixes_opt (opt c)) k then db_content (sdb s) k else None))"
proof -
  have "srv_one_row s" using assms(5) httpclient.client_run_low by blast
  then have "rows_content (srv_rows coll s ps) k = (if under ps k then db_content (sdb s) k else None)" for ps k
    by (simp add: srv_rows_def srv_one_row_def rows_content_db)
  then show ?thesis using httpclient.client_converges_lemma[OF assms(1,2,5,3,4)] by simp
qed

definition service1 :: service where
  "service1 = \<lparr>sdb = db1, swatch = watcher_set 1 newRevisionWatcher, inflight = None\<rparr>"

lemma service1_settled: "srv_settled service1" "srv_revision service1 = 1" "srv_one_row service1"
  using wf_one_row[OF wf_db1]
  by (simp_all add: srv_settled_def srv_revision_def srv_one_row_def service1_def db_revision_def)

text \<open>A client that has just started asks the settled service: it is sent the snapshot.\<close>

definition client0 :: client where
  "client0 = fresh_client (build_options [WithPrefixes [''app:'']]) \<lparr>main_file = None, tmp_file = None\<rparr>"

lemma client0_simps [simp]:
  "prefixes_opt (opt client0) = [''app:'']" "vRevision (snap client0) = -1"
  "Since (poll_request client0) = -1" "PollRequest.Prefixes (poll_request client0) = [''app:'']"
  by (simp_all add: client0_def fresh_client_def build_options_def default_options_def normalizePrefixes_def
      emptyView_def poll_request_def Let_def)

definition sent1 :: Snapshot where
  "sent1 = \<lparr>sRevision = 1, sConfigs = [\<lparr>eKey = ''app:a'', eValue = ''30s'', eFormat = ''raw''\<rparr>]\<rparr>"

lemma sent1_rows: "db_rows (\<lambda>s. s) db1 [''app:''] = sConfigs sent1"
  by (simp add: db_rows_def db1_def new_config_def upsert_row_def empty_db_def to_entry_def sent1_def under_def
      FormatRaw_def)

lemma sent1_wire: "wire_ok sent1"
  by (auto simp: sent1_def wire_ok_def wire_config_def min_int64_def max_int64_def intro!: valid_utf8_ascii)

lemma sent1_text: "\<exists>b. marshal_snapshot sent1 = Some b \<and> length b < 100"
proof -
  have "marshal_snapshot sent1 \<noteq> None \<and> length (the (marshal_snapshot sent1)) < 100"
    unfolding sent1_def by code_simp
  then show ?thesis by auto
qed

lemma sent1_deliverable: "deliverable sent1"
  using sent1_text sent1_wire by (auto simp: deliverable_def maxBodySize_def)

abbreviation se0 :: serverenv where
  "se0 \<equiv> \<lparr>truncated = (\<lambda>_. []), other_body = (\<lambda>_. [])\<rparr>"

lemma client0_answer:
  "handleWatch MySQL (watch_request (poll_request client0)) (swatch service1) ByCtx (swatch service1)
     (swatch service1) (env0, db1) (env0, db1) (env0, db1) = Reply 200 (BSnapshot sent1)"
proof -
  have r: "request_since (watch_request (poll_request client0)) = Inr (-1)"
    using watch_request_reads(1)[of "poll_request client0"] by (simp add: max_int64_def)
  have p: "request_prefixes (watch_request (poll_request client0)) = Inr [''app:'']"
    using watch_request_reads(2)[of "poll_request client0"]
    by (simp add: request_prefixes_def maxPrefixes_def Let_def)
  have w: "Wait (-1) (swatch service1) ByCtx (swatch service1) = (1, True)"
    by (simp add: Wait_def wait_begin_def service1_def)
  have "fst (ReadRevision env0 db1) = Inr 1" by (simp add: ReadRevision_no_fault)
  moreover have "map to_entry (select_configs (\<lambda>s. s) (list_all_rows MySQL [''app:'']) (list_args MySQL [''app:''])
      (tabs db1)) = sConfigs sent1"
    using ListPrefixes_rows[of env0 MySQL "[''app:'']" db1] sent1_rows by (simp add: ListPrefixes_no_fault)
  ultimately show ?thesis
    by (simp add: handleWatch_def r p w server_snapshot_def ListPrefixes_no_fault reply_snapshot_def)
       (simp add: sent1_def)
qed

lemma client0_polls: "http_polls se0 (\<lambda>s. s) MySQL service1 service1 (-1) [''app:''] (Some (1, sConfigs sent1))"
proof -
  have db: "sdb service1 = db1" by (simp add: service1_def)
  obtain b where b: "marshal_snapshot sent1 = Some b" using sent1_text by blast
  have "length b \<le> maxBodySize" using sent1_deliverable b by (simp add: deliverable_def)
  then have "unmarshal_snapshot (take maxBodySize b) = Some sent1"
    using unmarshal_marshal[OF sent1_wire b] by simp
  then have "http_poll se0 MySQL (poll_request client0) service1 ByCtx service1 service1 (env0, service1) (env0, service1)
      (env0, service1) = Inr (Some sent1)"
    using client0_answer b by (simp add: http_poll_def db watch_response_def poll_answer_def)
  then show ?thesis
    unfolding http_polls_def
    by (intro exI[of _ "poll_request client0"] exI[of _ service1] exI[of _ ByCtx] exI[of _ env0])
       (use client0_answer sent1_deliverable in \<open>simp add: db srv_later.refl max_int64_def sent1_def\<close>)
qed

theorem http_source_converges_witness:
  "content (snap (snd (fetchOnce cenv0 (\<lambda>_. Inr (Some sent1)) True client0))) ''app:a'' = Some (''30s'', ''raw'') \<and>
   content (snap (snd (fetchOnce cenv0 (\<lambda>_. Inr (Some sent1)) True client0))) ''app:b'' = None"
proof -
  obtain err c' where f: "fetchOnce cenv0 (\<lambda>_. Inr (Some sent1)) True client0 = (err, c')"
    by (cases "fetchOnce cenv0 (\<lambda>_. Inr (Some sent1)) True client0")
  have "http_polls se0 (\<lambda>s. s) MySQL service1 service1 (Since (poll_request client0))
      (PollRequest.Prefixes (poll_request client0)) (map_option (\<lambda>sn. (sRevision sn, sConfigs sn)) (Some sent1))"
    using client0_polls by (simp add: sent1_def)
  from http_source_converges[OF service1_settled(1) _ this f] service1_settled
  have c: "content (snap c') k = (if under [''app:''] k then db_content (sdb service1) k else None)" for k by simp
  have "config_row ''app:b'' (tabs db1) = None"
    by (simp add: db1_def config_row_written) (simp add: empty_db_def config_row_def)
  then show ?thesis
    using c[of "''app:a''"] c[of "''app:b''"] f
    by (simp add: under_def db_content_def service1_def FormatRaw_def)
qed

text \<open>
  C24. Convergence of a client that reads the database. Once nobody writes any more, one refresh
  whose poll ends without an error makes the snapshot the content of the database: every key
  under the configured prefixes has the value and format of its current row or is absent like
  it, no other key is there, and the revision is the current one. This holds of every client
  whose revision differs from the database's, whatever it holds, and of every client that
  lived with this database from its first start on (no fallback file, or one that such a
  client with the same prefixes left). A client that started from another file, written for
  other prefixes or before a restore, is not covered while its revision happens to be the
  current one: see \<open>foreign_fallback_kept\<close>.
\<close>

theorem client_converges:
  assumes "0 \<le> db_revision d"
    and "rounds_between coll d d rds" and "source_poll dia (poll_request c) rds = Some (Inr out)"
    and "fetchOnce e (\<lambda>_. Inr out) notif c = (err, c')"
    and "client_run one_row_per_key later (db_polls coll dia) d c \<or>
      one_row_per_key d \<and> vRevision (snap c) \<noteq> db_revision d"
  shows "err = None \<and> vRevision (snap c') = db_revision d \<and>
    (\<forall>k. content (snap c') k = (if under (prefixes_opt (opt c)) k then db_content d k else None))"
proof -
  have "one_row_per_key d" using assms(5) dbclient.client_run_low by blast
  note rows = rows_content_db[OF this]
  have id: "(\<lambda>sn. \<lparr>sRevision = sRevision sn, sConfigs = sConfigs sn\<rparr>) = (\<lambda>sn. sn)" by (rule ext) simp
  have "db_polls coll dia d d (Since (poll_request c)) (PollRequest.Prefixes (poll_request c))
      (map_option (\<lambda>sn. (sRevision sn, sConfigs sn)) out)"
    unfolding db_polls_def using assms(2,3)
    by (intro exI[of _ rds] exI[of _ "poll_request c"]) (simp add: option.map_comp comp_def id option.map_ident)
  from dbclient.client_converges_lemma[OF _ assms(1,5) this assms(4)] show ?thesis by (simp add: rows)
qed

definition round1 :: round where
  "round1 = \<lparr>rev_env = env0, rev_db = db1, list_env = env0, list_db = db1, ctx_done = True\<rparr>"

lemma rounds1: "rounds_between (\<lambda>s. s) db1 db1 [round1]"
  by (rule rounds_between.more) (simp_all add: round1_def later.same rounds_between.none)

lemma poll1:
  assumes "PollRequest.Prefixes q = [''app:'']"
  shows "source_poll MySQL q [round1] = Some (Inr (if Since q = 1 then None else Some sent1))"
proof -
  have "fst (ReadRevision env0 db1) = Inr 1" by (simp add: ReadRevision_no_fault)
  moreover have "map to_entry (select_configs (\<lambda>s. s) (list_all_rows MySQL [''app:'']) (list_args MySQL [''app:''])
      (tabs db1)) = sConfigs sent1"
    using ListPrefixes_rows[of env0 MySQL "[''app:'']" db1] sent1_rows by (simp add: ListPrefixes_no_fault)
  ultimately show ?thesis
    using assms by (auto simp: round1_def source_fetch_def ListPrefixes_no_fault) (simp_all add: sent1_def)
qed

text \<open>
  The witness goes through both: the client starts on the database, and its next refresh is told
  that nothing has changed.
\<close>

definition client2 :: client where
  "client2 = snd (New cenv0 (\<lambda>_. Inr (Some sent1)) 0 [WithPrefixes [''app:'']] \<lparr>main_file = None, tmp_file = None\<rparr>)"

lemma client2_run: "client_run one_row_per_key later (db_polls (\<lambda>s. s) MySQL) db1 client2"
  "prefixes_opt (opt client2) = [''app:'']" "vRevision (snap client2) = 1"
proof -
  let ?k = "\<lparr>main_file = None, tmp_file = None\<rparr>" and ?o = "[WithPrefixes [''app:'']]"
  have n: "New cenv0 (\<lambda>_. Inr (Some sent1)) 0 ?o ?k = (None, client2)"
    unfolding client2_def by (simp add: New_def fetchOnce_def hasSnapshot_def sent1_def Let_def)
  have "db_polls (\<lambda>s. s) MySQL db1 db1 (-1) [''app:''] (Some (sRevision sent1, sConfigs sent1))"
    unfolding db_polls_def using rounds1 poll1[of "poll_request client0"]
    by (intro exI[of _ "[round1]"] exI[of _ "poll_request client0"]) simp
  then have p: "polled later (db_polls (\<lambda>s. s) MySQL) db1 db1 client0 (Inr (Some sent1))"
    by (simp add: polled_def later.same)
  show "client_run one_row_per_key later (db_polls (\<lambda>s. s) MySQL) db1 client2"
    by (rule client_run.start[where k = ?k and opts = ?o and ans = "Inr (Some sent1)" and e = cenv0 and tm = 0
          and s = db1])
       (use wf_one_row[OF wf_db1] p n in \<open>simp_all add: client0_def\<close>)
  have c2: "client2 = markSuccess 0 (apply_snapshot cenv0 sent1 False client0)"
    unfolding client2_def client0_def by (simp add: New_def fetchOnce_def hasSnapshot_def sent1_def Let_def)
  show "prefixes_opt (opt client2) = [''app:'']" "vRevision (snap client2) = 1"
    unfolding c2 by (simp_all add: sent1_def)
qed

theorem client_converges_witness:
  "source_poll MySQL (poll_request client2) [round1] = Some (Inr None) \<and>
   content (snap client2) ''app:a'' = Some (''30s'', ''raw'')"
proof -
  have p: "source_poll MySQL (poll_request client2) [round1] = Some (Inr None)"
    using poll1[of "poll_request client2"] client2_run(2,3) by (simp add: poll_request_def)
  have f: "fetchOnce cenv0 (\<lambda>_. Inr None) True client2 = (None, client2)" by (simp add: fetchOnce_def)
  have "0 \<le> db_revision db1" by (simp add: db_revision_def)
  from client_converges[OF this rounds1 p f] client2_run
  have "content (snap client2) ''app:a'' = db_content db1 ''app:a''" by (simp add: under_def)
  then show ?thesis using p by (simp add: db_content_def FormatRaw_def)
qed

text \<open>
  What the properties leave out: a client for the prefix \<open>app:\<close> that starts while the database
  cannot be reached, from a file that another configuration left and whose revision is the
  current one. It is told "unchanged" and keeps the foreign content, without the key \<open>app:a\<close>.
\<close>

definition foreign :: Snapshot where
  "foreign = \<lparr>sRevision = 1, sConfigs = [\<lparr>eKey = ''web:x'', eValue = ''1'', eFormat = ''raw''\<rparr>]\<rparr>"

lemma foreign_fallback_kept:
  assumes "unmarshal_snapshot data = Some foreign"
    and "New cenv0 (\<lambda>_. Inl (SourceErr False [])) 0 [WithFallbackFile ''f'', WithPrefixes [''app:'']]
      \<lparr>main_file = Some (data, 384), tmp_file = None\<rparr> = (err, c)"
  shows "err = None \<and> source_poll MySQL (poll_request c) [round1] = Some (Inr None) \<and>
    fetchOnce cenv0 (\<lambda>_. Inr None) True c = (None, c) \<and>
    content (snap c) ''app:a'' = None \<and> db_content db1 ''app:a'' = Some (''30s'', ''raw'') \<and>
    content (snap c) ''web:x'' = Some (''1'', ''raw'')"
proof -
  let ?o = "build_options [WithFallbackFile ''f'', WithPrefixes [''app:'']]"
  have o: "prefixes_opt ?o = [''app:'']" "fallbackPath ?o = ''f''"
    by (simp_all add: build_options_def default_options_def normalizePrefixes_def Let_def)
  have c: "err = None" "snap c = newView foreign" "prefixes_opt (opt c) = [''app:'']"
    using assms o by (auto simp: New_def fetchOnce_def loadFallback_def readFallback_def fresh_client_def)
  have "vRevision (snap c) = 1" by (simp add: c(2) foreign_def)
  then have "source_poll MySQL (poll_request c) [round1] = Some (Inr None)"
    using poll1[of "poll_request c"] c(3) by (simp add: poll_request_def)
  moreover have "content (snap c) ''app:a'' = None" "content (snap c) ''web:x'' = Some (''1'', ''raw'')"
    by (simp_all add: c(2) content_def lookup_newView foreign_def)
  ultimately show ?thesis using c(1) by (simp add: fetchOnce_def db_content_def FormatRaw_def)
qed

end
