(* ===== verification/Server_Props.thy ===== *)
theory Server_Props
  imports Server_Handler Store_Props
begin

text \<open>
  The properties of the server: labels of snapshots, long polls that end unchanged, what a write
  over HTTP reports and leaves, and which requests reach which handler.
\<close>

section \<open>Properties\<close>

text \<open>
  C18. A snapshot is never labelled too high. Whatever the watcher holds, and whoever writes in
  between, a snapshot that the list or the watch endpoint returns consists of the rows under
  the requested prefixes at one moment, and its label is at most the revision the database had
  before; so whoever finds the revision still equal to the label holds the current rows.
\<close>

theorem server_label_never_high:
  assumes "handleWatch dia r w0 why w1 w2 c0 c1 c2 = Reply st (BSnapshot s) \<or>
      handleList dia w0 r c0 c1 c2 = Reply st (BSnapshot s)"
    and "later (snd c1) (snd c2)" and "later (snd c2) d"
  shows "\<exists>ps. request_prefixes r = Inr ps \<and>
    sRevision s \<le> db_revision (snd c1) \<and> sConfigs s = db_rows (collate (fst c2)) (snd c2) ps \<and>
    (sRevision s = db_revision d \<longrightarrow> sConfigs s = db_rows (collate (fst c2)) d ps)"
proof -
  obtain rv ps where ps: "request_prefixes r = Inr ps" and snap: "server_snapshot dia rv ps c1 c2 = Inr s"
    using assms(1) by (elim disjE) (auto dest!: handleWatch_snapshot handleList_snapshot)
  note s = server_snapshot_low[OF snap]
  have low: "db.low_label (collate (fst c2)) d ps (sRevision s) (sConfigs s)"
    unfolding s(2)
    by (rule db.low_label_later[OF db.smaller_label[OF db.revision_then_rows[OF assms(2) later.same]] assms(3)])
       (simp add: s(1))
  then show ?thesis
    using ps s db.current_label_current_data[of "collate (fst c2)" d ps "sConfigs s"] by auto
qed

definition list_request :: http_request where
  "list_request = \<lparr>path_key = [], query_params = [(''prefix'', ''app:''), (''revision'', ''0'')],
     req_body = [], body_err = False\<rparr>"

lemma list_request_simps [simp]:
  "request_prefixes list_request = Inr [''app:'']" "request_since list_request = Inr 0"
proof -
  show "request_prefixes list_request = Inr [''app:'']"
    by (simp add: list_request_def request_prefixes_def query_all_def maxPrefixes_def Let_def)
  have "digit_val CHR ''0'' = Some 0" by (simp add: digit_val_def)
  then show "request_since list_request = Inr 0"
    by (simp add: list_request_def request_since_def query_get_def ParseInt_def)
qed

lemma ListPrefixes_env0: "ListPrefixes env0 dia ps d = (Inr (select_configs (\<lambda>s. s) (list_all_rows dia ps) (list_args dia ps) (tabs d)), d)"
  by (simp add: ListPrefixes_no_fault)

theorem server_label_never_high_witness:
  "\<exists>s. handleWatch MySQL list_request (watcher_set 5 newRevisionWatcher) ByCtx newRevisionWatcher newRevisionWatcher
        (env0, db1) (env0, db1) (env0, db1) = Reply 200 (BSnapshot s) \<and> sRevision s \<le> 1"
proof -
  have "fst (ReadRevision env0 db1) = Inr 1" by (simp add: ReadRevision_no_fault)
  then obtain s where s: "handleWatch MySQL list_request (watcher_set 5 newRevisionWatcher) ByCtx newRevisionWatcher
      newRevisionWatcher (env0, db1) (env0, db1) (env0, db1) = Reply 200 (BSnapshot s)"
    by (simp add: handleWatch_def Wait_def wait_begin_def server_snapshot_def ListPrefixes_env0 reply_snapshot_def)
  have "db_revision db1 = 1" by (simp add: db_revision_def)
  then show ?thesis
    using server_label_never_high[OF disjI1[OF s], of db1] s later.same by auto
qed

text \<open>
  C19. A long poll ends with 304 exactly when the request was well formed and had a baseline,
  the watermark equalled it when the poll began, and the poll ended by its time or by the
  shutdown; in every other case it does not say "unchanged".
\<close>

theorem watch_not_modified_iff:
  "handleWatch dia r w0 why w1 w2 c0 c1 c2 = Reply 304 b \<longleftrightarrow>
     b = NoBody \<and> (\<exists>since ps. request_since r = Inr since \<and> request_prefixes r = Inr ps \<and>
       0 \<le> since \<and> wRev w0 = since \<and> why \<noteq> ByChanged)"
  by (rule handleWatch_304_iff)

theorem watch_not_modified_iff_witness:
  "handleWatch MySQL list_request (watcher_set 0 newRevisionWatcher) ByCtx (watcher_set 0 newRevisionWatcher)
     newRevisionWatcher (env0, db1) (env0, db1) (env0, db1) = Reply 304 NoBody"
  by (subst watch_not_modified_iff) simp

text \<open>An error that says "cancelled" comes from a statement that was cancelled.\<close>

definition cancel_sound :: "dbenv \<Rightarrow> 'a dbact \<Rightarrow> bool" where
  "cancel_sound e m \<longleftrightarrow> (\<forall>d. fst (m d) = Inl (ErrDriver DBCanceled) \<longrightarrow> (\<exists>st. fault e st = Some DBCanceled))"

named_theorems cancel

lemma cancel_sound_simple [cancel]:
  "cancel_sound e (ret x)" "err \<noteq> ErrDriver DBCanceled \<Longrightarrow> cancel_sound e (throw err)"
  "r \<noteq> Some (ErrDriver DBCanceled) \<Longrightarrow> cancel_sound e (check r)"
  by (auto simp: cancel_sound_def check_def split: option.splits)

lemma cancel_sound_andThen [cancel]:
  "cancel_sound e m \<Longrightarrow> (\<And>x. cancel_sound e (f x)) \<Longrightarrow> cancel_sound e (andThen m f)"
  unfolding cancel_sound_def andThen_def
proof (intro allI impI)
  fix d
  assume "\<forall>d. fst (m d) = Inl (ErrDriver DBCanceled) \<longrightarrow> (\<exists>st. fault e st = Some DBCanceled)"
    and "\<And>x. \<forall>d. fst (f x d) = Inl (ErrDriver DBCanceled) \<longrightarrow> (\<exists>st. fault e st = Some DBCanceled)"
    and "fst (case m d of (Inl err, u) \<Rightarrow> (Inl err, u) | (Inr x, u) \<Rightarrow> f x u) = Inl (ErrDriver DBCanceled)"
  then show "\<exists>st. fault e st = Some DBCanceled"
    by (cases "m d"; cases "fst (m d)") (auto, metis fst_conv)
qed

lemma cancel_sound_run:
  "(\<And>d. fst (q d) \<noteq> Inl DBCanceled) \<Longrightarrow> cancel_sound e (run e st q)"
  unfolding cancel_sound_def run_def
proof (intro allI impI)
  fix d
  assume "\<And>d. fst (q d) \<noteq> Inl DBCanceled"
    and "fst (case fault e st of Some x \<Rightarrow> (Inl (ErrDriver x), d)
      | None \<Rightarrow> (case q d of (Inl x, d') \<Rightarrow> (Inl (ErrDriver x), d') | (Inr v, d') \<Rightarrow> (Inr v, d'))) =
        Inl (ErrDriver DBCanceled)"
  then show "\<exists>st. fault e st = Some DBCanceled"
    by (cases "q d"; cases "fst (q d)"; cases "fault e st") (auto, metis fst_conv)
qed

lemma cancel_sound_query [cancel]: "cancel_sound e (query e st q)"
  unfolding query_def by (rule cancel_sound_run) simp

lemma cancel_sound_sql [cancel]:
  "cancel_sound e (run e st sql_update_revision)" "cancel_sound e (run e st (sql_delete key))"
  "cancel_sound e (run e st (sql_upsert t key val format author))"
  "cancel_sound e (run e st (sql_insert_history t key val format ver op' comment author))"
  by (rule cancel_sound_run;
      simp add: sql_update_revision_def sql_delete_def sql_upsert_def sql_insert_history_def Let_def
        split: option.splits)+

lemma cancel_sound_bump [cancel]: "cancel_sound e (BumpRevision e dia)"
proof (cases dia)
  case MySQL
  then show ?thesis by (auto intro!: cancel split: option.splits)
next
  case Postgres
  have "fst (case sql_update_revision d of (Inl x, d') \<Rightarrow> (Inl x, d')
      | (Inr n, d') \<Rightarrow> (Inr (if n = 0 then None else meta (tabs d')), d')) \<noteq> Inl DBCanceled" for d
    by (auto simp: sql_update_revision_def split: option.splits)
  then show ?thesis using Postgres by (auto intro!: cancel cancel_sound_run split: option.splits)
qed

lemma cancel_sound_resolve [cancel]: "cancel_sound e (req_resolve e q cur)"
  by (cases q)
     (auto simp: resolve_set_def resolve_delete_def resolve_rollback_def intro!: cancel split: option.splits)

lemma cancel_sound_withTx [cancel]: "cancel_sound e m \<Longrightarrow> cancel_sound e (withTx e m)"
  unfolding cancel_sound_def
proof (intro allI impI)
  fix d
  assume "\<forall>d. fst (m d) = Inl (ErrDriver DBCanceled) \<longrightarrow> (\<exists>st. fault e st = Some DBCanceled)"
    and "fst (withTx e m d) = Inl (ErrDriver DBCanceled)"
  then show "\<exists>st. fault e st = Some DBCanceled"
    by (cases "m d"; cases "fst (m d)"; cases "fault e SBegin"; cases "fault e SCommit")
       (auto simp: withTx_def, (metis fst_conv)+)
qed

lemma cancel_sound_perform: "cancel_sound e (perform e dia q)"
  unfolding perform_db_write db_write_def write_body_def getConfig_def Let_def
  by (auto intro!: cancel split: prod.splits option.splits)

text \<open>The value and format that a write request asks for: its own, the current row's, those of a version.\<close>

definition set_content :: "http_request \<Rightarrow> (string \<times> Format) option" where
  "set_content r = map_option (Pair (req_body r)) (parseFormat (query_get ''format'' r))"

definition delete_content :: "http_request \<Rightarrow> db \<Rightarrow> (string \<times> Format) option" where
  "delete_content r d = map_option (\<lambda>c. (cValue c, cFormat c)) (config_row (path_key r) (tabs d))"

definition rollback_content :: "http_request \<Rightarrow> db \<Rightarrow> (string \<times> Format) option" where
  "rollback_content r d =
     Option.bind (decode_rollback (req_body r)) (\<lambda>ver. history_at (path_key r) ver (tabs d))"

definition write_done :: "dbenv \<Rightarrow> http_request \<Rightarrow> db \<Rightarrow> Op \<Rightarrow> (string \<times> Format) option \<Rightarrow> db \<Rightarrow> bool" where
  "write_done e r d op' vf d' \<longleftrightarrow>
     (\<exists>val format. vf = Some (val, format) \<and> d' = written e (path_key r) op' (request_change r) val format d)"

definition receipt :: "http_request \<Rightarrow> db \<Rightarrow> reply \<Rightarrow> bool" where
  "receipt r d' rep \<longleftrightarrow> (\<exists>wr. rep = Reply 200 (BWrite wr) \<and> wrKey wr = path_key r \<and>
     meta (tabs d') = Some (wrRevision wr) \<and> hVersion (last (history (tabs d'))) = wrVersion wr)"

definition write_answered ::
    "dbenv \<Rightarrow> http_request \<Rightarrow> db \<Rightarrow> Op \<Rightarrow> (string \<times> Format) option \<Rightarrow> reply \<times> db \<Rightarrow> bool" where
  "write_answered e r d op' vf hw \<longleftrightarrow>
    receipt r (snd hw) (fst hw) \<and> write_done e r d op' vf (snd hw) \<or>
    (\<forall>st wr. fst hw \<noteq> Reply st (BWrite wr)) \<and>
    (tabs (snd hw) = tabs d \<or> fault e SCommit \<noteq> None \<and> write_done e r d op' vf (snd hw)) \<and>
    (\<forall>b. fst hw = Reply 200 b \<longrightarrow> b = NoBody \<and> (\<exists>st. fault e st = Some DBCanceled))"

lemma perform_written:
  assumes "write_body e dia (req_key q) (req_op q) c (req_resolve e q) d = (Inr res, d')"
  shows "\<exists>rv val format. meta (tabs d) = Some rv \<and>
    fst (req_resolve e q (config_row (req_key q) (tabs d)) (bumped d)) = Inr (val, format) \<and>
    res = \<lparr>Revision = rv + 1, Version = int64 (max_version (req_key q) (tabs d) + 1)\<rparr> \<and>
    d' = written e (req_key q) (req_op q) c val format d"
  using write_body_Inr[OF assms reads_only_req] by blast

lemma reply_write_answered:
  assumes q: "req_key q = path_key r" "req_change q = request_change r"
    and vf: "\<And>x. fst (req_resolve e q (config_row (req_key q) (tabs d)) (bumped d)) = Inr x \<Longrightarrow> vf = Some x"
  shows "write_answered e r d (req_op q) vf (reply_write (path_key r) (perform e dia q d))"
proof -
  obtain x d' where p: "perform e dia q d = (x, d')" by (cases "perform e dia q d")
  show ?thesis
  proof (cases x)
    case (Inl err)
    have w: "db_write e dia (req_key q) (req_op q) (req_change q) (req_resolve e q) d = (Inl err, d')"
      using p Inl by (simp add: perform_db_write)
    have "tabs d' = tabs d \<or> fault e SCommit \<noteq> None \<and> write_done e r d (req_op q) vf d'"
      using db_write_Inl[OF w] perform_written[of e dia q "req_change q" d _ d'] q vf
      by (fastforce simp: write_done_def)
    moreover have "err = ErrDriver DBCanceled \<Longrightarrow> \<exists>st. fault e st = Some DBCanceled"
      using cancel_sound_perform[of e dia q] p Inl by (auto simp: cancel_sound_def dest!: spec[of _ d])
    ultimately show ?thesis using p Inl by (auto simp: reply_write_def write_answered_def fail_200)
  next
    case (Inr res)
    have "write_body e dia (req_key q) (req_op q) (req_change q) (req_resolve e q) d = (Inr res, d')"
      using p Inr by (simp add: perform_db_write db_write_Inr_iff)
    from perform_written[OF this] obtain rv val format where
        "meta (tabs d) = Some rv" "res = \<lparr>Revision = rv + 1, Version = int64 (max_version (req_key q) (tabs d) + 1)\<rparr>"
        "fst (req_resolve e q (config_row (req_key q) (tabs d)) (bumped d)) = Inr (val, format)"
        "d' = written e (req_key q) (req_op q) (req_change q) val format d" by blast
    then show ?thesis
      using p Inr q vf by (auto simp: reply_write_def writeResult_def write_answered_def write_done_def receipt_def)
  qed
qed

lemma refusal_answered: "(\<And>b. rep \<noteq> Reply 200 b) \<Longrightarrow> (\<And>st wr. rep \<noteq> Reply st (BWrite wr)) \<Longrightarrow>
    write_answered e r d op' vf (rep, d)"
  by (simp add: write_answered_def)

lemma parseFormat_not_empty: "parseFormat v = Some f \<Longrightarrow> f \<noteq> []"
  by (auto simp: parseFormat_def FormatRaw_def FormatJSON_def FormatYAML_def split: if_splits)

lemma set_answered: "write_answered e r d OpSet (set_content r) (handleSet dia r e d)"
proof (cases "parseFormat (query_get ''format'' r)")
  case None
  then show ?thesis by (simp add: handleSet_def refusal_answered)
next
  case (Some f)
  have f: "f \<noteq> []" using parseFormat_not_empty[OF Some] .
  have "write_answered e r d OpSet (set_content r) (reply_write (path_key r)
      (Set e dia (path_key r) (req_body r) f (request_change r) d))"
    using reply_write_answered[of "ReqSet (path_key r) (req_body r) f (request_change r)" r e d "set_content r" dia]
    by (simp add: set_content_def Some f resolve_set_def)
  then show ?thesis
    by (auto simp: handleSet_def Some readBody_def refusal_answered)
qed

lemma delete_answered: "write_answered e r d OpDelete (delete_content r d) (handleDelete dia r e d)"
  using reply_write_answered[of "ReqDelete (path_key r) (request_change r)" r e d "delete_content r d" dia]
  by (cases "config_row (path_key r) (tabs d)")
     (simp_all add: handleDelete_def delete_content_def resolve_delete_def)

lemma rollback_answered: "write_answered e r d OpRollback (rollback_content r d) (handleRollback dia r e d)"
proof (cases "decode_rollback (req_body r)")
  case None
  then show ?thesis by (simp add: handleRollback_def readBody_def refusal_answered)
next
  case (Some ver)
  have "x = vf" if "fst (resolve_rollback e (path_key r) ver cur (bumped d)) = Inr x"
      "history_at (path_key r) ver (tabs d) = Some vf" for x cur vf
    using that by (auto simp: resolve_rollback_def andThen_def query_def run_def split: option.splits)
  moreover have "history_at (path_key r) ver (tabs d) \<noteq> None"
    if "fst (resolve_rollback e (path_key r) ver cur (bumped d)) = Inr x" for x cur
    using that by (auto simp: resolve_rollback_def andThen_def query_def run_def split: option.splits)
  ultimately have "write_answered e r d OpRollback (rollback_content r d)
      (reply_write (path_key r) (Rollback e dia (path_key r) ver (request_change r) d))"
    using reply_write_answered[of "ReqRollback (path_key r) ver (request_change r)" r e d "rollback_content r d" dia]
    by (fastforce simp: rollback_content_def Some)
  then show ?thesis
    by (auto simp: handleRollback_def Some readBody_def refusal_answered)
qed

text \<open>
  C20. A write over HTTP is answered with a receipt (200 and the key, the next revision and the
  version that the history gained) only for the complete write that was asked for: a set
  stores the body in the format named by the query, a delete records the current row, a
  rollback stores what the named version holds. Without a receipt the tables are as they were,
  unless the database reported its commit as failed although it took effect: then exactly that
  write is stored. Status 200 without a receipt is possible: it has an empty body and is sent
  only when the database cancelled a statement: the context of the request has ended, because the
  client has gone or the server shuts down.
\<close>

theorem http_write_atomic:
  assumes "hw = handleSet dia r e d \<and> op' = OpSet \<and> vf = set_content r \<or>
    hw = handleDelete dia r e d \<and> op' = OpDelete \<and> vf = delete_content r d \<or>
    hw = handleRollback dia r e d \<and> op' = OpRollback \<and> vf = rollback_content r d"
  shows "(\<exists>wr val format. fst hw = Reply 200 (BWrite wr) \<and> wrKey wr = path_key r \<and>
      vf = Some (val, format) \<and> snd hw = written e (path_key r) op' (request_change r) val format d \<and>
      meta (tabs (snd hw)) = Some (wrRevision wr) \<and>
      hVersion (last (history (tabs (snd hw)))) = wrVersion wr) \<or>
    (\<forall>st wr. fst hw \<noteq> Reply st (BWrite wr)) \<and>
    (tabs (snd hw) = tabs d \<or> fault e SCommit \<noteq> None \<and>
      (\<exists>val format. vf = Some (val, format) \<and>
        snd hw = written e (path_key r) op' (request_change r) val format d)) \<and>
    (\<forall>b. fst hw = Reply 200 b \<longrightarrow> b = NoBody \<and> (\<exists>st. fault e st = Some DBCanceled))"
proof -
  have "write_answered e r d op' vf hw"
    using assms set_answered[of e r d dia] delete_answered[of e r d dia] rollback_answered[of e r d dia] by auto
  then show ?thesis unfolding write_answered_def receipt_def write_done_def by blast
qed

definition delete_request :: http_request where
  "delete_request = \<lparr>path_key = ''app:a'', query_params = [], req_body = [], body_err = False\<rparr>"

lemma delete_request_valid:
  "path_key delete_request = ''app:a''" "ValidateKey ''app:a'' = None"
  "ValidateChange (request_change delete_request) = None"
  by (simp_all add: delete_request_def ValidateKey_None ValidateChange_def request_change_def query_get_def
      defaultAuthor_def limit_defs key_char_def)

text \<open>The first statement of a delete is cancelled: the client reads 200 and the key is still there.\<close>

definition env_cancelled :: dbenv where
  "env_cancelled = env0\<lparr>fault := (\<lambda>st. if st = SBegin then Some DBCanceled else None)\<rparr>"

lemma cancelled_write_answered_200: "handleDelete MySQL delete_request env_cancelled db1 = (Reply 200 NoBody, db1)"
  using delete_request_valid
  by (simp add: handleDelete_def reply_write_def Delete_def db_write_def withTx_def env_cancelled_def fail_def)

theorem http_write_atomic_witness:
  "status (fst (handleDelete MySQL delete_request env0 db1)) = 200 \<and>
   hOp (last (history (tabs (snd (handleDelete MySQL delete_request env0 db1))))) = OpDelete \<and>
   hValue (last (history (tabs (snd (handleDelete MySQL delete_request env0 db1))))) = ''30s'' \<and>
   tabs (snd (handleDelete MySQL delete_request env_cancelled db1)) = tabs db1"
proof -
  let ?hw = "handleDelete MySQL delete_request env0 db1"
  have row: "delete_content delete_request db1 = Some (''30s'', ''raw'')"
    by (simp add: delete_content_def delete_request_valid(1) FormatRaw_def)
  obtain res d' where del: "Delete env0 MySQL ''app:a'' (request_change delete_request) db1 = (Inr res, d')"
    using delete_success[of env0 db1 "''app:a''" "request_change delete_request" _ MySQL] wf_db1 delete_request_valid row
    by (auto simp: ready_def delete_content_def max_int64_def db1_def)
  then have "\<exists>wr. fst ?hw = Reply 200 (BWrite wr)"
    by (simp add: handleDelete_def delete_request_valid(1) reply_write_def writeResult_def)
  then have "status (fst ?hw) = 200 \<and> (\<exists>c. snd ?hw = written env0 ''app:a'' OpDelete c ''30s'' ''raw'' db1)"
    using http_write_atomic[of ?hw MySQL delete_request env0 db1 OpDelete "delete_content delete_request db1"]
      row delete_request_valid(1) by auto
  moreover have "tabs (snd (handleDelete MySQL delete_request env_cancelled db1)) = tabs db1"
    using http_write_atomic[of "handleDelete MySQL delete_request env_cancelled db1" MySQL delete_request
        env_cancelled db1 OpDelete "delete_content delete_request db1"] cancelled_write_answered_200 by auto
  ultimately show ?thesis by auto
qed

text \<open>
  C21. Routing. A request for a valid key reaches the handler its method and path name, with
  exactly that key, for every valid key but the two that the path cleaning of the mux takes for
  directories; requests for those reach no key handler at all.
\<close>

theorem routes_reach_handlers:
  assumes "ValidateKey key = None"
  shows "(if key = ''.'' \<or> key = ''..'' then
       (\<forall>meth. dispatch meth (''v1/configs/'' @ PathEscape key) = None)
     else
       dispatch ''GET'' (''v1/configs/'' @ PathEscape key) = Some (EpGet key) \<and>
       dispatch ''PUT'' (''v1/configs/'' @ PathEscape key) = Some (EpSet key) \<and>
       dispatch ''DELETE'' (''v1/configs/'' @ PathEscape key) = Some (EpDelete key) \<and>
       dispatch ''GET'' (''v1/configs/'' @ PathEscape key @ ''/history'') = Some (EpHistory key) \<and>
       dispatch ''POST'' (''v1/configs/'' @ PathEscape key @ ''/rollback'') = Some (EpRollback key))"
proof -
  have plain: "path_plain c" if "key_char c" for c
    using that by (auto simp: key_char_def path_plain_def url_alnum_def)
  have "list_all key_char key" "key \<noteq> []" using assms by (simp_all add: ValidateKey_None)
  have "list_all key_char s \<Longrightarrow> PathEscape s = s" for s
    by (induction s) (auto simp: PathEscape_def plain)
  then have esc: "PathEscape key = key" using \<open>list_all key_char key\<close> by blast
  have ns: "CHR ''/'' \<notin> set key" using PathEscape_no_slash(1)[of key] esc by simp
  have un: "unescape_segment key = key" using PathUnescape_PathEscape[of key] esc by (simp add: unescape_segment_def)
  have lit: "unescape_segment ''v1'' = ''v1''" "unescape_segment ''configs'' = ''configs''"
    "unescape_segment ''history'' = ''history''" "unescape_segment ''rollback'' = ''rollback''"
    by (simp_all add: unescape_segment_def PathUnescape_def unescape_plain)
  have sp: "Split CHR ''/'' (''v1/configs/'' @ key) = [''v1'', ''configs'', key]"
    "Split CHR ''/'' (''v1/configs/'' @ key @ CHR ''/'' # t) = [''v1'', ''configs'', key, t]"
    if "CHR ''/'' \<notin> set t" for t
    using ns that by (simp_all add: Split_notin Split_append)
  have sp1: "Split CHR ''/'' (''v1/configs/'' @ key) = [''v1'', ''configs'', key]" using sp(1)[of "[]"] by simp
  show ?thesis
    using \<open>key \<noteq> []\<close> sp1 sp(2)[of "''history''"] sp(2)[of "''rollback''"]
    by (simp add: esc dispatch_def clean_path_def un lit match_route_def)
qed

theorem routes_reach_handlers_witness:
  "dispatch ''GET'' ''v1/configs/app:a/history'' = Some (EpHistory ''app:a'') \<and>
   dispatch ''DELETE'' ''v1/configs/..'' = None"
proof -
  have "ValidateKey ''app:a'' = None" "ValidateKey ''..'' = None"
    by (simp_all add: ValidateKey_None limit_defs key_char_def)
  moreover have "PathEscape ''app:a'' = ''app:a''" "PathEscape ''..'' = ''..''"
    by (simp_all add: PathEscape_def path_plain_def url_alnum_def)
  ultimately show ?thesis
    using routes_reach_handlers[of "''app:a''"] routes_reach_handlers[of "''..''"] by simp
qed

end
