(* ===== verification/GoDuration.thy ===== *)
theory GoDuration
  imports GoNum
begin

text \<open>
  \<open>time.ParseDuration\<close> of Go's standard library, over byte strings: terms of a decimal number and a
  unit, added up in unsigned 64-bit nanoseconds, with the library's overflow checks. The digits
  after a decimal point are scaled in floating point; what that product is, is the parameter \<open>frac\<close>
  of the fraction's digits, their number and the unit.
\<close>

section \<open>Numbers\<close>

fun leadingInt :: "nat \<Rightarrow> string \<Rightarrow> (nat \<times> string) option" where
  "leadingInt x [] = Some (x, [])"
| "leadingInt x (c # s) =
     (case digit_val c of
        None \<Rightarrow> Some (x, c # s)
      | Some d \<Rightarrow>
          if 2 ^ 63 div 10 < x \<or> 2 ^ 63 < x * 10 + d then None else leadingInt (x * 10 + d) s)"

text \<open>The digits that still fit, how many they are, and the rest behind all digits.\<close>

fun leadingFraction :: "nat \<Rightarrow> nat \<Rightarrow> bool \<Rightarrow> string \<Rightarrow> nat \<times> nat \<times> string" where
  "leadingFraction x n overflow [] = (x, n, [])"
| "leadingFraction x n overflow (c # s) =
     (case digit_val c of
        None \<Rightarrow> (x, n, c # s)
      | Some d \<Rightarrow>
          if overflow \<or> (2 ^ 63 - 1) div 10 < x \<or> 2 ^ 63 < x * 10 + d then leadingFraction x n True s
          else leadingFraction (x * 10 + d) (n + 1) False s)"

definition unit_ns :: "string \<Rightarrow> nat option" where
  "unit_ns u = map_of
     [(''ns'', 1), (''us'', 1000), ([CHR 0xC2, CHR 0xB5, CHR ''s''], 1000), ([CHR 0xCE, CHR 0xBC, CHR ''s''], 1000),
      (''ms'', 1000000), (''s'', 1000000000), (''m'', 60000000000), (''h'', 3600000000000)] u"

section \<open>Durations\<close>

definition unit_char :: "char \<Rightarrow> bool" where
  "unit_char c \<longleftrightarrow> c \<noteq> CHR ''.'' \<and> digit_val c = None"

text \<open>One term: its nanoseconds and what follows.\<close>

definition duration_term :: "(nat \<Rightarrow> nat \<Rightarrow> nat \<Rightarrow> nat) \<Rightarrow> string \<Rightarrow> (nat \<times> string) option" where
  "duration_term frac s =
     (case leadingInt 0 s of
        None \<Rightarrow> None
      | Some (v, s1) \<Rightarrow>
          (let point = (s1 \<noteq> [] \<and> hd s1 = CHR ''.'');
               (f, n, s2) = (if point then leadingFraction 0 0 False (tl s1) else (0, 0, s1));
               digits = (length s1 < length s \<or> point \<and> length s2 < length (tl s1));
               u = takeWhile unit_char s2
           in if \<not> digits \<or> u = [] then None
              else case unit_ns u of
                None \<Rightarrow> None
              | Some unit \<Rightarrow>
                  if 2 ^ 63 div unit < v then None
                  else let v2 = (if 0 < f then (v * unit + frac f n unit) mod 2 ^ 64 else v * unit)
                       in if 2 ^ 63 < v2 then None else Some (v2, dropWhile unit_char s2)))"

lemma leadingInt_le: "leadingInt x s = Some (v, r) \<Longrightarrow> length r \<le> length s"
  by (induction x s rule: leadingInt.induct) (auto split: option.splits if_splits)

lemma leadingFraction_le: "leadingFraction x n ov s = (f, k, r) \<Longrightarrow> length r \<le> length s"
  by (induction x n ov s rule: leadingFraction.induct) (auto split: option.splits if_splits)

lemma duration_term_shorter:
  assumes "duration_term frac s = Some (v, r)"
  shows "length r < length s"
proof -
  obtain v1 s1 where 1: "leadingInt 0 s = Some (v1, s1)"
    using assms by (auto simp: duration_term_def split: option.splits)
  obtain f n s2 where 2: "(if s1 \<noteq> [] \<and> hd s1 = CHR ''.'' then leadingFraction 0 0 False (tl s1) else (0, 0, s1)) = (f, n, s2)"
    by (metis prod_cases3)
  have "takeWhile unit_char s2 \<noteq> []" and r: "r = dropWhile unit_char s2"
    using assms by (auto simp: duration_term_def 1 2 Let_def split: option.splits if_splits)
  then have "length r < length s2"
    by (metis append_Nil length_append length_greater_0_conv less_add_same_cancel2 takeWhile_dropWhile_id)
  moreover have "length s2 \<le> length s1"
    using 2 leadingFraction_le[of 0 0 False "tl s1" f n s2] by (auto split: if_splits)
  ultimately show ?thesis using leadingInt_le[OF 1] by linarith
qed

function duration_sum :: "(nat \<Rightarrow> nat \<Rightarrow> nat \<Rightarrow> nat) \<Rightarrow> nat \<Rightarrow> string \<Rightarrow> nat option" where
  "duration_sum frac d s =
     (if s = [] then Some d
      else case duration_term frac s of
        None \<Rightarrow> None
      | Some (v, r) \<Rightarrow>
          (let d' = (d + v) mod 2 ^ 64 in if 2 ^ 63 < d' then None else duration_sum frac d' r))"
  by pat_completeness auto
termination
  by (relation "measure (\<lambda>(frac, d, s). length s)") (auto dest: duration_term_shorter)

declare duration_sum.simps [simp del]

definition ParseDuration :: "(nat \<Rightarrow> nat \<Rightarrow> nat \<Rightarrow> nat) \<Rightarrow> string \<Rightarrow> int option" where
  "ParseDuration frac s =
     (let neg = (s \<noteq> [] \<and> hd s = CHR ''-'');
          body = (if s \<noteq> [] \<and> (hd s = CHR ''-'' \<or> hd s = CHR ''+'') then tl s else s)
      in if body = ''0'' then Some 0
         else if body = [] then None
         else case duration_sum frac 0 body of
           None \<Rightarrow> None
         | Some d \<Rightarrow> if neg then Some (- int d) else if 2 ^ 63 - 1 < d then None else Some (int d))"

lemma duration_sum_bound: "duration_sum frac d s = Some n \<Longrightarrow> d \<le> 2 ^ 63 \<Longrightarrow> n \<le> 2 ^ 63"
proof (induction frac d s rule: duration_sum.induct)
  case (1 frac d s)
  note sum = "1.prems"(1)[unfolded duration_sum.simps[of frac d s]]
  show ?case
  proof (cases "s = []")
    case True
    then show ?thesis using sum "1.prems"(2) by simp
  next
    case False
    then obtain v r where v: "duration_term frac s = Some (v, r)" using sum by (auto split: option.splits)
    then show ?thesis
      using sum False "1.IH"[OF False v HOL.refl HOL.refl] by (auto simp: Let_def split: if_splits)
  qed
qed

lemma ParseDuration_range: "ParseDuration frac s = Some d \<Longrightarrow> - (2 ^ 63) \<le> d \<and> d < 2 ^ 63"
  using duration_sum_bound[of frac 0]
  by (fastforce simp: ParseDuration_def Let_def split: if_splits option.splits)

section \<open>Whole numbers of a unit\<close>

lemma leadingInt_nat_str: "m \<le> 2 ^ 63 \<Longrightarrow> leadingInt 0 (nat_str m @ s) = leadingInt m s"
proof (induction m arbitrary: s rule: nat_str.induct)
  case (1 n)
  show ?case
  proof (cases "n < 10")
    case True
    then show ?thesis by (simp add: nat_str.simps[of n])
  next
    case False
    have "n div 10 \<le> 2 ^ 63 div 10" using "1.prems" by (rule div_le_mono)
    moreover have "(n div 10) * 10 + n mod 10 = n" by simp
    ultimately show ?thesis
      using "1.IH"[OF False, of "digit_char (n mod 10) # s"] "1.prems" False
      by (subst nat_str.simps) simp
  qed
qed


lemma nat_str_head_digit: "\<exists>d<10. hd (nat_str m) = digit_char d"
  using nat_str_digits[of "hd (nat_str m)" m] nat_str_not_Nil by auto

lemma unit_chars_ns: "takeWhile unit_char ''ns'' = ''ns''" "dropWhile unit_char ''ns'' = []"
  by (simp_all add: unit_char_def digit_val_def)

lemma duration_term_ns: "m \<le> 2 ^ 63 \<Longrightarrow> duration_term frac (nat_str m @ ''ns'') = Some (m, [])"
  using unit_chars_ns by (simp add: duration_term_def leadingInt_nat_str Let_def unit_ns_def digit_val_def)

lemma duration_sum_ns: "m \<le> 2 ^ 63 \<Longrightarrow> duration_sum frac 0 (nat_str m @ ''ns'') = Some m"
  by (subst duration_sum.simps) (simp add: duration_term_ns duration_sum.simps[of frac m "[]"])

lemma ns_not_zero: "nat_str m @ ''ns'' \<noteq> ''0''"
proof
  assume "nat_str m @ ''ns'' = ''0''"
  from arg_cong[OF this, of length] show False by simp
qed

text \<open>A number of nanoseconds is read back, whatever the fractions are.\<close>

lemma ParseDuration_int_str:
  assumes "- (2 ^ 63) \<le> i" and "i < 2 ^ 63"
  shows "ParseDuration frac (int_str i @ ''ns'') = Some i"
proof (cases "i < 0")
  case True
  then show ?thesis
    using assms duration_sum_ns[of "nat (- i)" frac] by (simp add: ParseDuration_def int_str_def Let_def ns_not_zero)
next
  case False
  have "hd (nat_str (nat i) @ ''ns'') \<noteq> CHR ''-''" "hd (nat_str (nat i) @ ''ns'') \<noteq> CHR ''+''"
    using hd_nat_str[of "nat i"] by simp_all
  then show ?thesis
    using False assms duration_sum_ns[of "nat i" frac] by (simp add: ParseDuration_def int_str_def Let_def ns_not_zero)
qed

lemma ParseDuration_examples:
  "ParseDuration frac ''1500ms'' = Some 1500000000" "ParseDuration frac ''1h30m'' = Some 5400000000000"
  "ParseDuration frac ''-2s'' = Some (-2000000000)" "ParseDuration frac ''5'' = None" "ParseDuration frac ''.s'' = None"
  by (simp_all add: ParseDuration_def duration_sum.simps duration_term_def unit_ns_def unit_char_def digit_val_def Let_def)

end
