(* ===== verification/Client_Decode.thy ===== *)
theory Client_Decode
  imports Client_Core Json_Codec GoDuration "HOL-Library.Word"
begin

text \<open>
  Typed reads of the client: \<open>client/decode.go\<close>, the decode cache of \<open>client/view.go\<close>, \<open>Get\<close> and
  \<open>GetOr\<close> of \<open>client/group.go\<close> and \<open>client/client.go\<close>. The type parameter is a value of \<open>go_type\<close>;
  what is not one of the scalar types of the switch is \<open>TOther\<close> with its name. Integers are words of
  their width (a platform with 64-bit \<open>int\<close>). What parses floating-point numbers and structured
  documents is the record \<open>codecs\<close>: \<open>strconv.ParseFloat\<close>, the floating-point product with which
  \<open>time.ParseDuration\<close> scales a fraction, \<open>encoding/json/v2\<close> and \<open>yaml.v3\<close> on a Go type.
  Several goroutines may read at once; a run of their steps is a run of \<open>get_step\<close>.
\<close>

section \<open>Types, values, errors\<close>

datatype go_type =
  TString | TBytes | TBool | TDuration | TInt | TInt32 | TInt64 | TUint | TUint32 | TUint64 | TFloat32 | TFloat64
| TOther string

datatype 'd go_value =
  VString string
| VBytes string
| VBool bool
| VDuration "64 word"
| VInt "64 word"
| VInt32 "32 word"
| VInt64 "64 word"
| VUint "64 word"
| VUint32 "32 word"
| VUint64 "64 word"
| VFloat32 'd
| VFloat64 'd
| VOther string 'd

fun has_type :: "'d go_value \<Rightarrow> go_type \<Rightarrow> bool" where
  "has_type (VString s) t \<longleftrightarrow> t = TString"
| "has_type (VBytes s) t \<longleftrightarrow> t = TBytes"
| "has_type (VBool b) t \<longleftrightarrow> t = TBool"
| "has_type (VDuration d) t \<longleftrightarrow> t = TDuration"
| "has_type (VInt n) t \<longleftrightarrow> t = TInt"
| "has_type (VInt32 n) t \<longleftrightarrow> t = TInt32"
| "has_type (VInt64 n) t \<longleftrightarrow> t = TInt64"
| "has_type (VUint n) t \<longleftrightarrow> t = TUint"
| "has_type (VUint32 n) t \<longleftrightarrow> t = TUint32"
| "has_type (VUint64 n) t \<longleftrightarrow> t = TUint64"
| "has_type (VFloat32 f) t \<longleftrightarrow> t = TFloat32"
| "has_type (VFloat64 f) t \<longleftrightarrow> t = TFloat64"
| "has_type (VOther n d) t \<longleftrightarrow> t = TOther n"

datatype decode_error =
  ScalarErr string go_type
| JSONErr go_type
| YAMLErr go_type
| RawErr go_type

datatype get_error = GetNotFound string | GetDecode string decode_error

record 'd codecs =
  cdFloat :: "nat \<Rightarrow> string \<Rightarrow> 'd option"
  cdFraction :: "nat \<Rightarrow> nat \<Rightarrow> nat \<Rightarrow> nat"
  cdJSON :: "bool \<Rightarrow> string \<Rightarrow> string \<Rightarrow> 'd option"
  cdYAML :: "string \<Rightarrow> string \<Rightarrow> 'd option"
  cdYAMLStrict :: "string \<Rightarrow> string \<Rightarrow> 'd option"

definition fmtRaw :: string where "fmtRaw = ''raw''"
definition fmtJSON :: string where "fmtJSON = ''json''"
definition fmtYAML :: string where "fmtYAML = ''yaml''"

section \<open>Decoding\<close>

text \<open>\<open>utf8.DecodeRuneInString\<close>: an invalid byte counts for one.\<close>

definition rune_size :: "string \<Rightarrow> nat" where
  "rune_size s = (case utf8_len s of None \<Rightarrow> 1 | Some n \<Rightarrow> n)"

definition dots :: string where "dots = [CHR 0xE2, CHR 0x80, CHR 0xA6]"

fun truncate_runes :: "nat \<Rightarrow> string \<Rightarrow> string" where
  "truncate_runes n [] = []"
| "truncate_runes 0 (c # s) = dots"
| "truncate_runes (Suc n) (c # s) =
     take (rune_size (c # s)) (c # s) @ truncate_runes n (drop (rune_size (c # s)) (c # s))"

definition scalarErr :: "string \<Rightarrow> go_type \<Rightarrow> decode_error" where
  "scalarErr raw t = ScalarErr (truncate_runes 64 raw) t"

definition scalar :: "string \<Rightarrow> go_type \<Rightarrow> ('a \<Rightarrow> 'd go_value) \<Rightarrow> 'a option \<Rightarrow> decode_error + 'd go_value" where
  "scalar raw t mk r = (case r of None \<Rightarrow> Inl (scalarErr raw t) | Some x \<Rightarrow> Inr (mk x))"

fun type_name :: "go_type \<Rightarrow> string" where
  "type_name (TOther n) = n"
| "type_name t = []"

definition decode_structured ::
    "'d codecs \<Rightarrow> go_type \<Rightarrow> string \<Rightarrow> string \<Rightarrow> bool \<Rightarrow> decode_error + 'd go_value" where
  "decode_structured cd t raw format strict_on =
     (let n = type_name t; wrap = (\<lambda>err r. case r of None \<Rightarrow> Inl err | Some d \<Rightarrow> Inr (VOther n d)) in
      if format = fmtJSON then wrap (JSONErr t) (cdJSON cd strict_on n raw)
      else if format = fmtYAML then
        (if strict_on then wrap (YAMLErr t) (cdYAMLStrict cd n raw) else wrap (YAMLErr t) (cdYAML cd n raw))
      else Inl (RawErr t))"

definition decode :: "'d codecs \<Rightarrow> go_type \<Rightarrow> string \<Rightarrow> string \<Rightarrow> bool \<Rightarrow> decode_error + 'd go_value" where
  "decode cd t raw format strict_on =
     (case t of
        TString \<Rightarrow> Inr (VString raw)
      | TBytes \<Rightarrow> Inr (VBytes raw)
      | TBool \<Rightarrow> scalar raw t VBool (ParseBool raw)
      | TDuration \<Rightarrow> scalar raw t (\<lambda>d. VDuration (word_of_int d)) (ParseDuration (cdFraction cd) raw)
      | TInt \<Rightarrow> scalar raw t (\<lambda>n. VInt (word_of_int n)) (ParseInt 64 raw)
      | TInt32 \<Rightarrow> scalar raw t (\<lambda>n. VInt32 (word_of_int n)) (ParseInt 32 raw)
      | TInt64 \<Rightarrow> scalar raw t (\<lambda>n. VInt64 (word_of_int n)) (ParseInt 64 raw)
      | TUint \<Rightarrow> scalar raw t (\<lambda>n. VUint (word_of_nat n)) (ParseUint 64 raw)
      | TUint32 \<Rightarrow> scalar raw t (\<lambda>n. VUint32 (word_of_nat n)) (ParseUint 32 raw)
      | TUint64 \<Rightarrow> scalar raw t (\<lambda>n. VUint64 (word_of_nat n)) (ParseUint 64 raw)
      | TFloat32 \<Rightarrow> scalar raw t VFloat32 (cdFloat cd 32 raw)
      | TFloat64 \<Rightarrow> scalar raw t VFloat64 (cdFloat cd 64 raw)
      | TOther n \<Rightarrow> decode_structured cd t raw format strict_on)"

section \<open>The cache of a snapshot\<close>

text \<open>
  An entry is what \<open>decode\<close> returned and which call it was: two decodings of the same text give
  pointers to different objects, told apart by a number.
\<close>

record 'd entry =
  enObject :: nat
  enResult :: "decode_error + 'd go_value"

type_synonym 'd cache = "string \<times> go_type \<Rightarrow> 'd entry option"

definition load_or_store :: "string \<times> go_type \<Rightarrow> 'd entry \<Rightarrow> 'd cache \<Rightarrow> 'd entry \<times> 'd cache" where
  "load_or_store k e ca = (case ca k of Some hit \<Rightarrow> (hit, ca) | None \<Rightarrow> (e, ca(k \<mapsto> e)))"

text \<open>One call alone; \<open>fresh\<close> is the object it would make.\<close>

definition cachedDecode ::
    "'d codecs \<Rightarrow> nat \<Rightarrow> go_type \<Rightarrow> string \<Rightarrow> CConfig \<Rightarrow> bool \<Rightarrow> 'd cache \<Rightarrow> 'd entry \<times> 'd cache" where
  "cachedDecode cd fresh t key c strict_on ca =
     (case ca (key, t) of
        Some hit \<Rightarrow> (hit, ca)
      | None \<Rightarrow>
          load_or_store (key, t) \<lparr>enObject = fresh, enResult = decode cd t (eValue c) (eFormat c) strict_on\<rparr> ca)"

definition groupGet ::
    "'d codecs \<Rightarrow> nat \<Rightarrow> go_type \<Rightarrow> Group \<Rightarrow> string \<Rightarrow> 'd cache \<Rightarrow> (get_error + 'd go_value) \<times> 'd cache" where
  "groupGet cd fresh t g key ca =
     (let full = gPrefix g @ key in
      case map_of (byKey (gSnap g)) full of
        None \<Rightarrow> (Inl (GetNotFound full), ca)
      | Some c \<Rightarrow>
          (case cachedDecode cd fresh t full c (gStrict g) ca of (e, ca') \<Rightarrow>
             (map_sum (GetDecode full) id (enResult e), ca')))"

text \<open>The default, and whether a warning is logged.\<close>

definition groupGetOr ::
    "'d codecs \<Rightarrow> nat \<Rightarrow> go_type \<Rightarrow> Group \<Rightarrow> string \<Rightarrow> 'd go_value \<Rightarrow> 'd cache \<Rightarrow> 'd go_value \<times> bool \<times> 'd cache" where
  "groupGetOr cd fresh t g key dflt ca =
     (case groupGet cd fresh t g key ca of
        (Inr v, ca') \<Rightarrow> (v, False, ca')
      | (Inl (GetNotFound k), ca') \<Rightarrow> (dflt, False, ca')
      | (Inl (GetDecode k err), ca') \<Rightarrow> (dflt, True, ca'))"

definition clientGet ::
    "'d codecs \<Rightarrow> nat \<Rightarrow> go_type \<Rightarrow> client \<Rightarrow> string \<Rightarrow> 'd cache \<Rightarrow> (get_error + 'd go_value) \<times> 'd cache" where
  "clientGet cd fresh t c key ca = groupGet cd fresh t (client_group [] c) key ca"

definition clientGetOr ::
    "'d codecs \<Rightarrow> nat \<Rightarrow> go_type \<Rightarrow> client \<Rightarrow> string \<Rightarrow> 'd go_value \<Rightarrow> 'd cache \<Rightarrow> 'd go_value \<times> bool \<times> 'd cache" where
  "clientGetOr cd fresh t c key dflt ca = groupGetOr cd fresh t (client_group [] c) key dflt ca"

definition clientRevision :: "client \<Rightarrow> int" where
  "clientRevision c = vRevision (snap c)"

definition clientRaw :: "client \<Rightarrow> string \<Rightarrow> string option" where
  "clientRaw c key = Raw (client_group [] c) key"

section \<open>Goroutines that read at once\<close>

text \<open>
  Where a call of \<open>cachedDecode\<close> on one snapshot is: before its \<open>Load\<close>, after a miss, with a value of
  its own, or done.
\<close>

datatype 'd reader =
  Asking string go_type
| Missed string go_type
| Decoded string go_type "'d entry"
| Answered string go_type "'d entry"

record 'd readers =
  rdCache :: "'d cache"
  rdNext :: nat
  rdCalls :: "'d reader list"

inductive get_step :: "'d codecs \<Rightarrow> view \<Rightarrow> bool \<Rightarrow> 'd readers \<Rightarrow> 'd readers \<Rightarrow> bool" for cd v strict_on where
  call: "map_of (byKey v) key \<noteq> None \<Longrightarrow>
    get_step cd v strict_on s (s\<lparr>rdCalls := rdCalls s @ [Asking key t]\<rparr>)"
| hit: "i < length (rdCalls s) \<Longrightarrow> rdCalls s ! i = Asking key t \<Longrightarrow> rdCache s (key, t) = Some e \<Longrightarrow>
    get_step cd v strict_on s (s\<lparr>rdCalls := (rdCalls s)[i := Answered key t e]\<rparr>)"
| miss: "i < length (rdCalls s) \<Longrightarrow> rdCalls s ! i = Asking key t \<Longrightarrow> rdCache s (key, t) = None \<Longrightarrow>
    get_step cd v strict_on s (s\<lparr>rdCalls := (rdCalls s)[i := Missed key t]\<rparr>)"
| decoded: "i < length (rdCalls s) \<Longrightarrow> rdCalls s ! i = Missed key t \<Longrightarrow> map_of (byKey v) key = Some c \<Longrightarrow>
    e = \<lparr>enObject = rdNext s, enResult = decode cd t (eValue c) (eFormat c) strict_on\<rparr> \<Longrightarrow>
    get_step cd v strict_on s (s\<lparr>rdCalls := (rdCalls s)[i := Decoded key t e], rdNext := rdNext s + 1\<rparr>)"
| stored: "i < length (rdCalls s) \<Longrightarrow> rdCalls s ! i = Decoded key t e \<Longrightarrow>
    load_or_store (key, t) e (rdCache s) = (hit, ca) \<Longrightarrow>
    get_step cd v strict_on s (s\<lparr>rdCalls := (rdCalls s)[i := Answered key t hit], rdCache := ca\<rparr>)"

inductive get_run :: "'d codecs \<Rightarrow> view \<Rightarrow> bool \<Rightarrow> 'd readers \<Rightarrow> bool" for cd v strict_on where
  empty: "get_run cd v strict_on \<lparr>rdCache = (\<lambda>_. None), rdNext = 0, rdCalls = []\<rparr>"
| more: "get_run cd v strict_on s \<Longrightarrow> get_step cd v strict_on s s' \<Longrightarrow> get_run cd v strict_on s'"

end
