(* ===== verification/Client_Decode_Props.thy ===== *)
theory Client_Decode_Props
  imports Client_Decode
begin

text \<open>
  What typed reads of the client promise: a value of the type asked for with the number that was
  written, errors that quote a bounded piece of the text, and a cache that nobody can notice, but for
  all readers of a snapshot getting the same object.
\<close>

section \<open>Types and numbers\<close>

lemma sint_of_ParseInt:
  assumes "ParseInt LENGTH('a) raw = Some n"
  shows "sint (word_of_int n :: 'a::len word) = n"
proof -
  have r: "- (2 ^ (LENGTH('a) - 1)) \<le> n" "n < 2 ^ (LENGTH('a) - 1)" using ParseInt_range[OF assms] by auto
  have "signed_take_bit (LENGTH('a) - 1) n = n"
    by (rule signed_take_bit_int_eq_self) (use r in auto)
  then show ?thesis by (simp add: sint_sbintrunc')
qed

lemma ParseUint_bound: "ParseUint bits s = Some n \<Longrightarrow> n < 2 ^ bits"
  by (auto simp: ParseUint_def split: if_splits option.splits)

lemma unat_of_ParseUint:
  assumes "ParseUint LENGTH('a) raw = Some n"
  shows "unat (word_of_nat n :: 'a::len word) = n"
  using ParseUint_bound[OF assms] by (simp add: unsigned_of_nat take_bit_nat_eq_self)

lemma scalar_Inr: "scalar raw t mk r = Inr v \<longleftrightarrow> (\<exists>x. r = Some x \<and> v = mk x)"
  by (auto simp: scalar_def split: option.split)

lemma decode_has_type: "decode cd t raw format s = Inr v \<Longrightarrow> has_type v t"
  by (auto simp: decode_def scalar_Inr decode_structured_def Let_def split: go_type.splits if_splits option.splits)

text \<open>The number a value stands for.\<close>

fun reads_as :: "'d codecs \<Rightarrow> 'd go_value \<Rightarrow> string \<Rightarrow> bool" where
  "reads_as cd (VString s) raw \<longleftrightarrow> s = raw"
| "reads_as cd (VBytes s) raw \<longleftrightarrow> s = raw"
| "reads_as cd (VBool b) raw \<longleftrightarrow> ParseBool raw = Some b"
| "reads_as cd (VDuration d) raw \<longleftrightarrow> ParseDuration (cdFraction cd) raw = Some (sint d)"
| "reads_as cd (VInt n) raw \<longleftrightarrow> ParseInt 64 raw = Some (sint n)"
| "reads_as cd (VInt32 n) raw \<longleftrightarrow> ParseInt 32 raw = Some (sint n)"
| "reads_as cd (VInt64 n) raw \<longleftrightarrow> ParseInt 64 raw = Some (sint n)"
| "reads_as cd (VUint n) raw \<longleftrightarrow> ParseUint 64 raw = Some (unat n)"
| "reads_as cd (VUint32 n) raw \<longleftrightarrow> ParseUint 32 raw = Some (unat n)"
| "reads_as cd (VUint64 n) raw \<longleftrightarrow> ParseUint 64 raw = Some (unat n)"
| "reads_as cd (VFloat32 f) raw \<longleftrightarrow> cdFloat cd 32 raw = Some f"
| "reads_as cd (VFloat64 f) raw \<longleftrightarrow> cdFloat cd 64 raw = Some f"
| "reads_as cd (VOther n d) raw \<longleftrightarrow> 
     (\<exists>b. cdJSON cd b n raw = Some d) \<or> cdYAML cd n raw = Some d \<or> cdYAMLStrict cd n raw = Some d"

lemma sint_of_ParseDuration:
  assumes "ParseDuration frac raw = Some n"
  shows "sint (word_of_int n :: 64 word) = n"
  using ParseDuration_range[OF assms] by (simp add: sint_sbintrunc' signed_take_bit_int_eq_self)

lemma decode_reads: "decode cd t raw format s = Inr v \<Longrightarrow> reads_as cd v raw"
  using sint_of_ParseInt[where 'a = 64, of raw] sint_of_ParseInt[where 'a = 32, of raw]
    unat_of_ParseUint[where 'a = 64, of raw] unat_of_ParseUint[where 'a = 32, of raw]
    sint_of_ParseDuration[of "cdFraction cd" raw]
  by (cases t) (auto simp: decode_def scalar_Inr decode_structured_def Let_def split: if_splits option.splits)

lemma decode_scalar_format:
  "(\<forall>n. t \<noteq> TOther n) \<Longrightarrow> decode cd t raw format s = decode cd t raw format' s'"
  by (cases t) (simp_all add: decode_def)

lemma rune_size_le: "rune_size s \<le> 4"
proof (cases s)
  case (Cons c t)
  then show ?thesis
    by (auto simp: rune_size_def utf8_len.simps(2) Let_def split: option.split list.splits if_splits)
qed (simp add: rune_size_def)

lemma truncate_length: "length (truncate_runes n s) \<le> 4 * n + 3"
proof (induction n s rule: truncate_runes.induct)
  case (3 n c s)
  then show ?case using rune_size_le[of "c # s"] by (simp add: min_def split: if_splits)
qed (simp_all add: dots_def)

lemma decode_scalar_error:
  assumes "decode cd t raw format s = Inl (ScalarErr q t')"
  shows "t' = t \<and> q = truncate_runes 64 raw \<and> length q \<le> 259"
  using assms truncate_length[of 64 raw]
  by (auto simp: decode_def scalar_def scalarErr_def decode_structured_def Let_def
      split: go_type.splits if_splits option.splits)

lemma sint_parses: "ParseInt LENGTH('a) (int_str (sint (w :: 'a::len word))) = Some (sint w)"
  by (rule ParseInt_int_str) (use sint_greater_eq[of w] sint_less[of w] in auto)

text \<open>
  C39. A decoded value has the type that was asked for and is the value that was written: the text
  itself, the boolean, or the integer at its width, never wrapped around; scalars are read the
  same in every format; every integer of 32 or 64 bits is read back from its decimal text, and every
  duration from its number of nanoseconds; and an error about a scalar quotes at most 64 characters
  of the value, in at most 259 bytes.
\<close>

theorem decode_typed_exact:
  shows "(decode cd t raw format s = Inr v \<longrightarrow> has_type v t \<and> reads_as cd v raw) \<and>
    ((\<forall>n. t \<noteq> TOther n) \<longrightarrow> decode cd t raw format s = decode cd t raw format' s') \<and>
    decode cd TInt32 (int_str (sint i)) format s = Inr (VInt32 i) \<and>
    decode cd TInt64 (int_str (sint j)) format s = Inr (VInt64 j) \<and>
    decode cd TDuration (int_str (sint j) @ ''ns'') format s = Inr (VDuration j) \<and>
    (decode cd t raw format s = Inl (ScalarErr q t') \<longrightarrow> t' = t \<and> q = truncate_runes 64 raw \<and> length q \<le> 259)"
proof (intro conjI impI)
  show "decode cd TInt32 (int_str (sint i)) format s = Inr (VInt32 i)"
    using sint_parses[of i] by (simp add: decode_def scalar_def)
  show "decode cd TInt64 (int_str (sint j)) format s = Inr (VInt64 j)"
    using sint_parses[of j] by (simp add: decode_def scalar_def)
  show "decode cd TDuration (int_str (sint j) @ ''ns'') format s = Inr (VDuration j)"
    using ParseDuration_int_str[of "sint j" "cdFraction cd"] sint_greater_eq[of j] sint_less[of j]
    by (simp add: decode_def scalar_def)
  show "decode cd t raw format s = decode cd t raw format' s'" if "\<forall>n. t \<noteq> TOther n"
    by (rule decode_scalar_format[OF that])
next
  assume "decode cd t raw format s = Inr v"
  then show "has_type v t" and "reads_as cd v raw"
    by (auto intro: decode_has_type decode_reads)
next
  assume e: "decode cd t raw format s = Inl (ScalarErr q t')"
  note decode_scalar_error[OF e]
  then show "t' = t" and "q = truncate_runes 64 raw" and "length q \<le> 259" by blast+
qed

text \<open>Codecs that refuse everything; integers do not need any.\<close>

definition cd0 :: "unit codecs" where
  "cd0 = \<lparr>cdFloat = (\<lambda>_ _. None), cdFraction = (\<lambda>_ _ _. 0), cdJSON = (\<lambda>_ _ _. None), cdYAML = (\<lambda>_ _. None),
     cdYAMLStrict = (\<lambda>_ _. None)\<rparr>"

theorem decode_typed_exact_witness:
  "has_type (VInt32 (-5) :: unit go_value) TInt32 \<and> reads_as cd0 (VInt32 (-5)) ''-5'' \<and>
   decode cd0 TInt32 ''-5'' ''yaml'' True = decode cd0 TInt32 ''-5'' ''raw'' False"
proof -
  have "decode cd0 TInt32 ''-5'' ''yaml'' True = Inr (VInt32 (-5))"
    by (simp add: decode_def scalar_def ParseInt_def digit_val_def)
  then show ?thesis
    using decode_typed_exact[of cd0 TInt32 "''-5''" "''yaml''" True "VInt32 (-5)" "''raw''" False] by simp
qed

section \<open>The cache\<close>

definition right_entry :: "'d codecs \<Rightarrow> view \<Rightarrow> bool \<Rightarrow> string \<Rightarrow> go_type \<Rightarrow> 'd entry \<Rightarrow> bool" where
  "right_entry cd v strict_on key t e \<longleftrightarrow>
     (\<exists>c. map_of (byKey v) key = Some c \<and> enResult e = decode cd t (eValue c) (eFormat c) strict_on)"

fun reader_ok :: "'d codecs \<Rightarrow> view \<Rightarrow> bool \<Rightarrow> 'd cache \<Rightarrow> 'd reader \<Rightarrow> bool" where
  "reader_ok cd v strict_on ca (Decoded key t e) \<longleftrightarrow> right_entry cd v strict_on key t e"
| "reader_ok cd v strict_on ca (Answered key t e) \<longleftrightarrow> ca (key, t) = Some e"
| "reader_ok cd v strict_on ca _ \<longleftrightarrow> True"

definition readers_ok :: "'d codecs \<Rightarrow> view \<Rightarrow> bool \<Rightarrow> 'd readers \<Rightarrow> bool" where
  "readers_ok cd v strict_on s \<longleftrightarrow>
     (\<forall>key t e. rdCache s (key, t) = Some e \<longrightarrow> right_entry cd v strict_on key t e) \<and>
     (\<forall>r\<in>set (rdCalls s). reader_ok cd v strict_on (rdCache s) r)"

lemma reader_ok_mono: "reader_ok cd v b ca r \<Longrightarrow> ca \<subseteq>\<^sub>m ca' \<Longrightarrow> reader_ok cd v b ca' r"
  by (cases r) (auto simp: map_le_def dom_def)

lemma readers_ok_update:
  assumes "readers_ok cd v b s" and "rdCache s \<subseteq>\<^sub>m rdCache s'" and "rdCalls s' = (rdCalls s)[i := r]"
    and "\<And>key t e. rdCache s' (key, t) = Some e \<Longrightarrow> right_entry cd v b key t e" and "reader_ok cd v b (rdCache s') r"
  shows "readers_ok cd v b s'"
proof -
  have "reader_ok cd v b (rdCache s') x" if "x \<in> set (rdCalls s')" for x
  proof -
    have "x = r \<or> x \<in> set (rdCalls s)" using that set_update_subset_insert[of "rdCalls s" i r] assms(3) by auto
    then show ?thesis
      using assms(1,5) reader_ok_mono[OF _ assms(2)] unfolding readers_ok_def by blast
  qed
  then show ?thesis using assms(4) by (simp add: readers_ok_def)
qed

lemma step_readers_ok:
  assumes "get_step cd v b s s'" and "readers_ok cd v b s"
  shows "readers_ok cd v b s'"
  using assms(1)
proof cases
  case (call key t)
  then show ?thesis using assms(2) by (auto simp: readers_ok_def)
next
  case (hit i key t e)
  then show ?thesis
    using assms(2) by (intro readers_ok_update[OF assms(2), where i = i and r = "Answered key t e"]) (auto simp: readers_ok_def)
next
  case (miss i key t)
  then show ?thesis
    using assms(2) by (intro readers_ok_update[OF assms(2), where i = i and r = "Missed key t"]) (auto simp: readers_ok_def)
next
  case (decoded i key t c e)
  then show ?thesis
    using assms(2) by (intro readers_ok_update[OF assms(2), where i = i and r = "Decoded key t e"])
      (auto simp: readers_ok_def right_entry_def)
next
  case (stored i key t e hit ca)
  have e: "right_entry cd v b key t e"
    using assms(2) stored(2,3) by (metis nth_mem readers_ok_def reader_ok.simps(1))
  have ca: "rdCache s \<subseteq>\<^sub>m ca" "ca (key, t) = Some hit"
    and new: "\<And>k u x. ca (k, u) = Some x \<Longrightarrow> rdCache s (k, u) = Some x \<or> (k = key \<and> u = t \<and> x = e)"
    using stored(4) by (auto simp: load_or_store_def map_le_def split: option.splits if_splits)
  have "right_entry cd v b k u x" if "ca (k, u) = Some x" for k u x
    using new[OF that] e assms(2) unfolding readers_ok_def by blast
  then show ?thesis
    using stored(1) ca
    by (intro readers_ok_update[OF assms(2), where i = i and r = "Answered key t hit"]) simp_all
qed

lemma run_readers_ok: "get_run cd v b s \<Longrightarrow> readers_ok cd v b s"
proof (induction rule: get_run.induct)
  case empty
  then show ?case by (simp add: readers_ok_def)
qed (rule step_readers_ok)

text \<open>
  C40. However the calls of concurrent readers of one snapshot interleave: every call returns what
  decoding the stored text gives, all calls for a key and type return the same object, and \<open>Get\<close> over
  the cache of that moment agrees with decoding without any cache.
\<close>

theorem cached_reads_transparent:
  assumes "get_run cd v b s" and "gSnap g = v" and "gStrict g = b"
  shows "(\<forall>key t e. Answered key t e \<in> set (rdCalls s) \<longrightarrow> right_entry cd v b key t e) \<and>
    (\<forall>key t e e'. Answered key t e \<in> set (rdCalls s) \<and> Answered key t e' \<in> set (rdCalls s) \<longrightarrow> e = e') \<and>
    fst (groupGet cd fresh t g key (rdCache s)) =
      (case map_of (byKey v) (gPrefix g @ key) of
         None \<Rightarrow> Inl (GetNotFound (gPrefix g @ key))
       | Some c \<Rightarrow> map_sum (GetDecode (gPrefix g @ key)) id (decode cd t (eValue c) (eFormat c) b))"
proof (intro conjI allI impI)
  note ok = run_readers_ok[OF assms(1)]
  have cached: "rdCache s (key, t) = Some e" if "Answered key t e \<in> set (rdCalls s)" for key t e
    using ok that by (auto simp: readers_ok_def)
  show "right_entry cd v b key t e" if "Answered key t e \<in> set (rdCalls s)" for key t e
    using ok cached[OF that] by (auto simp: readers_ok_def)
  show "e = e'" if "Answered key t e \<in> set (rdCalls s) \<and> Answered key t e' \<in> set (rdCalls s)" for key t e e'
    using cached[of key t e] cached[of key t e'] that by simp
  show "fst (groupGet cd fresh t g key (rdCache s)) =
      (case map_of (byKey v) (gPrefix g @ key) of
         None \<Rightarrow> Inl (GetNotFound (gPrefix g @ key))
       | Some c \<Rightarrow> map_sum (GetDecode (gPrefix g @ key)) id (decode cd t (eValue c) (eFormat c) b))"
  proof (cases "rdCache s (gPrefix g @ key, t)")
    case None
    then show ?thesis
      by (simp add: groupGet_def cachedDecode_def load_or_store_def assms(2,3) Let_def split: option.split)
  next
    case (Some e)
    then have "right_entry cd v b (gPrefix g @ key) t e" using ok unfolding readers_ok_def by blast
    then obtain c where "map_of (byKey v) (gPrefix g @ key) = Some c" "enResult e = decode cd t (eValue c) (eFormat c) b"
      unfolding right_entry_def by blast
    then show ?thesis by (simp add: groupGet_def cachedDecode_def Some assms(2) Let_def)
  qed
qed

text \<open>Two readers that both miss: the second gets the object of the first.\<close>

definition view_a :: view where
  "view_a = \<lparr>vRevision = 1, byKey = [(''a'', \<lparr>eKey = ''a'', eValue = ''7'', eFormat = ''raw''\<rparr>)], keys = [''a'']\<rparr>"

definition entry7 :: "unit entry" where
  "entry7 = \<lparr>enObject = 0, enResult = Inr (VInt 7)\<rparr>"

lemma race_run:
  "get_run cd0 view_a False \<lparr>rdCache = [(''a'', TInt) \<mapsto> entry7], rdNext = 2,
     rdCalls = [Answered ''a'' TInt entry7, Answered ''a'' TInt entry7]\<rparr>"
proof -
  let ?k = "(''a'', TInt)"
  let ?s = "\<lambda>ca n cs. \<lparr>rdCache = ca, rdNext = n, rdCalls = cs\<rparr> :: unit readers"
  define e2 :: "unit entry" where "e2 = entry7\<lparr>enObject := 1\<rparr>"
  have d: "decode cd0 TInt ''7'' ''raw'' False = Inr (VInt 7)"
    by (simp add: decode_def scalar_def ParseInt_def digit_val_def)
  have m: "map_of (byKey view_a) ''a'' = Some \<lparr>eKey = ''a'', eValue = ''7'', eFormat = ''raw''\<rparr>" by (simp add: view_a_def)
  note more = get_run.more[where cd = cd0 and v = view_a and strict_on = False]
  have "get_run cd0 view_a False (?s (\<lambda>_. None) 0 [])" by (rule get_run.empty)
  then have "get_run cd0 view_a False (?s (\<lambda>_. None) 0 [Asking ''a'' TInt])"
    using get_step.call[of view_a "''a''" cd0 False "?s (\<lambda>_. None) 0 []" TInt] m by (simp add: more)
  then have "get_run cd0 view_a False (?s (\<lambda>_. None) 0 [Asking ''a'' TInt, Asking ''a'' TInt])"
    using get_step.call[of view_a "''a''" cd0 False "?s (\<lambda>_. None) 0 [Asking ''a'' TInt]" TInt] m by (simp add: more)
  then have "get_run cd0 view_a False (?s (\<lambda>_. None) 0 [Missed ''a'' TInt, Asking ''a'' TInt])"
    using get_step.miss[of 0 "?s (\<lambda>_. None) 0 [Asking ''a'' TInt, Asking ''a'' TInt]" "''a''" TInt] by (simp add: more)
  then have "get_run cd0 view_a False (?s (\<lambda>_. None) 0 [Missed ''a'' TInt, Missed ''a'' TInt])"
    using get_step.miss[of 1 "?s (\<lambda>_. None) 0 [Missed ''a'' TInt, Asking ''a'' TInt]" "''a''" TInt] by (simp add: more)
  then have "get_run cd0 view_a False (?s (\<lambda>_. None) 1 [Decoded ''a'' TInt entry7, Missed ''a'' TInt])"
    using get_step.decoded[of 0 "?s (\<lambda>_. None) 0 [Missed ''a'' TInt, Missed ''a'' TInt]" "''a''" TInt view_a _ entry7 cd0 False] m d
    by (simp add: more entry7_def)
  then have "get_run cd0 view_a False (?s (\<lambda>_. None) 2 [Decoded ''a'' TInt entry7, Decoded ''a'' TInt e2])"
    using get_step.decoded[of 1 "?s (\<lambda>_. None) 1 [Decoded ''a'' TInt entry7, Missed ''a'' TInt]" "''a''" TInt view_a _ e2 cd0 False] m d
    by (simp add: more entry7_def e2_def numeral_2_eq_2)
  then have "get_run cd0 view_a False (?s [?k \<mapsto> entry7] 2 [Answered ''a'' TInt entry7, Decoded ''a'' TInt e2])"
    using get_step.stored[of 0 "?s (\<lambda>_. None) 2 [Decoded ''a'' TInt entry7, Decoded ''a'' TInt e2]" "''a''" TInt entry7 entry7 "[?k \<mapsto> entry7]"]
    by (simp add: more load_or_store_def)
  then show ?thesis
    using get_step.stored[of 1 "?s [?k \<mapsto> entry7] 2 [Answered ''a'' TInt entry7, Decoded ''a'' TInt e2]" "''a''" TInt e2 entry7 "[?k \<mapsto> entry7]"]
    by (simp add: more load_or_store_def)
qed

theorem cached_reads_transparent_witness:
  "right_entry cd0 view_a False ''a'' TInt entry7 \<and>
   fst (groupGet cd0 9 TInt \<lparr>gPrefix = [], gSnap = view_a, gStrict = False\<rparr> ''a'' [(''a'', TInt) \<mapsto> entry7]) = Inr (VInt 7)"
proof -
  let ?g = "\<lparr>gPrefix = [], gSnap = view_a, gStrict = False\<rparr>"
  have d: "decode cd0 TInt ''7'' ''raw'' False = Inr (VInt 7)"
    by (simp add: decode_def scalar_def ParseInt_def digit_val_def)
  from cached_reads_transparent[OF race_run, of ?g 9 TInt "''a''"] show ?thesis
    by (simp add: d) (simp add: view_a_def d)
qed

text \<open>Read as a string, a value is its text, in every format.\<close>

lemma clientGet_TString:
  "fst (clientGet cd fresh TString c key (\<lambda>_. None)) = Inr (VString v) \<longleftrightarrow> clientRaw c key = Some v"
  by (auto simp: clientGet_def groupGet_def clientRaw_def Raw_def lookup_def client_group_def cachedDecode_def
      load_or_store_def decode_def Let_def split: option.splits)

end
