(* ===== verification/Api_Wire.thy ===== *)
theory Api_Wire
  imports HTTP_Source
begin

text \<open>
  The JSON documents of \<open>server/api/api.go\<close> beside the snapshot: configuration details,
  history entries, write receipts and the rollback request, as the server writes them and
  \<open>lsctl\<close> reads them. The text of an instant (\<open>time.Time\<close>) is a parameter, the record
  \<open>timecodec\<close>: instants come from the database's clock and are opaque numbers here.
\<close>

record timecodec =
  time_text :: "int \<Rightarrow> string"
  time_parse :: "string \<Rightarrow> int option"
  time_zero :: int

text \<open>What \<open>time.Time\<close> documents: its JSON text is read back as the same instant.\<close>

definition time_ok :: "timecodec \<Rightarrow> bool" where
  "time_ok tm \<longleftrightarrow> (\<forall>t. time_parse tm (time_text tm t) = Some t \<and> valid_utf8 (time_text tm t))"

fun time_field :: "timecodec \<Rightarrow> json option \<Rightarrow> int option" where
  "time_field tm None = Some (time_zero tm)"
| "time_field tm (Some JNull) = Some (time_zero tm)"
| "time_field tm (Some (JStr s)) = time_parse tm s"
| "time_field tm (Some _) = None"

section \<open>Documents\<close>

definition detail_json :: "timecodec \<Rightarrow> ConfigDetail \<Rightarrow> json" where
  "detail_json tm c =
     JObj [(''key'', JStr (dKey c)), (''value'', JStr (dValue c)), (''format'', JStr (dFormat c)),
           (''updated_at'', JStr (time_text tm (dUpdatedAt c))), (''updated_by'', JStr (dUpdatedBy c))]"

definition decode_detail :: "timecodec \<Rightarrow> json \<Rightarrow> ConfigDetail option" where
  "decode_detail tm j = Option.bind (object_fields j) (\<lambda>fs.
     Option.bind (string_field (map_of fs ''key'')) (\<lambda>k.
     Option.bind (string_field (map_of fs ''value'')) (\<lambda>v.
     Option.bind (string_field (map_of fs ''format'')) (\<lambda>f.
     Option.bind (time_field tm (map_of fs ''updated_at'')) (\<lambda>tt.
     map_option (\<lambda>author. \<lparr>dKey = k, dValue = v, dFormat = f, dUpdatedAt = tt, dUpdatedBy = author\<rparr>)
       (string_field (map_of fs ''updated_by'')))))))"

text \<open>The comment is \<open>omitempty\<close>.\<close>

definition history_json :: "timecodec \<Rightarrow> ApiHistory \<Rightarrow> json" where
  "history_json tm h =
     JObj ([(''version'', JNum (int_str (aVersion h))), (''value'', JStr (aValue h)),
            (''format'', JStr (aFormat h)), (''op'', JStr (aOp h))] @
           (if aComment h = [] then [] else [(''comment'', JStr (aComment h))]) @
           [(''created_at'', JStr (time_text tm (aCreatedAt h))), (''created_by'', JStr (aCreatedBy h))])"

definition decode_history :: "timecodec \<Rightarrow> json \<Rightarrow> ApiHistory option" where
  "decode_history tm j = Option.bind (object_fields j) (\<lambda>fs.
     Option.bind (int64_field (map_of fs ''version'')) (\<lambda>n.
     Option.bind (string_field (map_of fs ''value'')) (\<lambda>v.
     Option.bind (string_field (map_of fs ''format'')) (\<lambda>f.
     Option.bind (string_field (map_of fs ''op'')) (\<lambda>op'.
     Option.bind (string_field (map_of fs ''comment'')) (\<lambda>c.
     Option.bind (time_field tm (map_of fs ''created_at'')) (\<lambda>tt.
     map_option (\<lambda>author. \<lparr>aVersion = n, aValue = v, aFormat = f, aOp = op', aComment = c,
         aCreatedAt = tt, aCreatedBy = author\<rparr>)
       (string_field (map_of fs ''created_by'')))))))))"

definition histories_json :: "timecodec \<Rightarrow> ApiHistory list \<Rightarrow> json" where
  "histories_json tm hs = JArr (map (history_json tm) hs)"

definition decode_histories :: "timecodec \<Rightarrow> json \<Rightarrow> ApiHistory list option" where
  "decode_histories tm j = array_field (decode_history tm) (Some j)"

definition write_json :: "WriteResult \<Rightarrow> json" where
  "write_json r =
     JObj [(''key'', JStr (wrKey r)), (''version'', JNum (int_str (wrVersion r))),
           (''revision'', JNum (int_str (wrRevision r)))]"

definition decode_write :: "json \<Rightarrow> WriteResult option" where
  "decode_write j = Option.bind (object_fields j) (\<lambda>fs.
     Option.bind (string_field (map_of fs ''key'')) (\<lambda>k.
     Option.bind (int64_field (map_of fs ''version'')) (\<lambda>v.
     map_option (\<lambda>r. \<lparr>wrKey = k, wrVersion = v, wrRevision = r\<rparr>)
       (int64_field (map_of fs ''revision'')))))"

definition rollback_json :: "int \<Rightarrow> json" where
  "rollback_json version = JObj [(''version'', JNum (int_str version))]"

section \<open>Documents of valid texts can be written\<close>

fun valid_tree :: "json \<Rightarrow> bool" where
  "valid_tree (JStr s) = valid_utf8 s"
| "valid_tree (JArr js) = (\<forall>j\<in>set js. valid_tree j)"
| "valid_tree (JObj fs) = (\<forall>x\<in>set fs. valid_utf8 (fst x) \<and> valid_tree (snd x))"
| "valid_tree _ = True"

lemma valid_literal [simp]:
  "valid_utf8 ''key''" "valid_utf8 ''value''" "valid_utf8 ''format''" "valid_utf8 ''updated_at''"
  "valid_utf8 ''updated_by''" "valid_utf8 ''version''" "valid_utf8 ''op''" "valid_utf8 ''comment''"
  "valid_utf8 ''created_at''" "valid_utf8 ''created_by''" "valid_utf8 ''revision''" "valid_utf8 ''configs''"
  "valid_utf8 []"
  by (rule valid_utf8_ascii; simp)+

lemma emit_fields_some:
  "\<forall>x\<in>set fs. quote (fst x) \<noteq> None \<and> emit (snd x) \<noteq> None \<Longrightarrow> emit_fields fs \<noteq> None"
proof (induction fs)
  case Nil
  then show ?case by simp
next
  case (Cons x fs)
  obtain k j where "x = (k, j)" by (cases x)
  then show ?case using Cons by (cases fs) auto
qed

lemma emit_valid: "valid_tree j \<Longrightarrow> emit j \<noteq> None"
proof (induction j rule: valid_tree.induct)
  case (2 js)
  then show ?case using emit_list_some[of js] by (auto split: list.splits)
next
  case (3 fs)
  then have "\<forall>x\<in>set fs. quote (fst x) \<noteq> None \<and> emit (snd x) \<noteq> None"
    using quote_valid by fastforce
  then show ?case using emit_fields_some[of fs] by (auto split: list.splits)
qed (auto dest!: quote_valid)

lemma Marshal_valid: "valid_tree j \<Longrightarrow> \<exists>b. Marshal j = Some b"
  using emit_valid by (simp add: Marshal_def)

lemma Unmarshal_valid:
  assumes "valid_tree j" and "emittable 0 j"
  obtains b where "Marshal j = Some b" "Unmarshal b = Some j"
  using Marshal_valid[OF assms(1)] Unmarshal_Marshal[OF _ assms(2)] by blast

section \<open>Round trips\<close>

definition wire_int :: "int \<Rightarrow> bool" where
  "wire_int i \<longleftrightarrow> min_int64 \<le> i \<and> i \<le> max_int64"

definition wire_detail :: "ConfigDetail \<Rightarrow> bool" where
  "wire_detail c \<longleftrightarrow> valid_utf8 (dKey c) \<and> valid_utf8 (dValue c) \<and> valid_utf8 (dFormat c) \<and> valid_utf8 (dUpdatedBy c)"

definition wire_history :: "ApiHistory \<Rightarrow> bool" where
  "wire_history h \<longleftrightarrow> wire_int (aVersion h) \<and> valid_utf8 (aValue h) \<and> valid_utf8 (aFormat h) \<and>
     valid_utf8 (aOp h) \<and> valid_utf8 (aComment h) \<and> valid_utf8 (aCreatedBy h)"

definition wire_write :: "WriteResult \<Rightarrow> bool" where
  "wire_write r \<longleftrightarrow> valid_utf8 (wrKey r) \<and> wire_int (wrVersion r) \<and> wire_int (wrRevision r)"

lemmas wire_defs = wire_int_def wire_detail_def wire_history_def wire_write_def

lemma decode_detail_json: "time_ok tm \<Longrightarrow> decode_detail tm (detail_json tm c) = Some c"
  by (simp add: decode_detail_def detail_json_def time_ok_def)

lemma decode_history_json:
  "time_ok tm \<Longrightarrow> wire_int (aVersion h) \<Longrightarrow> decode_history tm (history_json tm h) = Some h"
  by (simp add: decode_history_def history_json_def time_ok_def wire_int_def)

lemma decode_histories_json:
  "time_ok tm \<Longrightarrow> \<forall>h\<in>set hs. wire_int (aVersion h) \<Longrightarrow>
   decode_histories tm (histories_json tm hs) = Some hs"
  by (simp add: decode_histories_def histories_json_def decode_all_map decode_history_json)

lemma decode_write_json: "wire_write r \<Longrightarrow> decode_write (write_json r) = Some r"
  by (simp add: decode_write_def write_json_def wire_defs)

lemma valid_documents:
  "time_ok tm \<Longrightarrow> wire_detail c \<Longrightarrow> valid_tree (detail_json tm c)"
  "time_ok tm \<Longrightarrow> \<forall>h\<in>set hs. wire_history h \<Longrightarrow> valid_tree (histories_json tm hs)"
  "wire_write r \<Longrightarrow> valid_tree (write_json r)" "valid_tree (rollback_json n)"
  by (auto simp: detail_json_def histories_json_def history_json_def write_json_def rollback_json_def
      time_ok_def wire_defs)

lemma emittable_documents:
  "emittable 0 (detail_json tm c)" "emittable 0 (histories_json tm hs)" "emittable 0 (write_json r)"
  "emittable 0 (rollback_json n)"
  by (auto simp: detail_json_def histories_json_def history_json_def write_json_def rollback_json_def
      max_depth_def)

end
