(* ===== verification/Lsctl_Backend.thy ===== *)
theory Lsctl_Backend
  imports Api_Wire
begin

text \<open>
  The two backends of \<open>lsctl\<close> (\<open>cmd/lsctl/internal/backend\<close>): \<open>db.go\<close>, which calls the store,
  and \<open>http.go\<close>, which sends requests. A request of the HTTP backend is the record \<open>http_call\<close>;
  the network and whatever answers is a parameter, a function from calls to responses on a
  state. \<open>serve\<close> is the answer the server gives: routing, handler, and the bytes of the reply.
\<close>

section \<open>The interface\<close>

record BChange =
  chAuthor :: string
  chComment :: string

datatype backend_error =
  BackendNotFound
| NotSupported
| NotMigratedHint
| BackendStore store_error
| RequestFailure
| StatusError nat string
| DecodeFailure

text \<open>What decides the exit code of a command: the result, absence, or another failure.\<close>

datatype 'a outcome = Finished 'a | Missing | Failed

definition outcome :: "backend_error + 'a \<Rightarrow> 'a outcome" where
  "outcome r =
     (case r of Inr x \<Rightarrow> Finished x | Inl err \<Rightarrow> if err = BackendNotFound then Missing else Failed)"

lemma outcome_simps [simp]:
  "outcome (Inr x) = Finished x" "outcome (Inl BackendNotFound) = Missing"
  "err \<noteq> BackendNotFound \<Longrightarrow> outcome (Inl err) = Failed"
  by (simp_all add: outcome_def)

section \<open>The database backend\<close>

definition Contains :: "string \<Rightarrow> string \<Rightarrow> bool" where
  "Contains s sub = sublist sub s"

definition driverForDSN :: "string \<Rightarrow> string" where
  "driverForDSN dsn =
     (if prefix ''postgres://'' dsn \<or> prefix ''postgresql://'' dsn \<or>
         Contains dsn ''host='' \<and> Contains dsn ''user='' then ''pgx''
      else ''mysql'')"

definition cmp_Or :: "string \<Rightarrow> string \<Rightarrow> string" where
  "cmp_Or a b = (if a \<noteq> [] then a else b)"

text \<open>\<open>sql.Open\<close> with the registered drivers is a parameter: it refuses a DSN or not.\<close>

datatype open_error = OpenDriver store_error | OpenConnection string | OpenStore store_error

record db_handle =
  bDialect :: Dialect
  bDesc :: string
  bDSN :: string

definition OpenDB :: "(string \<Rightarrow> string \<Rightarrow> bool) \<Rightarrow> string \<Rightarrow> string \<Rightarrow> open_error + db_handle" where
  "OpenDB sql_open driver dsn =
     (case SQLDriver (cmp_Or driver (driverForDSN dsn)) of
        Inl err \<Rightarrow> Inl (OpenDriver err)
      | Inr drv \<Rightarrow>
          if \<not> sql_open drv (NormalizeDSN drv dsn) then Inl (OpenConnection drv)
          else (case DialectFor drv of
                  Inl err \<Rightarrow> Inl (OpenStore err)
                | Inr dia \<Rightarrow> Inr \<lparr>bDialect = dia, bDesc = drv, bDSN = NormalizeDSN drv dsn\<rparr>))"

definition mapErr :: "store_error \<Rightarrow> backend_error" where
  "mapErr err =
     (case err of ErrNotFound _ \<Rightarrow> BackendNotFound | ErrNotMigrated \<Rightarrow> NotMigratedHint | _ \<Rightarrow> BackendStore err)"

definition store_change :: "BChange \<Rightarrow> Change" where
  "store_change c = \<lparr>Author = chAuthor c, Comment = chComment c\<rparr>"

definition to_detail :: "Config \<Rightarrow> ConfigDetail" where
  "to_detail c =
     \<lparr>dKey = cKey c, dValue = cValue c, dFormat = cFormat c, dUpdatedAt = cUpdatedAt c,
      dUpdatedBy = cUpdatedBy c\<rparr>"

definition db_get :: "dbenv \<Rightarrow> string \<Rightarrow> db \<Rightarrow> backend_error + ConfigDetail" where
  "db_get e key d = map_sum mapErr to_detail (fst (Get e key d))"

definition db_list :: "dbenv \<Rightarrow> Dialect \<Rightarrow> string list \<Rightarrow> db \<Rightarrow> backend_error + CConfig list" where
  "db_list e dia ps d = map_sum mapErr (map to_entry) (fst (ListPrefixes e dia ps d))"

definition write_receipt :: "string \<Rightarrow> Result \<Rightarrow> WriteResult" where
  "write_receipt key r = \<lparr>wrKey = key, wrVersion = Version r, wrRevision = Revision r\<rparr>"

definition db_result :: "string \<Rightarrow> (store_error + Result) \<times> db \<Rightarrow> (backend_error + WriteResult) \<times> db" where
  "db_result key r = (map_sum mapErr (write_receipt key) (fst r), snd r)"

definition db_set ::
    "dbenv \<Rightarrow> Dialect \<Rightarrow> string \<Rightarrow> string \<Rightarrow> string \<Rightarrow> BChange \<Rightarrow> db \<Rightarrow> (backend_error + WriteResult) \<times> db" where
  "db_set e dia key val format c d = db_result key (Set e dia key val format (store_change c) d)"

definition db_delete ::
    "dbenv \<Rightarrow> Dialect \<Rightarrow> string \<Rightarrow> BChange \<Rightarrow> db \<Rightarrow> (backend_error + WriteResult) \<times> db" where
  "db_delete e dia key c d = db_result key (Delete e dia key (store_change c) d)"

definition db_rollback ::
    "dbenv \<Rightarrow> Dialect \<Rightarrow> string \<Rightarrow> int \<Rightarrow> BChange \<Rightarrow> db \<Rightarrow> (backend_error + WriteResult) \<times> db" where
  "db_rollback e dia key version c d = db_result key (Rollback e dia key version (store_change c) d)"

definition db_history :: "dbenv \<Rightarrow> string \<Rightarrow> int \<Rightarrow> db \<Rightarrow> backend_error + ApiHistory list" where
  "db_history e key limit d =
     (case fst (History e key limit d) of
        Inl err \<Rightarrow> Inl (mapErr err)
      | Inr rows \<Rightarrow> if rows = [] then Inl BackendNotFound else Inr (map to_api_history rows))"

definition db_migrate ::
    "dbenv \<Rightarrow> (string \<Rightarrow> string list) \<Rightarrow> Dialect \<Rightarrow> db \<Rightarrow> (backend_error + unit) \<times> db" where
  "db_migrate e files dia d = (map_sum BackendStore id (fst (Migrate e files dia d)), snd (Migrate e files dia d))"

section \<open>The HTTP backend: requests\<close>

definition maxErrBody :: nat where "maxErrBody = 4096"

definition http_base :: "string \<Rightarrow> string" where
  "http_base baseURL = TrimRightByte CHR ''/'' baseURL"

record http_call =
  cMethod :: string
  cPath :: string
  cBody :: "string option"
  cContentType :: string

definition addChange :: "Values \<Rightarrow> BChange \<Rightarrow> Values" where
  "addChange q c =
     (let q1 = (if chAuthor c \<noteq> [] then values_set ''author'' (chAuthor c) q else q)
      in if chComment c \<noteq> [] then values_set ''comment'' (chComment c) q1 else q1)"

definition key_path :: "string \<Rightarrow> string" where
  "key_path key = ''/v1/configs/'' @ PathEscape key"

definition get_call :: "string \<Rightarrow> http_call" where
  "get_call key = \<lparr>cMethod = ''GET'', cPath = key_path key, cBody = None, cContentType = []\<rparr>"

definition list_call :: "string list \<Rightarrow> http_call" where
  "list_call pfxs =
     (let q = fold (values_add ''prefix'') pfxs [] in
      \<lparr>cMethod = ''GET'', cPath = ''/v1/configs'' @ (if q \<noteq> [] then ''?'' @ Encode q else []),
       cBody = None, cContentType = []\<rparr>)"

definition set_call :: "string \<Rightarrow> string \<Rightarrow> string \<Rightarrow> BChange \<Rightarrow> http_call" where
  "set_call key val format c =
     (let q = addChange (if format \<noteq> [] then values_set ''format'' format [] else []) c in
      \<lparr>cMethod = ''PUT'', cPath = key_path key @ ''?'' @ Encode q, cBody = Some val,
       cContentType = ''text/plain; charset=utf-8''\<rparr>)"

definition delete_call :: "string \<Rightarrow> BChange \<Rightarrow> http_call" where
  "delete_call key c =
     \<lparr>cMethod = ''DELETE'', cPath = key_path key @ ''?'' @ Encode (addChange [] c), cBody = None,
      cContentType = []\<rparr>"

definition history_call :: "string \<Rightarrow> int \<Rightarrow> http_call" where
  "history_call key limit =
     \<lparr>cMethod = ''GET'',
      cPath = key_path key @ ''/history'' @
        (if 0 < limit then ''?limit='' @ int_str limit else if limit < 0 then ''?limit=0'' else []),
      cBody = None, cContentType = []\<rparr>"

text \<open>\<open>None\<close>: the request body could not be encoded.\<close>

definition rollback_call :: "string \<Rightarrow> int \<Rightarrow> BChange \<Rightarrow> http_call option" where
  "rollback_call key version c =
     map_option (\<lambda>body.
       \<lparr>cMethod = ''POST'', cPath = key_path key @ ''/rollback?'' @ Encode (addChange [] c),
        cBody = Some body, cContentType = ''application/json''\<rparr>)
       (Marshal (rollback_json version))"

section \<open>The HTTP backend: answers\<close>

definition backend_errorBody :: "string \<Rightarrow> string" where
  "backend_errorBody body =
     (let data = take maxErrBody body in
      if data = [] then ''(empty response body)''
      else (case error_field data of
              Some t \<Rightarrow> if t \<noteq> [] then t else TrimSpace data
            | None \<Rightarrow> TrimSpace data))"

definition http_do :: "(json \<Rightarrow> 'a option) \<Rightarrow> response \<Rightarrow> backend_error + 'a" where
  "http_do decode resp =
     (case resp of
        NetError \<Rightarrow> Inl RequestFailure
      | Response code body \<Rightarrow>
          if code = 404 then Inl BackendNotFound
          else if code < 200 \<or> 299 < code then Inl (StatusError code (backend_errorBody body))
          else (case Option.bind (Unmarshal body) decode of
                  None \<Rightarrow> Inl DecodeFailure | Some x \<Rightarrow> Inr x))"

type_synonym 'st net = "http_call \<Rightarrow> 'st \<Rightarrow> response \<times> 'st"

definition http_get :: "timecodec \<Rightarrow> 'st net \<Rightarrow> string \<Rightarrow> 'st \<Rightarrow> (backend_error + ConfigDetail) \<times> 'st" where
  "http_get tm net key s = apfst (http_do (decode_detail tm)) (net (get_call key) s)"

definition http_list :: "'st net \<Rightarrow> string list \<Rightarrow> 'st \<Rightarrow> (backend_error + CConfig list) \<times> 'st" where
  "http_list net ps s = apfst (\<lambda>r. map_sum id sConfigs (http_do decode_snapshot r)) (net (list_call ps) s)"

definition http_set ::
    "'st net \<Rightarrow> string \<Rightarrow> string \<Rightarrow> string \<Rightarrow> BChange \<Rightarrow> 'st \<Rightarrow> (backend_error + WriteResult) \<times> 'st" where
  "http_set net key val format c s = apfst (http_do decode_write) (net (set_call key val format c) s)"

definition http_delete :: "'st net \<Rightarrow> string \<Rightarrow> BChange \<Rightarrow> 'st \<Rightarrow> (backend_error + WriteResult) \<times> 'st" where
  "http_delete net key c s = apfst (http_do decode_write) (net (delete_call key c) s)"

definition http_history ::
    "timecodec \<Rightarrow> 'st net \<Rightarrow> string \<Rightarrow> int \<Rightarrow> 'st \<Rightarrow> (backend_error + ApiHistory list) \<times> 'st" where
  "http_history tm net key limit s = apfst (http_do (decode_histories tm)) (net (history_call key limit) s)"

definition http_rollback ::
    "'st net \<Rightarrow> string \<Rightarrow> int \<Rightarrow> BChange \<Rightarrow> 'st \<Rightarrow> (backend_error + WriteResult) \<times> 'st" where
  "http_rollback net key version c s =
     (case rollback_call key version c of
        None \<Rightarrow> (Inl RequestFailure, s)
      | Some call \<Rightarrow> apfst (http_do decode_write) (net call s))"

definition http_migrate :: "'st \<Rightarrow> (backend_error + unit) \<times> 'st" where
  "http_migrate s = (Inl NotSupported, s)"

section \<open>The server behind the network\<close>

text \<open>
  The bytes of a reply. What is left open: the bytes before an encoding error, the documents of
  the endpoints the backend does not use and of errors, and the mux's own answers.
\<close>

record netenv =
  ne_partial :: "reply_body \<Rightarrow> string"
  ne_text :: "reply_body \<Rightarrow> string"
  ne_mux :: "http_call \<Rightarrow> response"

definition body_json :: "timecodec \<Rightarrow> reply_body \<Rightarrow> json option" where
  "body_json tm b =
     (case b of
        BSnapshot s \<Rightarrow> Some (snapshot_json s)
      | BDetail c \<Rightarrow> Some (detail_json tm c)
      | BHistory hs \<Rightarrow> Some (histories_json tm hs)
      | BWrite r \<Rightarrow> Some (write_json r)
      | _ \<Rightarrow> None)"

definition reply_response :: "timecodec \<Rightarrow> netenv \<Rightarrow> reply \<Rightarrow> response" where
  "reply_response tm ne rep =
     (case rep of
        Reply code b \<Rightarrow> Response code
          (case body_json tm b of
             None \<Rightarrow> if b = NoBody then [] else ne_text ne b
           | Some j \<Rightarrow> (case Marshal j of Some t \<Rightarrow> t | None \<Rightarrow> ne_partial ne b)))"

definition call_request :: "http_call \<Rightarrow> string \<Rightarrow> string \<Rightarrow> http_request" where
  "call_request call q key =
     \<lparr>path_key = key, query_params = ParseQuery q,
      req_body = (case cBody call of None \<Rightarrow> [] | Some b \<Rightarrow> b), body_err = False\<rparr>"

text \<open>One request handled on a database that nobody else writes meanwhile.\<close>

definition serve :: "timecodec \<Rightarrow> netenv \<Rightarrow> Dialect \<Rightarrow> watcher \<Rightarrow> dbenv \<Rightarrow> db net" where
  "serve tm ne dia w e call d =
     (case Cut CHR ''?'' (cPath call) of (p, q, _) \<Rightarrow>
        (case dispatch (cMethod call) (drop 1 p) of
           Some EpList \<Rightarrow>
             (reply_response tm ne (handleList dia w (call_request call q []) (e, d) (e, d) (e, d)), d)
         | Some (EpGet key) \<Rightarrow> (reply_response tm ne (handleGet (call_request call q key) (e, d)), d)
         | Some (EpHistory key) \<Rightarrow>
             (reply_response tm ne (handleHistory (call_request call q key) (e, d)), d)
         | Some (EpSet key) \<Rightarrow> apfst (reply_response tm ne) (handleSet dia (call_request call q key) e d)
         | Some (EpDelete key) \<Rightarrow> apfst (reply_response tm ne) (handleDelete dia (call_request call q key) e d)
         | Some (EpRollback key) \<Rightarrow> apfst (reply_response tm ne) (handleRollback dia (call_request call q key) e d)
         | _ \<Rightarrow> (ne_mux ne call, d)))"

end
