(* ===== verification/Lsctl_Render.thy ===== *)
theory Lsctl_Render
  imports Lsctl_Backend
begin

text \<open>
  Rendering in \<open>lsctl\<close> (\<open>cmd/lsctl/internal/render/render.go\<close>): output formats, one-line and
  truncated cells, human sizes, and the JSON documents of the commands. What a command prints
  is a list of items: a text, the rows of a table (the column alignment of \<open>tabwriter\<close> is left
  out), a JSON document (its indentation is left out), or the beginning of a document whose
  encoding failed: as much of it as the encoder had flushed, possibly nothing.
\<close>

section \<open>Formats\<close>

definition OutTable :: string where "OutTable = ''table''"
definition OutJSON :: string where "OutJSON = ''json''"
definition OutRaw :: string where "OutRaw = ''raw''"

definition ValidOutput :: "string \<Rightarrow> bool" where
  "ValidOutput s \<longleftrightarrow> s \<in> set [[], OutTable, OutJSON, OutRaw]"

lemmas out_defs = OutTable_def OutJSON_def OutRaw_def

lemma out_distinct [simp]:
  "OutTable \<noteq> OutJSON" "OutTable \<noteq> OutRaw" "OutJSON \<noteq> OutRaw" "OutJSON \<noteq> OutTable" "OutRaw \<noteq> OutTable"
  "OutRaw \<noteq> OutJSON" "OutTable \<noteq> []" "OutJSON \<noteq> []" "OutRaw \<noteq> []"
  by (simp_all add: out_defs)

datatype item = Text string | Table "string list list" | Document json | CutDocument json

section \<open>Runes\<close>

text \<open>
  \<open>[]rune(s)\<close>, each rune as the bytes \<open>string(r)\<close> gives it: a byte that starts no valid
  encoding becomes U+FFFD.
\<close>

definition ReplacementChar :: string where "ReplacementChar = [CHR 0xEF, CHR 0xBF, CHR 0xBD]"
definition Ellipsis :: string where "Ellipsis = [CHR 0xE2, CHR 0x80, CHR 0xA6]"

function runes :: "string \<Rightarrow> string list" where
  "runes s = (case s of [] \<Rightarrow> []
     | c # t \<Rightarrow> (case utf8_len s of
           None \<Rightarrow> ReplacementChar # runes t
         | Some n \<Rightarrow> take n s # runes (drop (n - 1) t)))"
  by pat_completeness auto
termination
  by (relation "measure length") auto

declare runes.simps [simp del]

definition Truncate :: "string \<Rightarrow> nat \<Rightarrow> string" where
  "Truncate s limit =
     (let r = runes s in if length r \<le> limit then s else concat (take limit r) @ Ellipsis)"

definition line_end :: "char \<Rightarrow> bool" where
  "line_end c \<longleftrightarrow> c = CHR 0x0D \<or> c = CHR 0x0A"

definition OneLine :: "string \<Rightarrow> nat \<Rightarrow> string" where
  "OneLine s limit =
     (let s1 = TrimSpace s;
          s2 = (if list_ex line_end s1
                then TrimSpace (takeWhile (\<lambda>c. \<not> line_end c) s1) @ '' '' @ Ellipsis
                else s1)
      in Truncate s2 limit)"

section \<open>Sizes and times\<close>

text \<open>
  \<open>%.1f\<close> of \<open>float64(n)/unit\<close> for a power of two: the quotient is exact in binary, so the digits
  are the exact value rounded to one decimal, ties to even.
\<close>

definition tenths :: "nat \<Rightarrow> nat \<Rightarrow> nat" where
  "tenths n unit =
     (let q = 10 * n div unit; r = 10 * n mod unit in
      if unit < 2 * r \<or> unit = 2 * r \<and> odd q then q + 1 else q)"

definition one_decimal :: "nat \<Rightarrow> string" where
  "one_decimal t = nat_str (t div 10) @ ''.'' @ nat_str (t mod 10)"

definition HumanSize :: "nat \<Rightarrow> string" where
  "HumanSize n =
     (if n < 1024 then nat_str n @ ''B''
      else if n < 1024 * 1024 then one_decimal (tenths n 1024) @ ''K''
      else one_decimal (tenths n (1024 * 1024)) @ ''M'')"

text \<open>The reader's time zone and layout are a parameter.\<close>

definition LocalTime :: "timecodec \<Rightarrow> (int \<Rightarrow> string) \<Rightarrow> int \<Rightarrow> string" where
  "LocalTime tm local t = (if t = time_zero tm then ''-'' else local t)"

section \<open>Documents\<close>

definition list_doc :: "CConfig list \<Rightarrow> json" where
  "list_doc cs = JObj [(''configs'', JArr (map config_json cs)), (''count'', JNum (int_str (int (length cs))))]"

definition history_doc :: "timecodec \<Rightarrow> string \<Rightarrow> ApiHistory list \<Rightarrow> json" where
  "history_doc tm key hs = JObj [(''key'', JStr key), (''history'', histories_json tm hs)]"

definition diff_doc :: "string \<Rightarrow> string \<Rightarrow> string \<Rightarrow> string \<Rightarrow> json" where
  "diff_doc key from target d =
     JObj [(''key'', JStr key), (''from'', JStr from), (''to'', JStr target), (''identical'', JBool (d = [])),
           (''diff'', JStr d)]"

definition dry_run_doc :: "string \<Rightarrow> string \<Rightarrow> bool \<Rightarrow> bool \<Rightarrow> string \<Rightarrow> json" where
  "dry_run_doc key format exists changed d =
     JObj [(''key'', JStr key), (''format'', JStr format), (''exists'', JBool exists),
           (''changed'', JBool changed), (''diff'', JStr d), (''dry_run'', JBool True)]"

text \<open>The format is \<open>omitzero\<close>.\<close>

definition write_doc :: "string \<Rightarrow> string \<Rightarrow> string \<Rightarrow> WriteResult \<Rightarrow> json" where
  "write_doc key action format res =
     JObj ([(''key'', JStr key), (''action'', JStr action)] @
           (if format = [] then [] else [(''format'', JStr format)]) @
           [(''version'', JNum (int_str (wrVersion res))), (''revision'', JNum (int_str (wrRevision res)))])"

section \<open>Cells keep to one line and to their width\<close>

lemma runes_concat:
  assumes "valid_utf8 s"
  shows "concat (runes s) = s"
  using assms
proof (induction s rule: runes.induct)
  case (1 s)
  show ?case
  proof (cases s)
    case Nil
    then show ?thesis by (simp add: runes.simps)
  next
    case (Cons c t)
    from "1.prems" obtain n where n: "utf8_len s = Some n"
      unfolding valid_utf8_def by (cases "utf8_len s") (auto simp: Cons quote_body.simps[of "c # t"])
    have v: "valid_utf8 (drop (n - 1) t)"
      using "1.prems" n by (auto simp: valid_utf8_def Cons quote_body.simps[of "c # t"])
    have "1 \<le> n" using utf8_len_take[OF n] by auto
    then have "drop (n - 1) t = drop n s" using Cons by (cases n) auto
    then show ?thesis
      using "1.IH"(2)[OF Cons n v] by (subst runes.simps) (simp add: Cons n[unfolded Cons])
  qed
qed

lemma runes_chars: "r \<in> set (runes s) \<Longrightarrow> set r \<subseteq> set s \<union> set ReplacementChar"
proof (induction s rule: runes.induct)
  case (1 s)
  show ?case
  proof (cases s)
    case Nil
    then show ?thesis using "1.prems" by (simp add: runes.simps)
  next
    case (Cons c t)
    show ?thesis
    proof (cases "utf8_len s")
      case None
      then have "runes s = ReplacementChar # runes t" by (subst runes.simps) (simp add: Cons)
      then show ?thesis using "1.IH"(1)[OF Cons None] "1.prems" Cons by auto
    next
      case (Some n)
      then have "runes s = take n s # runes (drop (n - 1) t)" by (subst runes.simps) (simp add: Cons)
      then show ?thesis
        using "1.IH"(2)[OF Cons Some] "1.prems" Cons set_take_subset[of n s] set_drop_subset[of "n - 1" t]
        by auto
    qed
  qed
qed

lemma set_TrimLeftSpace: "set (TrimLeftSpace s) \<subseteq> set s"
proof (induction s rule: TrimLeftSpace.induct)
  case (1 s)
  have "set t \<subseteq> set s" if "strip_front s = Some t" for t
    using that by (auto simp: strip_front_def dest: in_set_dropD)
  then show ?case using 1 by (subst TrimLeftSpace.simps) (auto split: option.split)
qed

lemma set_TrimRightSpace: "set (TrimRightSpace s) \<subseteq> set s"
proof (induction s rule: TrimRightSpace.induct)
  case (1 s)
  have "set t \<subseteq> set s" if "strip_back s = Some t" for t
    using that by (auto simp: strip_back_def dest: in_set_takeD)
  then show ?case using 1 by (subst TrimRightSpace.simps) (auto split: option.split)
qed

lemma set_TrimSpace: "set (TrimSpace s) \<subseteq> set s"
  using set_TrimLeftSpace set_TrimRightSpace unfolding TrimSpace_def by blast

lemma Truncate_chars: "set (Truncate s limit) \<subseteq> set s \<union> set ReplacementChar \<union> set Ellipsis"
proof (cases "length (runes s) \<le> limit")
  case False
  have "set r \<subseteq> set s \<union> set ReplacementChar" if "r \<in> set (take limit (runes s))" for r
    by (rule runes_chars[OF in_set_takeD[OF that]])
  then have "set (concat (take limit (runes s))) \<subseteq> set s \<union> set ReplacementChar"
    unfolding set_concat by (rule UN_least)
  then show ?thesis using False by (simp add: Truncate_def) blast
qed (auto simp: Truncate_def)

lemma OneLine_one_line: "c \<in> set (OneLine s limit) \<Longrightarrow> \<not> line_end c"
proof -
  let ?s1 = "TrimSpace s"
  let ?s2 = "if list_ex line_end ?s1 then TrimSpace (takeWhile (\<lambda>c. \<not> line_end c) ?s1) @ '' '' @ Ellipsis else ?s1"
  assume "c \<in> set (OneLine s limit)"
  then have "c \<in> set ?s2 \<union> set ReplacementChar \<union> set Ellipsis"
    using Truncate_chars[of ?s2 limit] unfolding OneLine_def Let_def by blast
  moreover have "\<not> line_end x" if "x \<in> set ?s2" for x
  proof (cases "list_ex line_end ?s1")
    case True
    then have "x \<in> set (TrimSpace (takeWhile (\<lambda>c. \<not> line_end c) ?s1)) \<or> x \<in> set ('' '' @ Ellipsis)"
      using that by auto
    then show ?thesis
    proof
      assume "x \<in> set (TrimSpace (takeWhile (\<lambda>c. \<not> line_end c) ?s1))"
      then have "x \<in> set (takeWhile (\<lambda>c. \<not> line_end c) ?s1)" using set_TrimSpace by blast
      then show ?thesis by (blast dest: set_takeWhileD)
    qed (auto simp: line_end_def Ellipsis_def)
  next
    case False
    then show ?thesis using that by (auto simp: list_ex_iff)
  qed
  moreover have "\<not> line_end x" if "x \<in> set ReplacementChar \<union> set Ellipsis" for x
    using that by (auto simp: line_end_def ReplacementChar_def Ellipsis_def)
  ultimately show "\<not> line_end c" by blast
qed

lemma Truncate_width: "valid_utf8 s \<Longrightarrow> \<exists>r. Truncate s limit = concat (take limit (runes s)) @ r \<and> r \<in> {[], Ellipsis}"
  using runes_concat[of s] by (auto simp: Truncate_def Let_def)

end
