(* ===== verification/Ui_Draw.thy ===== *)
theory Ui_Draw
  imports Lsctl_Render Lsctl_Diff
begin

text \<open>
  The drawing primitives of the interactive interface of \<open>lsctl\<close>
  (\<open>cmd/lsctl/internal/ui/view.go\<close>): styled lines, boxes, columns, the viewport, fitting a text
  to a width, and the lines a value or a diff is shown as. \<open>lipgloss\<close> colours a text without
  changing what is shown, so a style is a name and a screen line is a list of styled spans.
  How many columns a text takes and where it is cut is up to \<open>go-runewidth\<close>, the record
  \<open>runewidth\<close>, of which nothing is assumed.
\<close>

section \<open>Styled text\<close>

datatype style = Plain | uiDim | uiFocus | uiSel | uiMark | uiErrSt | uiAdd | uiDel | uiWarn

record uiLine =
  ulText :: string
  ulStyle :: style

definition plain :: "string \<Rightarrow> uiLine" where
  "plain s = \<lparr>ulText = s, ulStyle = Plain\<rparr>"

definition styled :: "style \<Rightarrow> string \<Rightarrow> uiLine" where
  "styled st s = \<lparr>ulText = s, ulStyle = st\<rparr>"

type_synonym segment = "style \<times> string"
type_synonym screen = "segment list list"

section \<open>Numbers and display width\<close>

definition clamp :: "int \<Rightarrow> int \<Rightarrow> int \<Rightarrow> int" where
  "clamp v lo hi = (if hi < lo then lo else min (max v lo) hi)"

definition window :: "int \<Rightarrow> int \<Rightarrow> int \<Rightarrow> int" where
  "window cur n h = (if h \<le> 0 \<or> n \<le> h then 0 else clamp (cur - h div 2) 0 (n - h))"

record runewidth =
  rwStringWidth :: "string \<Rightarrow> nat"
  rwTruncate :: "string \<Rightarrow> nat \<Rightarrow> string \<Rightarrow> string"

definition BoxV :: string where "BoxV = [CHR 0xE2, CHR 0x94, CHR 0x82]"
definition BoxH :: string where "BoxH = [CHR 0xE2, CHR 0x94, CHR 0x80]"
definition BoxTL :: string where "BoxTL = [CHR 0xE2, CHR 0x94, CHR 0x8C]"
definition BoxTR :: string where "BoxTR = [CHR 0xE2, CHR 0x94, CHR 0x90]"
definition BoxBL :: string where "BoxBL = [CHR 0xE2, CHR 0x94, CHR 0x94]"
definition BoxBR :: string where "BoxBR = [CHR 0xE2, CHR 0x94, CHR 0x98]"
definition TAB :: char where "TAB = CHR 0x09"

definition spaces :: "nat \<Rightarrow> string" where
  "spaces n = replicate n CHR 0x20"

definition repeat :: "string \<Rightarrow> nat \<Rightarrow> string" where
  "repeat s n = concat (replicate n s)"

definition fit :: "runewidth \<Rightarrow> string \<Rightarrow> int \<Rightarrow> string" where
  "fit rw s w =
     (if w \<le> 0 then []
      else (let s1 = ReplaceByte TAB (spaces 4) s;
                s2 = (if w < int (rwStringWidth rw s1) then rwTruncate rw s1 (nat w) Ellipsis else s1);
                n = rwStringWidth rw s2
            in if int n < w then s2 @ spaces (nat w - n) else s2))"

section \<open>Boxes and columns\<close>

definition box_top :: "runewidth \<Rightarrow> string \<Rightarrow> int \<Rightarrow> string" where
  "box_top rw title inner =
     (let lab0 = '' '' @ title @ '' '';
          lab = (if inner < int (rwStringWidth rw lab0) then rwTruncate rw lab0 (nat inner) [] else lab0)
      in lab @ repeat BoxH (nat (inner - int (rwStringWidth rw lab))))"

definition line_at :: "uiLine list \<Rightarrow> int \<Rightarrow> uiLine" where
  "line_at content j = (if 0 \<le> j \<and> j < int (length content) then content ! nat j else plain [])"

definition box :: "runewidth \<Rightarrow> string \<Rightarrow> bool \<Rightarrow> int \<Rightarrow> int \<Rightarrow> uiLine list \<Rightarrow> int \<Rightarrow> screen" where
  "box rw title focused w h content off =
     (if w < 4 \<or> h < 2 then []
      else (let inner = w - 2; bs = (if focused then uiFocus else uiDim) in
        [[(bs, BoxTL @ box_top rw title inner @ BoxTR)]] @
        map (\<lambda>i. let l = line_at content (int i + off) in
               [(bs, BoxV), (ulStyle l, fit rw ('' '' @ ulText l) inner), (bs, BoxV)])
          [0..<nat (h - 2)] @
        [[(bs, BoxBL @ repeat BoxH (nat inner) @ BoxBR)]]))"

definition joinCols :: "screen list \<Rightarrow> screen" where
  "joinCols cols =
     map (\<lambda>i. concat (map (\<lambda>c. if i < length c then c ! i else []) cols))
       [0..<fold max (map length cols) 0]"

section \<open>The lines of a value and of a diff\<close>

text \<open>\<open>strings.ReplaceAll(v, "\r\n", "\n")\<close>.\<close>

fun crlf_to_lf :: "string \<Rightarrow> string" where
  "crlf_to_lf [] = []"
| "crlf_to_lf [c] = [c]"
| "crlf_to_lf (c # d # s) =
     (if c = CHR 0x0D \<and> d = NL then NL # crlf_to_lf s else c # crlf_to_lf (d # s))"

text \<open>\<open>strings.Map\<close> walks over runes; the ones it drops are single bytes.\<close>

definition control_rune :: "string \<Rightarrow> bool" where
  "control_rune r \<longleftrightarrow> (case r of [c] \<Rightarrow> c \<noteq> TAB \<and> (byte c < 32 \<or> byte c = 127) | _ \<Rightarrow> False)"

definition stripControl :: "string \<Rightarrow> string" where
  "stripControl s = concat (filter (\<lambda>r. \<not> control_rune r) (runes s))"

definition valueLines :: "string \<Rightarrow> string list" where
  "valueLines v =
     (if v = [] then []
      else map stripControl (Split NL (TrimRightByte NL (crlf_to_lf v))))"

definition diff_style :: "string \<Rightarrow> style" where
  "diff_style l =
     (if prefix ''+++'' l \<or> prefix ''---'' l \<or> prefix ''@@'' l then uiDim
      else if prefix ''+'' l then uiAdd
      else if prefix ''-'' l then uiDel
      else Plain)"

definition diffLinesStyled :: "string \<Rightarrow> uiLine list" where
  "diffLinesStyled d = map (\<lambda>l. styled (diff_style l) l) (Split NL (TrimRightByte NL d))"

section \<open>Help\<close>

text \<open>\<open>%-14s\<close> and \<open>%-4d\<close>: padded on the right, counting runes.\<close>

definition pad_right :: "nat \<Rightarrow> string \<Rightarrow> string" where
  "pad_right n s = s @ spaces (n - length (runes s))"

definition UpArrow :: string where "UpArrow = [CHR 0xE2, CHR 0x86, CHR 0x91]"
definition DownArrow :: string where "DownArrow = [CHR 0xE2, CHR 0x86, CHR 0x93]"

definition help_rows :: "(string \<times> string) list" where
  "help_rows =
     [(''j / k / '' @ UpArrow @ '' '' @ DownArrow, ''Move or scroll in the current pane''),
      (''g / G'', ''Jump to the start / end of the current pane''),
      (''tab / h / l'', ''Switch panes''),
      (''enter'', ''Keys/value: open history; history: roll back''),
      (''e'', ''Edit with $EDITOR, then review and confirm the diff''),
      (''d'', ''Compare the selected version with the current value''),
      (''/'', ''Filter by key; esc clears the filter''),
      (''r'', ''Reload''),
      (''y / n'', ''Confirm / cancel''),
      (''q / ctrl-c'', ''Quit'')]"

definition helpLines :: "uiLine list" where
  "helpLines =
     [styled uiDim ''Every TUI action has an equivalent non-interactive command shown before confirmation.'',
      plain []] @
     map (\<lambda>(k, what). plain (''  '' @ pad_right 14 k @ ''  '' @ what)) help_rows @
     [plain [], styled uiDim ''  Commands: lsctl list / get / history / diff / set / rollback'']"

end
