(* ===== verification/Lsctl_Command.thy ===== *)
theory Lsctl_Command
  imports Lsctl_Render Lsctl_Diff
begin

text \<open>
  The commands of \<open>lsctl\<close> (\<open>cmd/lsctl/internal/command\<close>: \<open>root.go\<close>, \<open>read.go\<close>, \<open>write.go\<close>,
  \<open>migrate.go\<close>) over any backend. The backend is a record of its operations on a state; a command
  is a computation on that state and on what has been printed, in the error monad of the
  prelude. \<open>cobra\<close> parses the command line: a command gets its arguments and flags. The texts
  of error messages are left out; an error is a constructor with what it is about.
\<close>

section \<open>Backends, output, errors\<close>

record 's backend =
  beGet :: "string \<Rightarrow> 's \<Rightarrow> (backend_error + ConfigDetail) \<times> 's"
  beList :: "string list \<Rightarrow> 's \<Rightarrow> (backend_error + CConfig list) \<times> 's"
  beSet :: "string \<Rightarrow> string \<Rightarrow> string \<Rightarrow> BChange \<Rightarrow> 's \<Rightarrow> (backend_error + WriteResult) \<times> 's"
  beDelete :: "string \<Rightarrow> BChange \<Rightarrow> 's \<Rightarrow> (backend_error + WriteResult) \<times> 's"
  beHistory :: "string \<Rightarrow> int \<Rightarrow> 's \<Rightarrow> (backend_error + ApiHistory list) \<times> 's"
  beRollback :: "string \<Rightarrow> int \<Rightarrow> BChange \<Rightarrow> 's \<Rightarrow> (backend_error + WriteResult) \<times> 's"
  beMigrate :: "'s \<Rightarrow> (backend_error + unit) \<times> 's"
  beDescribe :: string

record io =
  stdout :: "item list"
  stderr :: "item list"

datatype cmd_error =
  BadOutput string
| BothBackends
| NoBackend
| OpenError open_error
| BackendErr backend_error
| NoSuchVersion string int string
| BadVersion string
| BadTarget int
| BadFormatFlag string
| TwoSources
| NoValue
| ReadFailed string
| EncodeFailed

type_synonym ('s, 'a) cmd = "('s \<times> io, cmd_error, 'a) act"

definition call :: "('s \<Rightarrow> (backend_error + 'a) \<times> 's) \<Rightarrow> ('s, 'a) cmd" where
  "call f st = (case f (fst st) of
      (Inl err, s) \<Rightarrow> (Inl (BackendErr err), (s, snd st))
    | (Inr x, s) \<Rightarrow> (Inr x, (s, snd st)))"

text \<open>\<open>call_try\<close>: the caller looks at the error itself.\<close>

definition call_try :: "('s \<Rightarrow> (backend_error + 'a) \<times> 's) \<Rightarrow> ('s, backend_error + 'a) cmd" where
  "call_try f st = (case f (fst st) of (r, s) \<Rightarrow> (Inr r, (s, snd st)))"

definition print :: "item \<Rightarrow> ('s, unit) cmd" where
  "print x st = (Inr (), (fst st, (snd st)\<lparr>stdout := stdout (snd st) @ [x]\<rparr>))"

definition print_err :: "item \<Rightarrow> ('s, unit) cmd" where
  "print_err x st = (Inr (), (fst st, (snd st)\<lparr>stderr := stderr (snd st) @ [x]\<rparr>))"

text \<open>\<open>EmitJSON\<close> on either stream: a text that is not valid UTF-8 makes the encoder fail.\<close>

definition EmitJSON :: "(item \<Rightarrow> ('s, unit) cmd) \<Rightarrow> json \<Rightarrow> ('s, unit) cmd" where
  "EmitJSON pr j =
     (case Marshal j of
        Some _ \<Rightarrow> pr (Document j)
      | None \<Rightarrow> andThen (pr (CutDocument j)) (\<lambda>_. throw EncodeFailed))"

definition line :: "string \<Rightarrow> item" where
  "line s = Text (s @ [NL])"

record flags =
  flServer :: string
  flDSN :: string
  flDriver :: string
  flAuthor :: string
  flOutput :: string

record render_env =
  reTime :: timecodec
  reLocal :: "int \<Rightarrow> string"

definition pick :: "flags \<Rightarrow> string \<Rightarrow> string" where
  "pick r dflt = cmp_Or (flOutput r) dflt"

definition change :: "flags \<Rightarrow> string \<Rightarrow> BChange" where
  "change r comment = \<lparr>chAuthor = flAuthor r, chComment = comment\<rparr>"

text \<open>\<open>defaultAuthor\<close>: the user's name is empty when the lookup failed.\<close>

definition default_author :: "string \<Rightarrow> string \<Rightarrow> string \<Rightarrow> string" where
  "default_author lsctl_author user_name env_user =
     cmp_Or lsctl_author (cmp_Or user_name (cmp_Or env_user ''unknown''))"

section \<open>Reading\<close>

definition parseVersion :: "string \<Rightarrow> cmd_error + int" where
  "parseVersion s =
     (case ParseInt 64 s of
        None \<Rightarrow> Inl (BadVersion s)
      | Some n \<Rightarrow> if n \<le> 0 then Inl (BadVersion s) else Inr n)"

definition versionRange :: "ApiHistory list \<Rightarrow> string" where
  "versionRange entries =
     (if entries = [] then ''no history''
      else (let hi = aVersion (hd entries); lo = aVersion (last entries) in
            if hi = lo then ''only '' @ int_str hi else int_str lo @ ''..'' @ int_str hi))"

definition findVersion :: "'s backend \<Rightarrow> string \<Rightarrow> int \<Rightarrow> ('s, ApiHistory) cmd" where
  "findVersion be key version =
     andThen (call (beHistory be key (-1))) (\<lambda>entries.
       case find (\<lambda>h. aVersion h = version) entries of
         Some h \<Rightarrow> ret h
       | None \<Rightarrow> throw (NoSuchVersion key version (versionRange entries)))"

definition value_text :: "string \<Rightarrow> string" where
  "value_text v = (if suffix [NL] v then v else v @ [NL])"

definition writeValue :: "string \<Rightarrow> ('s, unit) cmd" where
  "writeValue v = print (Text (value_text v))"

definition detail_table :: "render_env \<Rightarrow> ConfigDetail \<Rightarrow> item" where
  "detail_table re c = Table
     [[''KEY'', dKey c], [''FORMAT'', dFormat c], [''SIZE'', HumanSize (length (dValue c))],
      [''UPDATED'', LocalTime (reTime re) (reLocal re) (dUpdatedAt c)], [''BY'', dUpdatedBy c]]"

definition getCmd :: "render_env \<Rightarrow> flags \<Rightarrow> 's backend \<Rightarrow> string \<Rightarrow> int \<Rightarrow> ('s, unit) cmd" where
  "getCmd re r be key version =
     (if 0 < version then
        andThen (findVersion be key version) (\<lambda>h.
          if pick r OutRaw = OutJSON then EmitJSON print (history_json (reTime re) h)
          else writeValue (aValue h))
      else
        andThen (call (beGet be key)) (\<lambda>c.
          if pick r OutRaw = OutJSON then EmitJSON print (detail_json (reTime re) c)
          else if pick r OutRaw = OutTable then print (detail_table re c)
          else writeValue (dValue c)))"

text \<open>The raw list prints one key per line.\<close>

fun print_lines :: "string list \<Rightarrow> ('s, unit) cmd" where
  "print_lines [] = ret ()"
| "print_lines (x # xs) = andThen (print (line x)) (\<lambda>_. print_lines xs)"

definition list_table :: "CConfig list \<Rightarrow> item" where
  "list_table cs = Table ([''KEY'', ''FORMAT'', ''SIZE'', ''VALUE''] #
     map (\<lambda>c. [eKey c, eFormat c, HumanSize (length (eValue c)), OneLine (eValue c) 48]) cs)"

definition listCmd :: "flags \<Rightarrow> 's backend \<Rightarrow> string list \<Rightarrow> ('s, unit) cmd" where
  "listCmd r be args =
     andThen (call (beList be args)) (\<lambda>configs.
       if pick r OutTable = OutJSON then EmitJSON print (list_doc configs)
       else if pick r OutTable = OutRaw then print_lines (map eKey configs)
       else if configs = [] then print_err (line ''no matching configurations'')
       else print (list_table configs))"

definition history_table :: "render_env \<Rightarrow> ApiHistory list \<Rightarrow> item" where
  "history_table re hs = Table ([''VERSION'', ''OP'', ''WHEN'', ''BY'', ''SIZE'', ''COMMENT''] #
     map (\<lambda>h. [int_str (aVersion h), aOp h, LocalTime (reTime re) (reLocal re) (aCreatedAt h),
               aCreatedBy h, HumanSize (length (aValue h)), OneLine (aComment h) 40]) hs)"

definition historyCmd :: "render_env \<Rightarrow> flags \<Rightarrow> 's backend \<Rightarrow> string \<Rightarrow> int \<Rightarrow> ('s, unit) cmd" where
  "historyCmd re r be key limit =
     andThen (call (beHistory be key (if limit \<le> 0 then -1 else limit))) (\<lambda>entries.
       if pick r OutTable = OutJSON then EmitJSON print (history_doc (reTime re) key entries)
       else if pick r OutTable = OutRaw then print_lines (map (\<lambda>h. int_str (aVersion h)) entries)
       else andThen (print (history_table re entries)) (\<lambda>_.
         print_err (Text ([NL] @ ''Rollback: lsctl rollback '' @ key @ '' --to <VERSION>'' @ [NL]))))"

definition at_version :: "string \<Rightarrow> int \<Rightarrow> string" where
  "at_version key v = key @ ''@v'' @ int_str v"

definition lift_sum :: "cmd_error + 'a \<Rightarrow> ('s, 'a) cmd" where
  "lift_sum r = (case r of Inl err \<Rightarrow> throw err | Inr x \<Rightarrow> ret x)"

text \<open>The right side of a diff: the second version named, or the current value.\<close>

definition diff_right :: "'s backend \<Rightarrow> string \<Rightarrow> string option \<Rightarrow> ('s, string \<times> string) cmd" where
  "diff_right be key arg2 =
     (case arg2 of
        Some a \<Rightarrow> andThen (lift_sum (parseVersion a)) (\<lambda>v2.
                 andThen (findVersion be key v2) (\<lambda>h. ret (aValue h, at_version key v2)))
      | None \<Rightarrow> andThen (call (beGet be key)) (\<lambda>c. ret (dValue c, key @ ''@current'')))"

definition diff_print :: "flags \<Rightarrow> string \<Rightarrow> int \<Rightarrow> ApiHistory \<Rightarrow> string \<times> string \<Rightarrow> ('s, unit) cmd" where
  "diff_print r key v1 left right =
     (let (rightText, rightLabel) = right;
          leftLabel = at_version key v1;
          d = UnifiedDiff (aValue left) rightText leftLabel rightLabel DiffContext in
      if pick r OutTable = OutJSON then EmitJSON print (diff_doc key leftLabel rightLabel d)
      else if d = [] then print_err (line (leftLabel @ '' and '' @ rightLabel @ '' are identical''))
      else print (Text d))"

definition diffCmd :: "flags \<Rightarrow> 's backend \<Rightarrow> string \<Rightarrow> string \<Rightarrow> string option \<Rightarrow> ('s, unit) cmd" where
  "diffCmd r be key arg1 arg2 =
     andThen (lift_sum (parseVersion arg1)) (\<lambda>v1.
     andThen (findVersion be key v1) (\<lambda>left.
     andThen (diff_right be key arg2) (\<lambda>right. diff_print r key v1 left right)))"

section \<open>Writing\<close>

text \<open>What \<open>readValue\<close> finds outside: standard input and files, \<open>None\<close> where reading fails.\<close>

record inputs =
  stdin :: "string option"
  files :: "string \<Rightarrow> string option"

definition readValue :: "inputs \<Rightarrow> string \<Rightarrow> string list \<Rightarrow> cmd_error + (string \<times> string)" where
  "readValue env file args =
     (let hasArg = (length args = 2) in
      if file \<noteq> [] \<and> hasArg then Inl TwoSources
      else if file = ''-'' then
        (case stdin env of None \<Rightarrow> Inl (ReadFailed file) | Some data \<Rightarrow> Inr (data, []))
      else if file \<noteq> [] then
        (case files env file of None \<Rightarrow> Inl (ReadFailed file) | Some data \<Rightarrow> Inr (data, file))
      else if hasArg then Inr (args ! 1, [])
      else Inl NoValue)"

text \<open>\<open>filepath.Ext\<close>: from the last dot of the last path element, the empty string without one.\<close>

definition path_ext :: "string \<Rightarrow> string" where
  "path_ext p =
     (let name = last (Split CHR ''/'' p) in
      case CutLast CHR ''.'' name of (b, a, ok) \<Rightarrow> if ok then CHR ''.'' # a else [])"

definition to_lower :: "string \<Rightarrow> string" where
  "to_lower s = map (\<lambda>c. if 65 \<le> byte c \<and> byte c \<le> 90 then char_of (byte c + 32) else c) s"

definition inferFormat :: "string \<Rightarrow> string \<Rightarrow> string" where
  "inferFormat src val =
     (let ext = to_lower (path_ext src) in
      if ext = ''.yaml'' \<or> ext = ''.yml'' then ''yaml''
      else if ext = ''.json'' then ''json''
      else (let t = TrimSpace val in
            if prefix ''{'' t \<or> prefix ''['' t then ''json''
            else if NL \<in> set t \<and> CHR '':'' \<in> set t then ''yaml''
            else ''raw''))"

definition validFormat :: "string \<Rightarrow> bool" where
  "validFormat s \<longleftrightarrow> s \<in> set [''raw'', ''json'', ''yaml'']"

definition reportWrite :: "flags \<Rightarrow> string \<Rightarrow> string \<Rightarrow> string \<Rightarrow> WriteResult \<Rightarrow> ('s, unit) cmd" where
  "reportWrite r action key format res =
     (if pick r OutTable = OutJSON then EmitJSON print_err (write_doc key action format res)
      else print_err (line (action @ '' '' @ key @ '': version='' @ int_str (wrVersion res) @
             '' revision='' @ int_str (wrRevision res))))"

text \<open>The remarks of a dry run on standard error.\<close>

definition note_format :: "string \<Rightarrow> string \<Rightarrow> string \<Rightarrow> item" where
  "note_format key curFormat format =
     line (key @ '' value is unchanged but format changes: '' @ curFormat @ '' '' @
       [CHR 0xE2, CHR 0x86, CHR 0x92] @ '' '' @ format @ ''; set will still create a new version'')"

definition note_unchanged :: "string \<Rightarrow> item" where
  "note_unchanged key =
     line (key @ '' value and format are unchanged; set will still create a new version and increment the revision'')"

definition note_dry_run :: "string \<Rightarrow> item" where
  "note_dry_run format =
     Text ([NL] @ ''(--dry-run; not written; remove the flag to apply, format='' @ format @ '')'' @ [NL])"

definition previewSet ::
    "flags \<Rightarrow> 's backend \<Rightarrow> string \<Rightarrow> string \<Rightarrow> string \<Rightarrow> ('s, unit) cmd" where
  "previewSet r be key val format =
     andThen (call_try (beGet be key)) (\<lambda>got.
       case (case got of
               Inr c \<Rightarrow> Inr (dValue c, dFormat c, True)
             | Inl err \<Rightarrow> if err = BackendNotFound then Inr ([], [], False) else Inl err) of
         Inl err \<Rightarrow> throw (BackendErr err)
       | Inr (cur, curFormat, exists) \<Rightarrow>
           (let label = (if exists then key @ ''@current'' else key @ ''@(missing)'');
                d = UnifiedDiff cur val label (key @ ''@new'') DiffContext;
                fmtChanged = (exists \<and> curFormat \<noteq> format) in
            if pick r OutTable = OutJSON then
              EmitJSON print (dry_run_doc key format exists (d \<noteq> [] \<or> fmtChanged) d)
            else if d = [] then
              (if fmtChanged then print_err (note_format key curFormat format)
               else print_err (note_unchanged key))
            else andThen (print (Text d)) (\<lambda>_. print_err (note_dry_run format))))"

definition setCmd ::
    "inputs \<Rightarrow> flags \<Rightarrow> 's backend \<Rightarrow> string \<Rightarrow> string \<Rightarrow> string \<Rightarrow> bool \<Rightarrow> string list \<Rightarrow> ('s, unit) cmd" where
  "setCmd env r be file format comment dryRun args =
     (let key = args ! 0 in
      andThen (lift_sum (readValue env file args)) (\<lambda>(val, src).
        let fmt = (if format = [] then inferFormat src val else format) in
        if \<not> validFormat fmt then throw (BadFormatFlag fmt)
        else if dryRun then previewSet r be key val fmt
        else andThen (call (beSet be key val fmt (change r comment))) (\<lambda>res.
               reportWrite r ''wrote'' key fmt res)))"

definition rmCmd :: "flags \<Rightarrow> 's backend \<Rightarrow> string \<Rightarrow> string \<Rightarrow> ('s, unit) cmd" where
  "rmCmd r be comment key =
     andThen (call (beDelete be key (change r comment))) (\<lambda>res.
     andThen (reportWrite r ''deleted'' key [] res) (\<lambda>_.
       if pick r OutTable \<noteq> OutJSON then
         print_err (line (''Undo: lsctl rollback '' @ key @ '' --to '' @ int_str (wrVersion res)))
       else ret ()))"

definition rollbackCmd :: "flags \<Rightarrow> 's backend \<Rightarrow> int \<Rightarrow> string \<Rightarrow> string \<Rightarrow> ('s, unit) cmd" where
  "rollbackCmd r be target comment key =
     (if target \<le> 0 then throw (BadTarget target)
      else andThen (call (beRollback be key target (change r comment))) (\<lambda>res.
             reportWrite r (''rolled back to v'' @ int_str target) key [] res))"

definition migrateCmd :: "'s backend \<Rightarrow> ('s, unit) cmd" where
  "migrateCmd be =
     andThen (call (beMigrate be)) (\<lambda>_. print_err (line (''migrated '' @ beDescribe be @ '' database'')))"

section \<open>The root command\<close>

datatype selection = SelHTTP string | SelDB db_handle

text \<open>\<open>backend\<close>, when none has been opened yet.\<close>

definition select_backend :: "(string \<Rightarrow> string \<Rightarrow> bool) \<Rightarrow> flags \<Rightarrow> cmd_error + selection" where
  "select_backend sql_open r =
     (if flServer r \<noteq> [] \<and> flDSN r \<noteq> [] then Inl BothBackends
      else if flServer r \<noteq> [] then Inr (SelHTTP (http_base (flServer r)))
      else if flDSN r \<noteq> [] then
        (case OpenDB sql_open (flDriver r) (flDSN r) of
           Inl err \<Rightarrow> Inl (OpenError err) | Inr h \<Rightarrow> Inr (SelDB h))
      else Inl NoBackend)"

text \<open>\<open>bind\<close>: the checks before a command, which see no backend state.\<close>

definition bind :: "(string \<Rightarrow> string \<Rightarrow> bool) \<Rightarrow> flags \<Rightarrow> (selection \<Rightarrow> 's backend) \<Rightarrow>
    ('s backend \<Rightarrow> ('s, unit) cmd) \<Rightarrow> ('s, unit) cmd" where
  "bind sql_open r mk body =
     (if \<not> ValidOutput (flOutput r) then throw (BadOutput (flOutput r))
      else (case select_backend sql_open r of Inl err \<Rightarrow> throw err | Inr sel \<Rightarrow> body (mk sel)))"

definition exitError :: nat where "exitError = 1"
definition exitNotFound :: nat where "exitNotFound = 4"

text \<open>\<open>errors.Is(err, backend.ErrNotFound)\<close>.\<close>

definition is_not_found :: "cmd_error \<Rightarrow> bool" where
  "is_not_found err \<longleftrightarrow>
     (case err of BackendErr b \<Rightarrow> b = BackendNotFound | NoSuchVersion _ _ _ \<Rightarrow> True | _ \<Rightarrow> False)"

text \<open>The exit code that \<open>Execute\<close> picks for an error.\<close>

definition exit_status :: "cmd_error + unit \<Rightarrow> nat" where
  "exit_status r = (case r of Inr _ \<Rightarrow> 0 | Inl err \<Rightarrow> if is_not_found err then exitNotFound else exitError)"

end
