(* ===== verification/Ui_Model.thy ===== *)
theory Ui_Model
  imports Ui_Draw Lsctl_Command
begin

text \<open>
  The interactive interface of \<open>lsctl\<close> (\<open>cmd/lsctl/internal/ui/model.go\<close> and \<open>edit.go\<close>): the
  model, the messages, and \<open>Update\<close>. A \<open>tea.Cmd\<close> is a list of tasks to run later (\<open>nil\<close> is the
  empty list, \<open>tea.Batch\<close> concatenation); \<open>run_task\<close> is what a task does with the backend when
  the runtime runs it. \<open>Update\<close> gives \<open>None\<close> where the code would panic on an index or not
  return. Temporary files are a map from paths to contents,
  with the paths that could not be removed.
\<close>

section \<open>Data\<close>

definition uiHistoryLimit :: int where "uiHistoryLimit = 50"

datatype uiMode = modeBrowse | modeFilter | modeOverlay

datatype pane = paneKeys | paneValue | paneHistory

text \<open>\<open>(m.focus + 1) % paneCount\<close> and \<open>(m.focus + paneCount - 1) % paneCount\<close>.\<close>

fun next_pane :: "pane \<Rightarrow> pane" where
  "next_pane paneKeys = paneValue"
| "next_pane paneValue = paneHistory"
| "next_pane paneHistory = paneKeys"

fun prev_pane :: "pane \<Rightarrow> pane" where
  "prev_pane paneKeys = paneHistory"
| "prev_pane paneValue = paneKeys"
| "prev_pane paneHistory = paneValue"

datatype pendKind = pendSet | pendRollback

record pending =
  pKind :: pendKind
  pKey :: string
  pValue :: string
  pFormat :: string
  pVersion :: int
  pAction :: string
  pComment :: string
  pEquiv :: string

record keyRow =
  krHeader :: bool
  krLabel :: string
  krKey :: string

record Model =
  mAuthor :: string
  mPrefixes :: "string list"
  mW :: int
  mH :: int
  mConfigs :: "CConfig list"
  mRows :: "keyRow list"
  mCur :: int
  mFilter :: string
  mDetail :: ConfigDetail
  mHasDetail :: bool
  mHistory :: "ApiHistory list"
  mHcur :: int
  mVoff :: int
  mFocus :: pane
  mMode :: uiMode
  mKeysSeq :: nat
  mDetailSeq :: nat
  mDetailKey :: string
  mLoadingKeys :: bool
  mLoadingDetail :: bool
  mOverlayTitle :: string
  mOverlayLines :: "uiLine list"
  mOoff :: int
  mPend :: "pending option"
  mStatus :: string
  mErrMsg :: string
  mWrites :: "string list"

datatype ui_error =
  UiBackend backend_error
| UiCreateTemp
| UiWriteTemp
| UiCloseTemp
| UiEditorExit
| UiReadBack

text \<open>The zero value of a detail; \<open>Update\<close> gets the texts of errors and the system around it.\<close>

definition no_detail :: "int \<Rightarrow> ConfigDetail" where
  "no_detail zero = \<lparr>dKey = [], dValue = [], dFormat = [], dUpdatedAt = zero, dUpdatedBy = []\<rparr>"

text \<open>The temporary files: their contents, and the paths whose removal the system has refused.\<close>

record tempfiles =
  tfContent :: "string \<Rightarrow> string option"
  tfRefused :: "string set"

definition put_file :: "string \<Rightarrow> string option \<Rightarrow> tempfiles \<Rightarrow> tempfiles" where
  "put_file path content fs = fs\<lparr>tfContent := (tfContent fs)(path := content)\<rparr>"

text \<open>\<open>os.Remove\<close>, whose error the code ignores.\<close>

definition remove_file :: "bool \<Rightarrow> string \<Rightarrow> tempfiles \<Rightarrow> tempfiles" where
  "remove_file remove_ok path fs =
     (if remove_ok then put_file path None fs else fs\<lparr>tfRefused := insert path (tfRefused fs)\<rparr>)"

record ui_env =
  ueText :: "ui_error \<Rightarrow> string"
  ueZeroTime :: int
  ueVisual :: string
  ueEditor :: string
  ueLookPath :: "string \<Rightarrow> string option"
  ueCreate :: "string \<Rightarrow> tempfiles \<Rightarrow> string option"
  ueWriteOk :: bool
  ueWritten :: nat
  ueCloseOk :: bool
  ueRemoveOk :: bool

definition Loading :: string where "Loading = ''Loading'' @ Ellipsis"
definition Refreshing :: string where "Refreshing = ''Refreshing'' @ Ellipsis"

definition NewModel :: "int \<Rightarrow> string \<Rightarrow> string list \<Rightarrow> Model" where
  "NewModel zero author pfxs =
     \<lparr>mAuthor = author, mPrefixes = pfxs, mW = 100, mH = 30, mConfigs = [], mRows = [], mCur = 0, mFilter = [],
      mDetail = no_detail zero, mHasDetail = False, mHistory = [], mHcur = 0, mVoff = 0,
      mFocus = paneKeys, mMode = modeBrowse, mKeysSeq = 0, mDetailSeq = 0, mDetailKey = [],
      mLoadingKeys = False, mLoadingDetail = False, mOverlayTitle = [], mOverlayLines = [], mOoff = 0,
      mPend = None, mStatus = Loading, mErrMsg = [], mWrites = []\<rparr>"

section \<open>Tasks and messages\<close>

datatype task =
  FetchKeys nat "string list"
| FetchDetail nat string
| FetchHistory nat string ConfigDetail
| DoWrite string pending
| RunEditor "string list" string string string
| Quit

datatype key_type = KeyCtrlC | KeyEsc | KeyEnter | KeyBackspace | KeySpace | KeyRunes | KeyOther

text \<open>\<open>tea.KeyMsg\<close>: its type, its runes and what its \<open>String()\<close> gives.\<close>

record key_msg =
  kType :: key_type
  kRunes :: string
  kString :: string

datatype msg =
  WindowSizeMsg int int
| KeysMsg nat "backend_error + CConfig list"
| DetailMsg nat string "backend_error + (ConfigDetail \<times> ApiHistory list \<times> backend_error option)"
| WriteMsg string string "backend_error + WriteResult"
| EditedMsg string "ui_error + (string \<times> string)"
| KeyMsg key_msg
| OtherMsg

type_synonym upd = "Model \<times> task list"

definition loadKeys :: "Model \<Rightarrow> upd" where
  "loadKeys m =
     (let n = mKeysSeq m + 1 in
      (m\<lparr>mKeysSeq := n, mLoadingKeys := True\<rparr>, [FetchKeys n (mPrefixes m)]))"

definition Init :: "Model \<Rightarrow> upd" where
  "Init m = loadKeys m"

definition loadDetail :: "string \<Rightarrow> Model \<Rightarrow> upd" where
  "loadDetail key m =
     (let n = mDetailSeq m + 1 in
      (m\<lparr>mDetailSeq := n, mDetailKey := key, mLoadingDetail := True\<rparr>, [FetchDetail n key]))"

definition doWrite :: "pending \<Rightarrow> Model \<Rightarrow> upd" where
  "doWrite p m = (m, [DoWrite (mAuthor m) p])"

text \<open>\<open>tea.Batch(m.loadKeys(), m.loadDetail(k))\<close>.\<close>

definition loadBoth :: "string \<Rightarrow> Model \<Rightarrow> upd" where
  "loadBoth key m =
     (case loadKeys m of (m1, c1) \<Rightarrow> case loadDetail key m1 of (m2, c2) \<Rightarrow> (m2, c1 @ c2))"

text \<open>
  The body of a task: it ends in a message, or goes on with another call (the history after the
  value, so that other clients may write between the two).
\<close>

definition write_change :: "string \<Rightarrow> pending \<Rightarrow> BChange" where
  "write_change author p = \<lparr>chAuthor = author, chComment = pComment p\<rparr>"

definition run_write :: "'s backend \<Rightarrow> string \<Rightarrow> pending \<Rightarrow> 's \<Rightarrow> (backend_error + WriteResult) \<times> 's" where
  "run_write be author p s =
     (case pKind p of
        pendSet \<Rightarrow> beSet be (pKey p) (pValue p) (pFormat p) (write_change author p) s
      | pendRollback \<Rightarrow> beRollback be (pKey p) (pVersion p) (write_change author p) s)"

fun run_task :: "'s backend \<Rightarrow> task \<Rightarrow> 's \<Rightarrow> (task list \<times> msg list) \<times> 's" where
  "run_task be (FetchKeys n pfxs) s =
     (case beList be pfxs s of (r, s') \<Rightarrow> (([], [KeysMsg n r]), s'))"
| "run_task be (FetchDetail n key) s =
     (case beGet be key s of
        (Inl err, s') \<Rightarrow> (([], [DetailMsg n key (Inl err)]), s')
      | (Inr d, s') \<Rightarrow> (([FetchHistory n key d], []), s'))"
| "run_task be (FetchHistory n key d) s =
     (case beHistory be key uiHistoryLimit s of
        (Inr h, s') \<Rightarrow> (([], [DetailMsg n key (Inr (d, h, None))]), s')
      | (Inl herr, s') \<Rightarrow>
          (([], [DetailMsg n key (Inr (d, [], if herr = BackendNotFound then None else Some herr))]), s'))"
| "run_task be (DoWrite author p) s =
     (case run_write be author p s of (r, s') \<Rightarrow> (([], [WriteMsg (pAction p) (pKey p) r]), s'))"
| "run_task be (RunEditor ed path key format) s = (([RunEditor ed path key format], []), s)"
| "run_task be Quit s = (([Quit], []), s)"

section \<open>Rows of the key pane\<close>

definition splitKey :: "string \<Rightarrow> string \<times> string" where
  "splitKey k =
     (case Cut CHR '':'' k of (before, after, ok) \<Rightarrow>
        if \<not> ok then ([], k) else (before @ '':'', after))"

text \<open>The last group seen is at first \<open>"\x00"\<close>.\<close>

fun row_loop :: "string \<Rightarrow> string \<Rightarrow> CConfig list \<Rightarrow> keyRow list" where
  "row_loop flt prev [] = []"
| "row_loop flt prev (c # cs) =
     (if flt \<noteq> [] \<and> \<not> Contains (eKey c) flt then row_loop flt prev cs
      else (case splitKey (eKey c) of (g, leaf) \<Rightarrow>
        (if g \<noteq> prev \<and> g \<noteq> [] then [\<lparr>krHeader = True, krLabel = g, krKey = []\<rparr>] else []) @
        \<lparr>krHeader = False, krLabel = leaf, krKey = eKey c\<rparr> # row_loop flt g cs))"

definition buildRows :: "CConfig list \<Rightarrow> string \<Rightarrow> keyRow list" where
  "buildRows configs flt = row_loop flt [CHR 0x00] configs"

text \<open>\<open>slices.IndexFunc\<close>.\<close>

definition index_func :: "('a \<Rightarrow> bool) \<Rightarrow> 'a list \<Rightarrow> int" where
  "index_func P xs =
     (let i = length (takeWhile (\<lambda>x. \<not> P x) xs) in if i < length xs then int i else -1)"

definition notHeader :: "keyRow \<Rightarrow> bool" where
  "notHeader r \<longleftrightarrow> \<not> krHeader r"

definition selectedKey :: "Model \<Rightarrow> string" where
  "selectedKey m =
     (if mCur m < 0 \<or> int (length (mRows m)) \<le> mCur m then [] else krKey (mRows m ! nat (mCur m)))"

definition rowOf :: "string \<Rightarrow> Model \<Rightarrow> int" where
  "rowOf key m =
     (if key = [] then -1 else index_func (\<lambda>r. \<not> krHeader r \<and> krKey r = key) (mRows m))"

definition firstKeyRow :: "Model \<Rightarrow> int" where
  "firstKeyRow m = max (index_func notHeader (mRows m)) 0"

definition lastKeyRow :: "Model \<Rightarrow> int" where
  "lastKeyRow m =
     (let i = index_func notHeader (rev (mRows m)) in
      if 0 \<le> i then int (length (mRows m)) - 1 - i else 0)"

section \<open>Bounds, overlay, selection\<close>

definition innerH :: "Model \<Rightarrow> int" where
  "innerH m = max (mH m - 5) 1"

definition clampScroll :: "Model \<Rightarrow> Model" where
  "clampScroll m =
     m\<lparr>mHcur := clamp (mHcur m) 0 (int (length (mHistory m)) - 1),
       mVoff := clamp (mVoff m) 0 (int (length (valueLines (dValue (mDetail m)))) - innerH m),
       mOoff := clamp (mOoff m) 0 (int (length (mOverlayLines m)) - innerH m),
       mCur := clamp (mCur m) 0 (int (length (mRows m)) - 1)\<rparr>"

definition openOverlay :: "string \<Rightarrow> uiLine list \<Rightarrow> Model \<Rightarrow> Model" where
  "openOverlay title lines m =
     m\<lparr>mMode := modeOverlay, mOverlayTitle := title, mOverlayLines := lines, mOoff := 0\<rparr>"

definition closeOverlay :: "Model \<Rightarrow> Model" where
  "closeOverlay m =
     m\<lparr>mMode := modeBrowse, mOverlayTitle := [], mOverlayLines := [], mOoff := 0, mPend := None\<rparr>"

definition syncDetail :: "ui_env \<Rightarrow> string \<Rightarrow> Model \<Rightarrow> upd" where
  "syncDetail env prev m =
     (let k = selectedKey m in
      if k = prev \<and> (mHasDetail m \<or> k = []) then (m, [])
      else
        let m1 = m\<lparr>mHcur := 0, mVoff := 0, mHasDetail := False,
                   mDetail := no_detail (ueZeroTime env), mHistory := []\<rparr> in
        if k = [] then
          (m1\<lparr>mDetailSeq := mDetailSeq m1 + 1, mDetailKey := [], mLoadingDetail := False\<rparr>, [])
        else loadDetail k m1)"

definition rebuild :: "ui_env \<Rightarrow> Model \<Rightarrow> upd" where
  "rebuild env m =
     (let prev = selectedKey m;
          m1 = m\<lparr>mRows := buildRows (mConfigs m) (mFilter m)\<rparr>;
          i = rowOf prev m1;
          m2 = m1\<lparr>mCur := (if 0 \<le> i then i else firstKeyRow m1)\<rparr>
      in syncDetail env prev m2)"

text \<open>
  The loop of \<open>moveKeys\<close>: \<open>Some None\<close> when it runs off the rows, \<open>None\<close> when it does not return.
\<close>

partial_function (option) scan_rows :: "keyRow list \<Rightarrow> int \<Rightarrow> int \<Rightarrow> int option option" where
  "scan_rows rows i d =
     (if 0 \<le> i \<and> i < int (length rows) then
        (if \<not> krHeader (rows ! nat i) then Some (Some i) else scan_rows rows (i + d) d)
      else Some None)"

declare scan_rows.simps [code]

definition moveKeys :: "ui_env \<Rightarrow> int \<Rightarrow> Model \<Rightarrow> upd option" where
  "moveKeys env d m =
     (let prev = selectedKey m in
      case scan_rows (mRows m) (mCur m + d) d of
        None \<Rightarrow> None
      | Some None \<Rightarrow> Some (m, [])
      | Some (Some i) \<Rightarrow> Some (syncDetail env prev (m\<lparr>mCur := i\<rparr>)))"

definition move :: "ui_env \<Rightarrow> int \<Rightarrow> Model \<Rightarrow> upd option" where
  "move env d m =
     (case mFocus m of
        paneKeys \<Rightarrow> moveKeys env d m
      | paneValue \<Rightarrow> Some (clampScroll (m\<lparr>mVoff := mVoff m + d\<rparr>), [])
      | paneHistory \<Rightarrow> Some (clampScroll (m\<lparr>mHcur := mHcur m + d\<rparr>), []))"

definition jump :: "ui_env \<Rightarrow> int \<Rightarrow> Model \<Rightarrow> upd" where
  "jump env d m =
     (case mFocus m of
        paneKeys \<Rightarrow> syncDetail env (selectedKey m)
                      (m\<lparr>mCur := (if d < 0 then firstKeyRow m else lastKeyRow m)\<rparr>)
      | paneValue \<Rightarrow>
          (clampScroll (m\<lparr>mVoff := (if d < 0 then 0 else int (length (valueLines (dValue (mDetail m)))))\<rparr>), [])
      | paneHistory \<Rightarrow>
          (clampScroll (m\<lparr>mHcur := (if d < 0 then 0 else int (length (mHistory m)))\<rparr>), []))"

section \<open>The equivalent command\<close>

definition Quote :: char where "Quote = CHR 0x27"

definition shellQuote :: "string \<Rightarrow> string" where
  "shellQuote s = [Quote] @ ReplaceByte Quote [Quote, CHR 0x5C, Quote, Quote] s @ [Quote]"

definition equivSet :: "string \<Rightarrow> string \<Rightarrow> string \<Rightarrow> string" where
  "equivSet key val format =
     ''lsctl set '' @ key @ '' '' @ shellQuote val @ '' --format '' @ format"

definition equivRollback :: "string \<Rightarrow> int \<Rightarrow> string" where
  "equivRollback key version = ''lsctl rollback '' @ key @ '' --to '' @ int_str version"

section \<open>Editing\<close>

text \<open>\<open>strings.Fields\<close>: maximal runs without white space.\<close>

fun field_word :: "string \<Rightarrow> string \<times> string" where
  "field_word [] = ([], [])"
| "field_word (c # s) =
     (if strip_front (c # s) \<noteq> None then ([], c # s)
      else (case field_word s of (w, r) \<Rightarrow> (c # w, r)))"

lemma field_word_shorter: "field_word s = (w, r) \<Longrightarrow> length r \<le> length s"
  by (induction s arbitrary: w) (auto split: if_splits prod.splits)

lemma TrimLeftSpace_le: "length (TrimLeftSpace s) \<le> length s"
proof (induction s rule: TrimLeftSpace.induct)
  case (1 s)
  show ?case
  proof (cases "strip_front s")
    case None
    then show ?thesis by (simp add: TrimLeftSpace.simps[of s])
  next
    case (Some t)
    then show ?thesis
      using 1 strip_front_shorter[OF Some] by (simp add: TrimLeftSpace.simps[of s])
  qed
qed

lemma TrimLeftSpace_front: "strip_front (TrimLeftSpace s) = None"
proof (induction s rule: TrimLeftSpace.induct)
  case (1 s)
  then show ?case by (cases "strip_front s") (simp_all add: TrimLeftSpace.simps[of s])
qed

lemma Fields_shorter:
  assumes "TrimLeftSpace s = c # u" and "(w, r) = field_word (c # u)"
  shows "length r < length s"
proof -
  have "strip_front (c # u) = None" using TrimLeftSpace_front[of s] assms(1) by simp
  then have "length r < length (c # u)"
    using assms(2) field_word_shorter[of u] by (auto split: prod.splits)
  then show ?thesis using TrimLeftSpace_le[of s] assms(1) by simp
qed

function Fields :: "string \<Rightarrow> string list" where
  "Fields s =
     (case TrimLeftSpace s of
        [] \<Rightarrow> []
      | c # u \<Rightarrow> (case field_word (c # u) of (w, r) \<Rightarrow> w # Fields r))"
  by pat_completeness auto
termination
  by (relation "measure length") (auto simp del: field_word.simps dest: Fields_shorter)

declare Fields.simps [simp del]

definition editorCmd :: "ui_env \<Rightarrow> string list option" where
  "editorCmd env =
     (if Fields (ueVisual env) \<noteq> [] then Some (Fields (ueVisual env))
      else if Fields (ueEditor env) \<noteq> [] then Some (Fields (ueEditor env))
      else (case find (\<lambda>name. ueLookPath env name \<noteq> None) [''vim'', ''vi'', ''nano''] of
              None \<Rightarrow> None
            | Some name \<Rightarrow> map_option (\<lambda>p. [p]) (ueLookPath env name)))"

definition extFor :: "string \<Rightarrow> string" where
  "extFor format =
     (if format = ''yaml'' then ''.yaml'' else if format = ''json'' then ''.json'' else ''.txt'')"

definition safe_char :: "char \<Rightarrow> bool" where
  "safe_char c \<longleftrightarrow>
     97 \<le> byte c \<and> byte c \<le> 122 \<or> 65 \<le> byte c \<and> byte c \<le> 90 \<or> 48 \<le> byte c \<and> byte c \<le> 57 \<or> c = CHR ''_''"

definition safe_rune :: "string \<Rightarrow> bool" where
  "safe_rune r \<longleftrightarrow> (case r of [c] \<Rightarrow> safe_char c | _ \<Rightarrow> False)"

definition safe_step :: "string \<Rightarrow> string \<Rightarrow> string" where
  "safe_step r b =
     (if safe_rune r then b @ r else if b \<noteq> [] \<and> \<not> suffix ''-'' b then b @ ''-'' else b)"

text \<open>\<open>strings.Trim(s, "-")\<close>.\<close>

definition trim_dash :: "string \<Rightarrow> string" where
  "trim_dash s = TrimRightByte CHR ''-'' (dropWhile (\<lambda>c. c = CHR ''-'') s)"

definition safeName :: "string \<Rightarrow> string" where
  "safeName key =
     (let s = trim_dash (fold safe_step (runes key) []) in
      if 48 < length s then trim_dash (take 48 s) else s)"

definition temp_pattern :: "string \<Rightarrow> string \<Rightarrow> string" where
  "temp_pattern key format = ''lsctl-'' @ safeName key @ ''-*'' @ extFor format"

text \<open>
  \<open>os.CreateTemp\<close> makes an empty file. A failed write leaves the first \<open>ueWritten\<close> bytes; then, and when
  closing fails, the file is removed.
\<close>

definition writeTemp :: "ui_env \<Rightarrow> string \<Rightarrow> string \<Rightarrow> string \<Rightarrow> tempfiles \<Rightarrow> (ui_error + string) \<times> tempfiles" where
  "writeTemp env key format val fs =
     (case ueCreate env (temp_pattern key format) fs of
        None \<Rightarrow> (Inl UiCreateTemp, fs)
      | Some path \<Rightarrow>
          if \<not> ueWriteOk env then
            (Inl UiWriteTemp, remove_file (ueRemoveOk env) path (put_file path (Some (take (ueWritten env) val)) fs))
          else if \<not> ueCloseOk env then
            (Inl UiCloseTemp, remove_file (ueRemoveOk env) path (put_file path (Some val) fs))
          else (Inr path, put_file path (Some val) fs))"

definition startEdit :: "ui_env \<Rightarrow> Model \<Rightarrow> tempfiles \<Rightarrow> upd \<times> tempfiles" where
  "startEdit env m fs =
     (if \<not> mHasDetail m then ((m\<lparr>mStatus := ''Select a config first''\<rparr>, []), fs)
      else (case editorCmd env of
          None \<Rightarrow> ((m\<lparr>mStatus := ''Editor not found; set $EDITOR and try again''\<rparr>, []), fs)
        | Some ed \<Rightarrow>
            (let key = dKey (mDetail m); format = dFormat (mDetail m) in
             case writeTemp env key format (dValue (mDetail m)) fs of
               (Inl err, fs') \<Rightarrow> ((m\<lparr>mErrMsg := ueText env err\<rparr>, []), fs')
             | (Inr path, fs') \<Rightarrow> ((m, [RunEditor ed path key format]), fs'))))"

text \<open>
  After the editor, which failed or not: what the file holds now is read, and the deferred removal is
  tried whatever happens.
\<close>

definition edit_done :: "bool \<Rightarrow> bool \<Rightarrow> string \<Rightarrow> string \<Rightarrow> string \<Rightarrow> tempfiles \<Rightarrow> msg \<times> tempfiles" where
  "edit_done run_ok remove_ok path key format fs =
     ((if \<not> run_ok then EditedMsg key (Inl UiEditorExit)
       else (case tfContent fs path of
               None \<Rightarrow> EditedMsg key (Inl UiReadBack)
             | Some data \<Rightarrow> EditedMsg key (Inr (format, data)))),
      remove_file remove_ok path fs)"

section \<open>Diff, rollback and edit\<close>

definition MidDot :: string where "MidDot = [CHR 0xC2, CHR 0xB7]"
definition RightArrow :: string where "RightArrow = [CHR 0xE2, CHR 0x86, CHR 0x92]"

definition current_label :: "string \<Rightarrow> string" where
  "current_label key = key @ ''@current''"

text \<open>\<open>m.history[m.hcur]\<close>.\<close>

definition history_at_cursor :: "Model \<Rightarrow> ApiHistory option" where
  "history_at_cursor m =
     (if 0 \<le> mHcur m \<and> mHcur m < int (length (mHistory m)) then Some (mHistory m ! nat (mHcur m)) else None)"

definition showDiff :: "Model \<Rightarrow> upd option" where
  "showDiff m =
     (if \<not> mHasDetail m then Some (m\<lparr>mStatus := ''Select a config first''\<rparr>, [])
      else if mHistory m = [] then Some (m\<lparr>mStatus := ''No history to compare''\<rparr>, [])
      else map_option (\<lambda>h.
        let key = dKey (mDetail m);
            d = UnifiedDiff (aValue h) (dValue (mDetail m)) (at_version key (aVersion h)) (current_label key) DiffContext
        in if d = [] then (m\<lparr>mStatus := ''v'' @ int_str (aVersion h) @ '' matches the current value''\<rparr>, [])
           else (openOverlay
                   (''diff  '' @ MidDot @ ''  equivalent command: lsctl diff '' @ key @ '' '' @ int_str (aVersion h))
                   (diffLinesStyled d) m, [])) (history_at_cursor m))"

definition pend_rollback :: "string \<Rightarrow> int \<Rightarrow> pending" where
  "pend_rollback key version =
     \<lparr>pKind = pendRollback, pKey = key, pValue = [], pFormat = [], pVersion = version,
      pAction = ''Rolled back to v'' @ int_str version,
      pComment = ''Roll back to v'' @ int_str version @ '' (lsctl ui)'',
      pEquiv = equivRollback key version\<rparr>"

definition pend_set :: "string \<Rightarrow> string \<Rightarrow> string \<Rightarrow> pending" where
  "pend_set key val format =
     \<lparr>pKind = pendSet, pKey = key, pValue = val, pFormat = format, pVersion = 0,
      pAction = ''Saved'', pComment = ''Edit (lsctl ui)'', pEquiv = equivSet key val format\<rparr>"

definition format_only :: "string \<Rightarrow> string \<Rightarrow> string" where
  "format_only fmt1 fmt2 =
     ''(same value; format changes only: '' @ fmt1 @ '' '' @ RightArrow @ '' '' @ fmt2 @ '')'' @ [NL]"

definition askRollback :: "Model \<Rightarrow> upd option" where
  "askRollback m =
     (if \<not> mHasDetail m \<or> mHistory m = [] then Some (m\<lparr>mStatus := ''No version to roll back to''\<rparr>, [])
      else map_option (\<lambda>h.
        let key = dKey (mDetail m);
            d = UnifiedDiff (dValue (mDetail m)) (aValue h) (current_label key) (at_version key (aVersion h)) DiffContext;
            fmtChanged = (dFormat (mDetail m) \<noteq> aFormat h)
        in if d = [] \<and> \<not> fmtChanged then
             (m\<lparr>mStatus := ''v'' @ int_str (aVersion h) @ '' matches the current value; no rollback needed''\<rparr>, [])
           else
             (openOverlay (''Roll back '' @ key @ '' to v'' @ int_str (aVersion h))
                (diffLinesStyled (if d = [] then format_only (dFormat (mDetail m)) (aFormat h) else d))
                (m\<lparr>mPend := Some (pend_rollback key (aVersion h))\<rparr>), [])) (history_at_cursor m))"

definition afterEdit :: "ui_env \<Rightarrow> string \<Rightarrow> ui_error + (string \<times> string) \<Rightarrow> Model \<Rightarrow> upd" where
  "afterEdit env key edited m =
     (case edited of
        Inl err \<Rightarrow> (m\<lparr>mErrMsg := ueText env err\<rparr>, [])
      | Inr (format, val) \<Rightarrow>
          if \<not> mHasDetail m \<or> key \<noteq> dKey (mDetail m) then
            (m\<lparr>mStatus := ''Selection changed; edit discarded''\<rparr>, [])
          else
            (let d = UnifiedDiff (dValue (mDetail m)) val (current_label key) (key @ ''@edited'') DiffContext in
             if d = [] then (m\<lparr>mStatus := ''No changes; nothing saved''\<rparr>, [])
             else (openOverlay (''Save '' @ key) (diffLinesStyled d)
                     (m\<lparr>mPend := Some (pend_set key val format)\<rparr>), [])))"

section \<open>Keys\<close>

text \<open>Only starting the editor touches files.\<close>

definition no_files :: "tempfiles \<Rightarrow> upd option \<Rightarrow> (upd \<times> tempfiles) option" where
  "no_files fs r = map_option (\<lambda>u. (u, fs)) r"

definition browseKey :: "ui_env \<Rightarrow> key_msg \<Rightarrow> Model \<Rightarrow> tempfiles \<Rightarrow> (upd \<times> tempfiles) option" where
  "browseKey env k m fs =
     (let key = kString k in
      if key = ''q'' then no_files fs (Some (m, [Quit]))
      else if key = ''?'' then no_files fs (Some (openOverlay ''Keys'' helpLines m, []))
      else if key = ''tab'' \<or> key = ''l'' \<or> key = ''right'' then
        no_files fs (Some (m\<lparr>mFocus := next_pane (mFocus m)\<rparr>, []))
      else if key = ''shift+tab'' \<or> key = ''h'' \<or> key = ''left'' then
        no_files fs (Some (m\<lparr>mFocus := prev_pane (mFocus m)\<rparr>, []))
      else if key = ''/'' then no_files fs (Some (m\<lparr>mMode := modeFilter\<rparr>, []))
      else if key = ''esc'' then
        no_files fs (Some (if mFilter m \<noteq> [] then rebuild env (m\<lparr>mFilter := []\<rparr>)
                           else (m\<lparr>mStatus := []\<rparr>, [])))
      else if key = ''r'' then
        no_files fs (Some (let m1 = m\<lparr>mStatus := Refreshing\<rparr>; sel = selectedKey m1 in
                           if sel \<noteq> [] then loadBoth sel m1 else loadKeys m1))
      else if key = ''j'' \<or> key = ''down'' then no_files fs (move env 1 m)
      else if key = ''k'' \<or> key = ''up'' then no_files fs (move env (-1) m)
      else if key = ''g'' \<or> key = ''home'' then no_files fs (Some (jump env (-1) m))
      else if key = ''G'' \<or> key = ''end'' then no_files fs (Some (jump env 1 m))
      else if key = ''e'' then Some (startEdit env m fs)
      else if key = ''d'' then no_files fs (showDiff m)
      else if key = ''enter'' then
        no_files fs (if mFocus m \<noteq> paneHistory then Some (m\<lparr>mFocus := paneHistory\<rparr>, []) else askRollback m)
      else no_files fs (Some (m, [])))"

definition filterKey :: "ui_env \<Rightarrow> key_msg \<Rightarrow> Model \<Rightarrow> upd" where
  "filterKey env k m =
     (case kType k of
        KeyEsc \<Rightarrow>
          (let m1 = m\<lparr>mMode := modeBrowse\<rparr> in
           if mFilter m1 = [] then (m1, []) else rebuild env (m1\<lparr>mFilter := []\<rparr>))
      | KeyEnter \<Rightarrow> (m\<lparr>mMode := modeBrowse\<rparr>, [])
      | KeyBackspace \<Rightarrow>
          (let r = runes (mFilter m) in
           if r = [] then (m, []) else rebuild env (m\<lparr>mFilter := concat (butlast r)\<rparr>))
      | KeySpace \<Rightarrow> rebuild env (m\<lparr>mFilter := mFilter m @ '' ''\<rparr>)
      | KeyRunes \<Rightarrow> rebuild env (m\<lparr>mFilter := mFilter m @ kRunes k\<rparr>)
      | _ \<Rightarrow> (m, []))"

definition overlayKey :: "key_msg \<Rightarrow> Model \<Rightarrow> upd" where
  "overlayKey k m =
     (let key = kString k in
      if key = ''y'' \<or> key = ''Y'' then
        (case mPend m of
           None \<Rightarrow> (m, [])
         | Some p \<Rightarrow> doWrite p ((closeOverlay m)\<lparr>mStatus := ''Saving'' @ Ellipsis\<rparr>))
      else if key = ''esc'' \<or> key = ''q'' \<or> key = ''n'' \<or> key = ''N'' then
        (closeOverlay (if mPend m \<noteq> None then m\<lparr>mStatus := ''Canceled; no changes saved''\<rparr> else m), [])
      else
        (clampScroll
           (if key = ''j'' \<or> key = ''down'' then m\<lparr>mOoff := mOoff m + 1\<rparr>
            else if key = ''k'' \<or> key = ''up'' then m\<lparr>mOoff := mOoff m - 1\<rparr>
            else if key = ''g'' \<or> key = ''home'' then m\<lparr>mOoff := 0\<rparr>
            else if key = ''G'' \<or> key = ''end'' then m\<lparr>mOoff := int (length (mOverlayLines m))\<rparr>
            else m), []))"

definition onKey :: "ui_env \<Rightarrow> key_msg \<Rightarrow> Model \<Rightarrow> tempfiles \<Rightarrow> (upd \<times> tempfiles) option" where
  "onKey env k m fs =
     (if kType k = KeyCtrlC then Some ((m, [Quit]), fs)
      else (case mMode m of
          modeFilter \<Rightarrow> Some (filterKey env k m, fs)
        | modeOverlay \<Rightarrow> Some (overlayKey k m, fs)
        | modeBrowse \<Rightarrow> browseKey env k m fs))"

section \<open>Update\<close>

definition on_keys :: "ui_env \<Rightarrow> nat \<Rightarrow> backend_error + CConfig list \<Rightarrow> Model \<Rightarrow> upd" where
  "on_keys env n r m =
     (if n \<noteq> mKeysSeq m then (m, [])
      else (case r of
          Inl err \<Rightarrow> (m\<lparr>mLoadingKeys := False, mErrMsg := ueText env (UiBackend err)\<rparr>, [])
        | Inr cs \<Rightarrow>
            (case rebuild env (m\<lparr>mLoadingKeys := False, mErrMsg := [], mConfigs := cs\<rparr>) of
               (m1, cmd) \<Rightarrow>
                 (if mStatus m1 = Loading \<or> mStatus m1 = Refreshing then m1\<lparr>mStatus := []\<rparr> else m1, cmd))))"

definition on_detail ::
    "ui_env \<Rightarrow> nat \<Rightarrow> string \<Rightarrow> backend_error + (ConfigDetail \<times> ApiHistory list \<times> backend_error option) \<Rightarrow>
     Model \<Rightarrow> upd" where
  "on_detail env n key r m =
     (if n \<noteq> mDetailSeq m \<or> key \<noteq> mDetailKey m then (m, [])
      else (let m1 = m\<lparr>mLoadingDetail := False\<rparr> in
        case r of
          Inl err \<Rightarrow> (m1\<lparr>mHasDetail := False, mErrMsg := ueText env (UiBackend err)\<rparr>, [])
        | Inr (d, h, herr) \<Rightarrow>
            (let m2 = m1\<lparr>mErrMsg := [], mDetail := d, mHistory := h, mHasDetail := True, mHcur := 0, mVoff := 0\<rparr> in
             (case herr of
                None \<Rightarrow> m2
              | Some err \<Rightarrow> m2\<lparr>mStatus := ''History unavailable: '' @ ueText env (UiBackend err)\<rparr>, []))))"

definition write_line :: "string \<Rightarrow> string \<Rightarrow> WriteResult \<Rightarrow> string" where
  "write_line action key res =
     action @ '' '' @ key @ '': version='' @ int_str (wrVersion res) @ '' revision='' @ int_str (wrRevision res)"

definition on_write :: "ui_env \<Rightarrow> string \<Rightarrow> string \<Rightarrow> backend_error + WriteResult \<Rightarrow> Model \<Rightarrow> upd" where
  "on_write env action key r m =
     (case r of
        Inl err \<Rightarrow> (m\<lparr>mErrMsg := ueText env (UiBackend err), mStatus := []\<rparr>, [])
      | Inr res \<Rightarrow>
          (let m1 = m\<lparr>mErrMsg := [], mStatus := write_line action key res,
                      mWrites := mWrites m @ [write_line action key res]\<rparr> in
           if key = selectedKey m1 then loadBoth key m1 else loadKeys m1))"

definition Update :: "ui_env \<Rightarrow> msg \<Rightarrow> Model \<Rightarrow> tempfiles \<Rightarrow> (upd \<times> tempfiles) option" where
  "Update env x m fs =
     (case x of
        WindowSizeMsg w h \<Rightarrow> no_files fs (Some (clampScroll (m\<lparr>mW := w, mH := h\<rparr>), []))
      | KeysMsg n r \<Rightarrow> no_files fs (Some (on_keys env n r m))
      | DetailMsg n key r \<Rightarrow> no_files fs (Some (on_detail env n key r m))
      | WriteMsg action key r \<Rightarrow> no_files fs (Some (on_write env action key r m))
      | EditedMsg key edited \<Rightarrow> no_files fs (Some (afterEdit env key edited m))
      | KeyMsg k \<Rightarrow> onKey env k m fs
      | OtherMsg \<Rightarrow> no_files fs (Some (m, [])))"

end
