(* ===== verification/Ui_View.thy ===== *)
theory Ui_View
  imports Ui_Model
begin

text \<open>
  What the interface of \<open>lsctl\<close> draws for a model (\<open>cmd/lsctl/internal/ui/view.go\<close>): the header,
  the three panes or the overlay, the status and the hint line. A screen is a list of lines, each
  a list of styled spans. The clock and the reader's time zone are parameters.
\<close>

record view_env =
  veWidth :: runewidth
  veDescribe :: "string option"
  veTime :: timecodec
  veLocal :: "int \<Rightarrow> string"
  veSince :: "int \<Rightarrow> int"
  veDay :: "int \<Rightarrow> string"

definition uiMinWidth :: int where "uiMinWidth = 60"
definition uiMinHeight :: int where "uiMinHeight = 12"

definition columnWidths :: "Model \<Rightarrow> int \<times> int" where
  "columnWidths m = (clamp (mW m * 28 div 100) 18 34, clamp (mW m * 26 div 100) 18 30)"

definition header :: "view_env \<Rightarrow> Model \<Rightarrow> segment list" where
  "header ve m =
     (let rw = veWidth ve;
          left = ''lsctl ui'' @ (case veDescribe ve of None \<Rightarrow> [] | Some t \<Rightarrow> ''  '' @ t);
          right0 = int_str (int (length (mConfigs m))) @ '' items'';
          right1 = (if mPrefixes m \<noteq> [] then Join (mPrefixes m) '' '' @ ''  '' @ right0 else right0);
          right = (if mLoadingKeys m \<or> mLoadingDetail m then ''Loading  '' @ right1 else right1);
          gap = mW m - int (rwStringWidth rw left) - int (rwStringWidth rw right)
      in if gap < 1 then [(uiDim, fit rw left (mW m))]
         else [(uiDim, left @ spaces (nat gap) @ right)])"

definition FilterBar :: string where "FilterBar = [CHR 0xE2, CHR 0x96, CHR 0x8F]"

definition filterTag :: "Model \<Rightarrow> string" where
  "filterTag m =
     (if mMode m = modeFilter then ''  /'' @ mFilter m @ FilterBar
      else if mFilter m \<noteq> [] then ''  /'' @ mFilter m
      else [])"

definition valueTitle :: "Model \<Rightarrow> string" where
  "valueTitle m =
     (if \<not> mHasDetail m then ''value''
      else ''value  '' @ dFormat (mDetail m) @ ''  '' @ HumanSize (length (dValue (mDetail m))))"

definition Cross :: string where "Cross = [CHR 0xE2, CHR 0x9C, CHR 0x97]"

text \<open>The limit of \<open>OneLine\<close> is negative only on a screen too small to be drawn.\<close>

definition statusLine :: "view_env \<Rightarrow> Model \<Rightarrow> segment list" where
  "statusLine ve m =
     (let rw = veWidth ve; w = mW m in
      if mErrMsg m \<noteq> [] then [(uiErrSt, fit rw (Cross @ '' '' @ OneLine (mErrMsg m) (nat (w - 2))) w)]
      else (case mPend m of
          Some p \<Rightarrow> [(uiWarn, fit rw (''Equivalent command: '' @ OneLine (pEquiv p) (nat w)) w)]
        | None \<Rightarrow>
            if mStatus m \<noteq> [] then [(Plain, fit rw (OneLine (mStatus m) (nat w)) w)]
            else if mHasDetail m then
              [(uiDim, fit rw (dKey (mDetail m) @ ''  updated by '' @ dUpdatedBy (mDetail m) @ '' at '' @
                  LocalTime (veTime ve) (veLocal ve) (dUpdatedAt (mDetail m))) w)]
            else [(Plain, spaces (nat w))]))"

definition hint :: "Model \<Rightarrow> string" where
  "hint m =
     (if mMode m = modeFilter then ''type to filter   enter apply   esc clear''
      else if mPend m \<noteq> None then ''y save   n/esc cancel   j/k scroll diff''
      else if mMode m = modeOverlay then ''j/k scroll   q/esc close''
      else if mFocus m = paneHistory then
        ''enter rollback   d diff   e edit   / filter   r refresh   ? help   q quit''
      else ''tab switch pane   e edit   d diff   enter history   / filter   r refresh   ? help   q quit'')"

definition hintLine :: "view_env \<Rightarrow> Model \<Rightarrow> segment list" where
  "hintLine ve m = [(uiDim, fit (veWidth ve) (hint m) (mW m))]"

section \<open>Panes\<close>

text \<open>The rows from \<open>start\<close> on, at most \<open>h\<close> of them, each with its index.\<close>

definition shown :: "int \<Rightarrow> int \<Rightarrow> 'a list \<Rightarrow> (int \<times> 'a) list" where
  "shown start h xs =
     map (\<lambda>i. (int i, xs ! i)) (take (nat h) [nat start..<length xs])"

definition key_line :: "Model \<Rightarrow> int \<times> keyRow \<Rightarrow> uiLine" where
  "key_line m ir = (case ir of (i, r) \<Rightarrow>
     (if krHeader r then styled uiDim (krLabel r)
      else if i = mCur m \<and> mFocus m = paneKeys then styled uiSel (''> '' @ krLabel r)
      else if i = mCur m then styled uiMark (''> '' @ krLabel r)
      else plain (''  '' @ krLabel r)))"

definition keysContent :: "int \<Rightarrow> Model \<Rightarrow> uiLine list" where
  "keysContent h m =
     (if mRows m = [] then
        (if mLoadingKeys m then [styled uiDim Loading]
         else if mFilter m \<noteq> [] then [styled uiDim (''No matches for '' @ mFilter m)]
         else [styled uiDim ''No configs yet''])
      else map (key_line m) (shown (window (mCur m) (int (length (mRows m))) h) h (mRows m)))"

definition LeftArrow :: string where "LeftArrow = [CHR 0xE2, CHR 0x86, CHR 0x90]"
definition Bullet :: string where "Bullet = [CHR 0xE2, CHR 0x80, CHR 0xA2]"

definition valueContent :: "Model \<Rightarrow> uiLine list" where
  "valueContent m =
     (if \<not> mHasDetail m then
        (if mLoadingDetail m then [styled uiDim Loading]
         else [styled uiDim (LeftArrow @ '' Select a config with j/k'')])
      else map plain (valueLines (dValue (mDetail m))))"

text \<open>Durations are in nanoseconds.\<close>

definition one_second :: int where "one_second = 1000000000"

definition relTime :: "view_env \<Rightarrow> int \<Rightarrow> string" where
  "relTime ve t =
     (if t = time_zero (veTime ve) then ''-''
      else (let d = veSince ve t in
        if d < 60 * one_second then ''just now''
        else if d < 3600 * one_second then int_str (d div (60 * one_second)) @ ''m ago''
        else if d < 86400 * one_second then int_str (d div (3600 * one_second)) @ ''h ago''
        else if d < 30 * 86400 * one_second then int_str (d div (86400 * one_second)) @ ''d ago''
        else veDay ve t))"

definition history_text :: "view_env \<Rightarrow> int \<Rightarrow> ApiHistory \<Rightarrow> string" where
  "history_text ve i e =
     (if i = 0 then Bullet else '' '') @ ''v'' @ pad_right 4 (int_str (aVersion e)) @ '' '' @
     pad_right 9 (relTime ve (aCreatedAt e)) @ '' '' @ aOp e"

definition history_line :: "view_env \<Rightarrow> Model \<Rightarrow> int \<times> ApiHistory \<Rightarrow> uiLine" where
  "history_line ve m ie = (case ie of (i, e) \<Rightarrow>
     (if i = mHcur m \<and> mFocus m = paneHistory then styled uiSel (history_text ve i e)
      else if i = mHcur m then styled uiMark (history_text ve i e)
      else plain (history_text ve i e)))"

definition historyContent :: "view_env \<Rightarrow> int \<Rightarrow> Model \<Rightarrow> uiLine list" where
  "historyContent ve h m =
     (if \<not> mHasDetail m then []
      else if mHistory m = [] then [styled uiDim ''No history'']
      else map (history_line ve m) (shown (window (mHcur m) (int (length (mHistory m))) h) h (mHistory m)))"

section \<open>The screen\<close>

definition Times :: string where "Times = [CHR 0xC3, CHR 0x97]"

definition too_small :: "Model \<Rightarrow> screen" where
  "too_small m =
     [[(Plain, ''Terminal too small: need at least '' @ int_str uiMinWidth @ Times @ int_str uiMinHeight @
          '', current size '' @ int_str (mW m) @ Times @ int_str (mH m))],
      [(Plain, ''Press q to quit.'')]]"

definition panes :: "view_env \<Rightarrow> Model \<Rightarrow> screen" where
  "panes ve m =
     (let rw = veWidth ve; ih = innerH m; (kw, hw) = columnWidths m; vw = mW m - kw - hw in
      joinCols
        [box rw (''keys'' @ filterTag m) (mFocus m = paneKeys) kw (ih + 2) (keysContent ih m) 0,
         box rw (valueTitle m) (mFocus m = paneValue) vw (ih + 2) (valueContent m) (mVoff m),
         box rw ''history'' (mFocus m = paneHistory) hw (ih + 2) (historyContent ve ih m) 0])"

definition View :: "view_env \<Rightarrow> Model \<Rightarrow> screen" where
  "View ve m =
     (if mW m < uiMinWidth \<or> mH m < uiMinHeight then too_small m
      else
        [header ve m] @
        (if mMode m = modeOverlay then
           box (veWidth ve) (mOverlayTitle m) True (mW m) (innerH m + 2) (mOverlayLines m) (mOoff m)
         else panes ve m) @
        [statusLine ve m, hintLine ve m])"

end
