(* ===== verification/Ui_Inv.thy ===== *)
theory Ui_Inv
  imports Ui_View
begin

text \<open>
  The invariant of the interface's model and its preservation by \<open>Update\<close>: the rows are those of
  the configurations and the filter, the cursor is on a key, the detail belongs to the key under
  the cursor, every scroll position is within its bounds, and a write is pending only under an
  overlay. From it follows that \<open>Update\<close> always returns.
\<close>

section \<open>Bounds\<close>

lemma clamp_simps [simp]:
  "clamp (clamp v lo hi) lo hi = clamp v lo hi" "clamp lo lo hi = lo"
  by (auto simp: clamp_def)

lemma clamp_id: "lo \<le> v \<Longrightarrow> v \<le> hi \<Longrightarrow> clamp v lo hi = v"
  by (simp add: clamp_def)

lemma clamp_bounds: "lo \<le> clamp v lo hi" "lo \<le> hi \<Longrightarrow> clamp v lo hi \<le> hi"
  by (auto simp: clamp_def)

lemma clamp_fixed: "clamp v lo hi = v \<longleftrightarrow> lo \<le> v \<and> (v \<le> hi \<or> v = lo)"
  by (auto simp: clamp_def)

definition offsets_ok :: "Model \<Rightarrow> bool" where
  "offsets_ok m \<longleftrightarrow>
     clamp (mHcur m) 0 (int (length (mHistory m)) - 1) = mHcur m \<and>
     clamp (mVoff m) 0 (int (length (valueLines (dValue (mDetail m)))) - innerH m) = mVoff m \<and>
     clamp (mOoff m) 0 (int (length (mOverlayLines m)) - innerH m) = mOoff m"

lemma offsets_ok_clampScroll [simp]: "offsets_ok (clampScroll m)"
  by (simp add: offsets_ok_def) (simp add: clampScroll_def innerH_def)

section \<open>Rows and the cursor\<close>

lemma index_func_cases:
  obtains "index_func P xs = -1" "\<forall>x\<in>set xs. \<not> P x"
  | i where "index_func P xs = int i" "i < length xs" "P (xs ! i)"
proof (cases "length (takeWhile (\<lambda>x. \<not> P x) xs) < length xs")
  case True
  then have "P (xs ! length (takeWhile (\<lambda>x. \<not> P x) xs))"
    using nth_length_takeWhile[of "\<lambda>x. \<not> P x" xs] by blast
  then show thesis using that(2) True by (simp add: index_func_def Let_def)
next
  case False
  then have "takeWhile (\<lambda>x. \<not> P x) xs = xs"
    using length_takeWhile_le[of "\<lambda>x. \<not> P x" xs] takeWhile_eq_take[of "\<lambda>x. \<not> P x" xs] by auto
  then have "\<forall>x\<in>set xs. \<not> P x" using takeWhile_eq_all_conv[of "\<lambda>x. \<not> P x" xs] by blast
  then show thesis using that(1) False by (simp add: index_func_def Let_def)
qed

definition cursor_ok :: "keyRow list \<Rightarrow> int \<Rightarrow> bool" where
  "cursor_ok rows cur \<longleftrightarrow>
     (if rows = [] then cur = 0
      else 0 \<le> cur \<and> cur < int (length rows) \<and> \<not> krHeader (rows ! nat cur))"

lemma row_loop_key_row: "row_loop flt prev cs \<noteq> [] \<Longrightarrow> \<exists>r\<in>set (row_loop flt prev cs). \<not> krHeader r"
proof (induction flt prev cs rule: row_loop.induct)
  case (1 flt prev)
  then show ?case by simp
next
  case (2 flt prev c cs)
  obtain g leaf where g: "splitKey (eKey c) = (g, leaf)" by (cases "splitKey (eKey c)")
  show ?case
  proof (cases "flt \<noteq> [] \<and> \<not> Contains (eKey c) flt")
    case True
    then show ?thesis using 2 by simp
  next
    case False
    have "row_loop flt prev (c # cs) =
        (if g \<noteq> prev \<and> g \<noteq> [] then [\<lparr>krHeader = True, krLabel = g, krKey = []\<rparr>] else []) @
        \<lparr>krHeader = False, krLabel = leaf, krKey = eKey c\<rparr> # row_loop flt g cs"
      by (simp only: row_loop.simps if_not_P[OF False] g prod.case)
    then show ?thesis by simp
  qed
qed

lemma buildRows_key_row: "buildRows cs flt \<noteq> [] \<Longrightarrow> \<exists>r\<in>set (buildRows cs flt). \<not> krHeader r"
  unfolding buildRows_def by (rule row_loop_key_row)

lemma cursor_first:
  assumes "mRows m \<noteq> [] \<Longrightarrow> \<exists>r\<in>set (mRows m). \<not> krHeader r"
  shows "cursor_ok (mRows m) (firstKeyRow m)"
  using assms
  by (cases rule: index_func_cases[of notHeader "mRows m"])
    (auto simp: cursor_ok_def firstKeyRow_def notHeader_def)

lemma cursor_last:
  assumes "mRows m \<noteq> [] \<Longrightarrow> \<exists>r\<in>set (mRows m). \<not> krHeader r"
  shows "cursor_ok (mRows m) (lastKeyRow m)"
proof (cases rule: index_func_cases[of notHeader "rev (mRows m)"])
  case 1
  then have "mRows m = []" using assms by (auto simp: notHeader_def)
  then show ?thesis using 1 by (simp add: cursor_ok_def lastKeyRow_def)
next
  case (2 i)
  then have "nat (int (length (mRows m)) - 1 - int i) = length (mRows m) - Suc i" by auto
  then show ?thesis using 2 by (auto simp: cursor_ok_def lastKeyRow_def notHeader_def rev_nth)
qed

lemma cursor_rowOf: "0 \<le> rowOf key m \<Longrightarrow> cursor_ok (mRows m) (rowOf key m)"
  by (cases rule: index_func_cases[of "\<lambda>r. \<not> krHeader r \<and> krKey r = key" "mRows m"])
    (auto simp: rowOf_def cursor_ok_def split: if_splits)

text \<open>The key loop returns: it runs at most as far as there are rows.\<close>

lemma scan_rows_up:
  "\<exists>r. scan_rows rows i 1 = Some r \<and>
     (\<forall>j. r = Some j \<longrightarrow> 0 \<le> j \<and> j < int (length rows) \<and> \<not> krHeader (rows ! nat j))"
proof (induction "nat (int (length rows) - i)" arbitrary: i rule: less_induct)
  case less
  show ?case
  proof (cases "0 \<le> i \<and> i < int (length rows) \<and> krHeader (rows ! nat i)")
    case True
    then have "scan_rows rows i 1 = scan_rows rows (i + 1) 1" by (subst scan_rows.simps) simp
    moreover have "nat (int (length rows) - (i + 1)) < nat (int (length rows) - i)" using True by simp
    ultimately show ?thesis using less[of "i + 1"] by simp
  next
    case False
    then show ?thesis by (subst scan_rows.simps) auto
  qed
qed

lemma scan_rows_down:
  "\<exists>r. scan_rows rows i (-1) = Some r \<and>
     (\<forall>j. r = Some j \<longrightarrow> 0 \<le> j \<and> j < int (length rows) \<and> \<not> krHeader (rows ! nat j))"
proof (induction "nat (i + 1)" arbitrary: i rule: less_induct)
  case less
  show ?case
  proof (cases "0 \<le> i \<and> i < int (length rows) \<and> krHeader (rows ! nat i)")
    case True
    then have "scan_rows rows i (-1) = scan_rows rows (i + -1) (-1)" by (subst scan_rows.simps) simp
    moreover have "nat (i + -1 + 1) < nat (i + 1)" using True by simp
    ultimately show ?thesis using less[of "i + -1"] by simp
  next
    case False
    then show ?thesis by (subst scan_rows.simps) auto
  qed
qed

lemma scan_rows_returns:
  assumes "d = 1 \<or> d = -1"
  obtains "scan_rows rows i d = Some None"
  | j where "scan_rows rows i d = Some (Some j)" "cursor_ok rows j"
proof -
  from assms obtain r where r: "scan_rows rows i d = Some r"
      and ok: "\<forall>j. r = Some j \<longrightarrow> 0 \<le> j \<and> j < int (length rows) \<and> \<not> krHeader (rows ! nat j)"
    using scan_rows_up[of rows i] scan_rows_down[of rows i] by blast
  show thesis
  proof (cases r)
    case None
    then show thesis using that(1) r by simp
  next
    case (Some j)
    then have "cursor_ok rows j" using ok by (auto simp: cursor_ok_def)
    then show thesis using that(2) r Some by blast
  qed
qed

section \<open>The invariant\<close>

definition overlay_ok :: "Model \<Rightarrow> bool" where
  "overlay_ok m \<longleftrightarrow>
     (mPend m \<noteq> None \<longrightarrow> mMode m = modeOverlay) \<and>
     (mMode m \<noteq> modeOverlay \<longrightarrow> mOverlayTitle m = [] \<and> mOverlayLines m = [])"

definition base :: "Model \<Rightarrow> bool" where
  "base m \<longleftrightarrow>
     mRows m = buildRows (mConfigs m) (mFilter m) \<and> cursor_ok (mRows m) (mCur m) \<and>
     mDetailKey m = selectedKey m \<and> overlay_ok m"

definition core :: "Model \<Rightarrow> bool" where
  "core m \<longleftrightarrow> base m \<and> offsets_ok m"

text \<open>
  How a step may move the detail on: a new sequence number, or the same and the same key. A task it
  issues asks for the detail of the key it leaves selected.
\<close>

definition detail_later :: "Model \<Rightarrow> Model \<Rightarrow> bool" where
  "detail_later m m' \<longleftrightarrow>
     mDetailSeq m \<le> mDetailSeq m' \<and> (mDetailSeq m' = mDetailSeq m \<longrightarrow> mDetailKey m' = mDetailKey m)"

fun fresh_task :: "Model \<Rightarrow> task \<Rightarrow> bool" where
  "fresh_task m (FetchDetail n k) \<longleftrightarrow> n = mDetailSeq m \<and> k = mDetailKey m"
| "fresh_task m (FetchHistory n k d) \<longleftrightarrow> False"
| "fresh_task m (FetchKeys n ps) \<longleftrightarrow> True"
| "fresh_task m (DoWrite author p) \<longleftrightarrow> True"
| "fresh_task m (RunEditor ed path key format) \<longleftrightarrow> True"
| "fresh_task m Quit \<longleftrightarrow> True"

definition good_upd :: "Model \<Rightarrow> upd \<Rightarrow> bool" where
  "good_upd m u \<longleftrightarrow> core (fst u) \<and> detail_later m (fst u) \<and> (\<forall>t\<in>set (snd u). fresh_task (fst u) t)"

lemma detail_later_refl [simp]: "detail_later m m"
  by (simp add: detail_later_def)

lemma clamp_cursor: "cursor_ok rows cur \<Longrightarrow> clamp cur 0 (int (length rows) - 1) = cur"
  by (auto simp: cursor_ok_def clamp_def split: if_splits)

lemma base_clampScroll: "base m \<Longrightarrow> core (clampScroll m)"
  unfolding core_def base_def
  by (auto simp: clampScroll_def clamp_cursor selectedKey_def overlay_ok_def)
    (simp_all add: offsets_ok_def innerH_def)

lemma good_clampScroll:
  "base m' \<Longrightarrow> detail_later m m' \<Longrightarrow> good_upd m (clampScroll m', [])"
  using base_clampScroll[of m'] by (simp add: good_upd_def detail_later_def clampScroll_def)

lemma good_stay: "core m' \<Longrightarrow> detail_later m m' \<Longrightarrow> good_upd m (m', [])"
  by (simp add: good_upd_def)

lemma core_fresh_init [simp]: "core (NewModel zero author pfxs)"
  by (simp add: core_def base_def NewModel_def buildRows_def cursor_ok_def selectedKey_def overlay_ok_def
      offsets_ok_def no_detail_def valueLines_def innerH_def clamp_def)

section \<open>Preservation\<close>

lemma good_upd_same:
  "mDetailSeq m = mDetailSeq m0 \<Longrightarrow> mDetailKey m = mDetailKey m0 \<Longrightarrow> good_upd m u \<Longrightarrow> good_upd m0 u"
  by (simp add: good_upd_def detail_later_def)

lemma syncDetail_good:
  assumes "mRows m = buildRows (mConfigs m) (mFilter m)" and "cursor_ok (mRows m) (mCur m)"
    and "overlay_ok m" and "offsets_ok m" and "prev = mDetailKey m"
  shows "good_upd m (syncDetail env prev m)"
proof -
  consider "selectedKey m = prev" "mHasDetail m \<or> selectedKey m = []"
    | "\<not> (selectedKey m = prev \<and> (mHasDetail m \<or> selectedKey m = []))" "selectedKey m = []"
    | "\<not> (selectedKey m = prev \<and> (mHasDetail m \<or> selectedKey m = []))" "selectedKey m \<noteq> []" by blast
  then show ?thesis
  proof cases
    case 1
    then show ?thesis
      using assms by (simp add: syncDetail_def good_upd_def core_def base_def)
  next
    case 2
    then show ?thesis
      using assms unfolding syncDetail_def Let_def if_not_P[OF 2(1)]
      by (auto simp: good_upd_def core_def base_def detail_later_def offsets_ok_def overlay_ok_def
          no_detail_def valueLines_def innerH_def clamp_def selectedKey_def)
  next
    case 3
    then show ?thesis
      using assms unfolding syncDetail_def Let_def if_not_P[OF 3(1)]
      by (auto simp: good_upd_def core_def base_def detail_later_def offsets_ok_def overlay_ok_def loadDetail_def
          no_detail_def valueLines_def innerH_def clamp_def selectedKey_def)
  qed
qed

lemma rebuild_good:
  assumes "mDetailKey m = selectedKey m" and "overlay_ok m" and "offsets_ok m"
  shows "good_upd m (rebuild env m)"
proof -
  define m1 where "m1 = m\<lparr>mRows := buildRows (mConfigs m) (mFilter m)\<rparr>"
  define cur where "cur = (if 0 \<le> rowOf (selectedKey m) m1 then rowOf (selectedKey m) m1 else firstKeyRow m1)"
  have eq: "rebuild env m = syncDetail env (selectedKey m) (m1\<lparr>mCur := cur\<rparr>)"
    by (simp only: rebuild_def Let_def m1_def cur_def)
  have "cursor_ok (mRows m1) cur"
    unfolding cur_def using cursor_rowOf[of "selectedKey m" m1] cursor_first[of m1]
    by (simp add: m1_def buildRows_key_row)
  then have "good_upd (m1\<lparr>mCur := cur\<rparr>) (rebuild env m)"
    unfolding eq using assms
    by (intro syncDetail_good) (simp_all add: m1_def overlay_ok_def offsets_ok_def innerH_def)
  then show ?thesis by (rule good_upd_same[rotated 2]) (simp_all add: m1_def)
qed

lemma coreD:
  assumes "core m"
  shows "base m" "offsets_ok m" "overlay_ok m" "mDetailKey m = selectedKey m"
    "cursor_ok (mRows m) (mCur m)" "mRows m = buildRows (mConfigs m) (mFilter m)"
  using assms unfolding core_def base_def by blast+

lemma rows_key_row: "core m \<Longrightarrow> mRows m \<noteq> [] \<Longrightarrow> \<exists>r\<in>set (mRows m). \<not> krHeader r"
  using buildRows_key_row coreD(6) by metis

text \<open>Moving the cursor to another key row.\<close>

lemma select_row_good:
  assumes "core m" and "cursor_ok (mRows m) i"
  shows "good_upd m (syncDetail env (selectedKey m) (m\<lparr>mCur := i\<rparr>))"
proof -
  have "good_upd (m\<lparr>mCur := i\<rparr>) (syncDetail env (selectedKey m) (m\<lparr>mCur := i\<rparr>))"
    using coreD[OF assms(1)] assms(2)
    by (intro syncDetail_good) (simp_all add: overlay_ok_def offsets_ok_def innerH_def)
  then show ?thesis by (rule good_upd_same[rotated 2]) simp_all
qed

text \<open>A change of the fields that the invariant does not look at.\<close>

lemma core_cong:
  assumes "core m" and "mRows m' = mRows m" "mConfigs m' = mConfigs m" "mFilter m' = mFilter m" "mCur m' = mCur m"
    "mDetailKey m' = mDetailKey m" "mPend m' = mPend m" "mMode m' = mMode m"
    "mOverlayTitle m' = mOverlayTitle m" "mOverlayLines m' = mOverlayLines m" "mHcur m' = mHcur m"
    "mHistory m' = mHistory m" "mVoff m' = mVoff m" "mDetail m' = mDetail m" "mH m' = mH m" "mOoff m' = mOoff m"
  shows "core m'"
proof -
  have "core m' = core m"
    unfolding core_def base_def offsets_ok_def overlay_ok_def selectedKey_def innerH_def
    by (simp only: assms(2-))
  then show ?thesis using assms(1) by simp
qed

lemma good_same_fields:
  assumes "core m" and "mRows m' = mRows m" "mConfigs m' = mConfigs m" "mFilter m' = mFilter m" "mCur m' = mCur m"
    "mDetailKey m' = mDetailKey m" "mPend m' = mPend m" "mMode m' = mMode m"
    "mOverlayTitle m' = mOverlayTitle m" "mOverlayLines m' = mOverlayLines m" "mHcur m' = mHcur m"
    "mHistory m' = mHistory m" "mVoff m' = mVoff m" "mDetail m' = mDetail m" "mH m' = mH m" "mOoff m' = mOoff m"
    "mDetailSeq m' = mDetailSeq m"
  shows "good_upd m (m', [])"
  using core_cong[OF assms(1-16)] assms by (intro good_stay) (simp_all add: detail_later_def)

lemma loadKeys_good: "core m \<Longrightarrow> good_upd m (loadKeys m)"
  by (simp add: loadKeys_def Let_def good_upd_def core_cong[of m] detail_later_def)

lemma loadBoth_good:
  assumes "core m"
  shows "good_upd m (loadBoth (selectedKey m) m)"
proof -
  have "core (fst (loadBoth (selectedKey m) m))"
    by (rule core_cong[OF assms])
      (simp_all add: loadBoth_def loadKeys_def loadDetail_def Let_def coreD(4)[OF assms])
  then show ?thesis
    by (simp add: loadBoth_def loadKeys_def loadDetail_def Let_def good_upd_def detail_later_def)
qed

lemma base_cong:
  assumes "base m" and "mRows m' = mRows m" "mConfigs m' = mConfigs m" "mFilter m' = mFilter m" "mCur m' = mCur m"
    "mDetailKey m' = mDetailKey m" "mPend m' = mPend m" "mMode m' = mMode m"
    "mOverlayTitle m' = mOverlayTitle m" "mOverlayLines m' = mOverlayLines m"
  shows "base m'"
proof -
  have "base m' = base m"
    unfolding base_def overlay_ok_def selectedKey_def by (simp only: assms(2-))
  then show ?thesis using assms(1) by simp
qed

text \<open>A change of a scroll position or of the screen's size, clamped.\<close>

lemma good_scroll:
  assumes "core m" and "mRows m' = mRows m" "mConfigs m' = mConfigs m" "mFilter m' = mFilter m" "mCur m' = mCur m"
    "mDetailKey m' = mDetailKey m" "mPend m' = mPend m" "mMode m' = mMode m"
    "mOverlayTitle m' = mOverlayTitle m" "mOverlayLines m' = mOverlayLines m" "mDetailSeq m' = mDetailSeq m"
  shows "good_upd m (clampScroll m', [])"
  by (rule good_clampScroll[OF base_cong[OF coreD(1)[OF assms(1)] assms(2-10)]])
    (simp add: assms(6,11) detail_later_def)

lemma move_good:
  assumes "core m" and "d = 1 \<or> d = -1"
  shows "\<exists>u. move env d m = Some u \<and> good_upd m u"
proof (cases "mFocus m")
  case paneKeys
  show ?thesis
    by (rule scan_rows_returns[OF assms(2), of "mRows m" "mCur m + d"])
      (auto simp: move_def paneKeys moveKeys_def Let_def good_stay[OF assms(1)] select_row_good[OF assms(1)])
next
  case paneValue
  then show ?thesis
    by (simp add: move_def good_scroll[OF assms(1)])
next
  case paneHistory
  then show ?thesis
    by (simp add: move_def good_scroll[OF assms(1)])
qed

lemma jump_good:
  assumes "core m"
  shows "good_upd m (jump env d m)"
proof (cases "mFocus m")
  case paneKeys
  then show ?thesis
    using cursor_first[of m] cursor_last[of m] rows_key_row[OF assms]
    by (simp add: jump_def select_row_good[OF assms])
next
  case paneValue
  then show ?thesis
    by (simp add: jump_def good_scroll[OF assms])
next
  case paneHistory
  then show ?thesis
    by (simp add: jump_def good_scroll[OF assms])
qed

text \<open>Opening and closing an overlay.\<close>

lemma openOverlay_good:
  assumes "core m"
  shows "good_upd m (openOverlay title lines (m\<lparr>mPend := pend\<rparr>), [])"
proof (rule good_stay)
  let ?m = "openOverlay title lines (m\<lparr>mPend := pend\<rparr>)"
  have "selectedKey ?m = selectedKey m" by (simp add: openOverlay_def selectedKey_def)
  then have "base ?m"
    using coreD[OF assms] by (simp add: base_def overlay_ok_def openOverlay_def)
  moreover have "offsets_ok ?m"
    using coreD(2)[OF assms] by (simp add: offsets_ok_def openOverlay_def innerH_def)
  ultimately show "core ?m" by (simp add: core_def)
qed (simp add: openOverlay_def detail_later_def)

lemma closeOverlay_core:
  assumes "core m"
  shows "core (closeOverlay m)"
proof -
  have "selectedKey (closeOverlay m) = selectedKey m" by (simp add: closeOverlay_def selectedKey_def)
  then have "base (closeOverlay m)"
    using coreD[OF assms] by (simp add: base_def overlay_ok_def closeOverlay_def)
  moreover have "offsets_ok (closeOverlay m)"
    using coreD(2)[OF assms] by (simp add: offsets_ok_def closeOverlay_def innerH_def clamp_def)
  ultimately show ?thesis by (simp add: core_def)
qed

lemma no_pend_outside_overlay: "core m \<Longrightarrow> mMode m \<noteq> modeOverlay \<Longrightarrow> mPend m = None"
  using coreD(3)[of m] by (cases "mPend m") (auto simp: overlay_ok_def)

lemma history_cursor_in:
  assumes "core m" and "mHistory m \<noteq> []"
  obtains h where "history_at_cursor m = Some h" and "h \<in> set (mHistory m)"
  using coreD(2)[OF assms(1)] assms(2)
  by (auto simp: offsets_ok_def clamp_fixed history_at_cursor_def intro: that split: if_splits)

lemma showDiff_good:
  assumes "core m" and "mPend m = None"
  shows "\<exists>u. showDiff m = Some u \<and> good_upd m u"
proof (cases "mHasDetail m \<and> mHistory m \<noteq> []")
  case True
  then obtain h where h: "history_at_cursor m = Some h" using history_cursor_in[OF assms(1)] by blast
  have "m\<lparr>mPend := None\<rparr> = m" using assms(2) by simp
  then have ov: "good_upd m (openOverlay title lines m, [])" for title lines
    using openOverlay_good[OF assms(1), of title lines None] by simp
  show ?thesis
    using True h by (simp add: showDiff_def Let_def ov good_same_fields[OF assms(1)])
next
  case False
  then show ?thesis by (auto simp: showDiff_def good_same_fields[OF assms(1)])
qed

lemma askRollback_good:
  assumes "core m"
  shows "\<exists>u. askRollback m = Some u \<and> good_upd m u"
proof (cases "mHasDetail m \<and> mHistory m \<noteq> []")
  case True
  then obtain h where h: "history_at_cursor m = Some h" using history_cursor_in[OF assms(1)] by blast
  let ?key = "dKey (mDetail m)"
  define d where "d = UnifiedDiff (dValue (mDetail m)) (aValue h) (current_label ?key)
    (at_version ?key (aVersion h)) DiffContext"
  show ?thesis
  proof (cases "d = [] \<and> dFormat (mDetail m) = aFormat h")
    case same: True
    then show ?thesis
      using True h by (auto simp: askRollback_def Let_def d_def good_same_fields[OF assms(1)])
  next
    case differ: False
    then show ?thesis
      using True h openOverlay_good[OF assms]
      by (auto simp: askRollback_def Let_def d_def[symmetric])
  qed
next
  case False
  then show ?thesis by (auto simp: askRollback_def good_same_fields[OF assms(1)])
qed

lemma afterEdit_good:
  assumes "core m"
  shows "good_upd m (afterEdit env key edited m)"
proof (cases edited)
  case (Inl err)
  then show ?thesis by (simp add: afterEdit_def good_same_fields[OF assms])
next
  case (Inr fv)
  obtain format val where fv: "fv = (format, val)" by (cases fv)
  define d where "d = UnifiedDiff (dValue (mDetail m)) val (current_label key) (key @ ''@edited'') DiffContext"
  show ?thesis
  proof (cases "\<not> mHasDetail m \<or> key \<noteq> dKey (mDetail m)")
    case True
    then show ?thesis by (simp add: afterEdit_def Inr fv good_same_fields[OF assms])
  next
    case False
    show ?thesis
      using openOverlay_good[OF assms, of "''Save '' @ key" "diffLinesStyled d" "Some (pend_set key val format)"]
      unfolding afterEdit_def Inr fv sum.case prod.case if_not_P[OF False] Let_def d_def[symmetric]
      by (simp add: good_same_fields[OF assms])
  qed
qed

lemma startEdit_good:
  assumes "core m"
  shows "good_upd m (fst (startEdit env m fs))"
  by (auto simp: startEdit_def Let_def good_same_fields[OF assms] good_upd_def assms
      detail_later_def split: option.split prod.split sum.split intro!: core_cong[OF assms])

text \<open>The result of a handler: it returns, with a good update.\<close>

definition good_res :: "Model \<Rightarrow> (upd \<times> tempfiles) option \<Rightarrow> bool" where
  "good_res m r \<longleftrightarrow> (\<exists>u fs'. r = Some (u, fs') \<and> good_upd m u)"

lemma good_res_simps [simp]:
  "good_res m (Some (u, fs)) \<longleftrightarrow> good_upd m u"
  "good_res m (Some v) \<longleftrightarrow> good_upd m (fst v)"
  "good_res m (no_files fs (Some u)) \<longleftrightarrow> good_upd m u"
  by (auto simp: good_res_def no_files_def) (metis prod.collapse)

lemma good_res_no_files: "\<exists>u. r = Some u \<and> good_upd m u \<Longrightarrow> good_res m (no_files fs r)"
  by auto

lemma good_res_if: "(c \<Longrightarrow> good_res m a) \<Longrightarrow> (\<not> c \<Longrightarrow> good_res m b) \<Longrightarrow> good_res m (if c then a else b)"
  by simp

lemma good_task: "core m \<Longrightarrow> fresh_task m t \<Longrightarrow> good_upd m (m, [t])"
  by (simp add: good_upd_def)

lemma mode_good:
  assumes "core m" and "mMode m \<noteq> modeOverlay" and "mode \<noteq> modeOverlay"
  shows "good_upd m (m\<lparr>mMode := mode\<rparr>, [])"
proof (rule good_stay)
  have "selectedKey (m\<lparr>mMode := mode\<rparr>) = selectedKey m" by (simp add: selectedKey_def)
  moreover have "mPend m = None" by (rule no_pend_outside_overlay[OF assms(1,2)])
  ultimately show "core (m\<lparr>mMode := mode\<rparr>)"
    using coreD[OF assms(1)] assms(2) by (simp add: core_def base_def overlay_ok_def offsets_ok_def innerH_def)
qed (simp add: detail_later_def)

lemma refilter_good:
  assumes "core m"
  shows "good_upd m (rebuild env (m\<lparr>mFilter := flt\<rparr>))"
proof -
  have "good_upd (m\<lparr>mFilter := flt\<rparr>) (rebuild env (m\<lparr>mFilter := flt\<rparr>))"
    using coreD[OF assms] by (intro rebuild_good) (simp_all add: selectedKey_def overlay_ok_def offsets_ok_def innerH_def)
  then show ?thesis by (rule good_upd_same[rotated 2]) simp_all
qed

lemma refresh_good:
  assumes "core m"
  shows "good_upd m (let m1 = m\<lparr>mStatus := t\<rparr>; sel = selectedKey m1 in
    if sel \<noteq> [] then loadBoth sel m1 else loadKeys m1)"
proof -
  let ?m = "m\<lparr>mStatus := t\<rparr>"
  have c: "core ?m" by (rule core_cong[OF assms]) simp_all
  have "good_upd ?m (if selectedKey ?m \<noteq> [] then loadBoth (selectedKey ?m) ?m else loadKeys ?m)"
    using loadBoth_good[OF c] loadKeys_good[OF c] by simp
  then show ?thesis unfolding Let_def by (rule good_upd_same[rotated 2]) simp_all
qed

lemma browseKey_good:
  assumes "core m" and "mMode m = modeBrowse"
  shows "good_res m (browseKey env k m fs)"
proof -
  have pend: "mPend m = None" using no_pend_outside_overlay[OF assms(1)] assms(2) by simp
  have m: "m\<lparr>mPend := None\<rparr> = m" using pend by simp
  have ovl: "good_upd m (openOverlay title lines m, [])" for title lines
    using openOverlay_good[OF assms(1), of title lines None] by (simp add: m)
  have moves: "good_res m (no_files fs (move env 1 m))" "good_res m (no_files fs (move env (-1) m))"
    by (rule good_res_no_files, rule move_good[OF assms(1)], simp)+
  have diff: "good_res m (no_files fs (showDiff m))"
    by (rule good_res_no_files, rule showDiff_good[OF assms(1) pend])
  have ask: "good_res m (no_files fs (askRollback m))"
    by (rule good_res_no_files, rule askRollback_good[OF assms(1)])
  note facts = ovl moves diff ask good_task[OF assms(1)] mode_good[OF assms(1)] refilter_good[OF assms(1)]
    refresh_good[OF assms(1)] jump_good[OF assms(1)] startEdit_good[OF assms(1)] good_same_fields[OF assms(1)]
  show ?thesis
    unfolding browseKey_def Let_def[of "kString k"]
    by (intro good_res_if) (simp_all add: facts assms(2))
qed

lemma filterKey_good:
  assumes "core m" and "mMode m = modeFilter"
  shows "good_upd m (filterKey env k m)"
proof -
  have c: "core (m\<lparr>mMode := modeBrowse\<rparr>)"
    using mode_good[OF assms(1), of modeBrowse] assms(2) by (simp add: good_upd_def)
  have "good_upd m (rebuild env (m\<lparr>mMode := modeBrowse, mFilter := []\<rparr>))"
    using refilter_good[OF c, of env "[]"] by (rule good_upd_same[rotated 2]) simp_all
  then show ?thesis
    using mode_good[OF assms(1), of modeBrowse] assms(2) good_stay[OF assms(1)]
    by (simp add: filterKey_def Let_def refilter_good[OF assms(1)] split: key_type.split)
qed

lemma closed_good:
  assumes "core m'" and "mDetailSeq m' = mDetailSeq m" "mDetailKey m' = mDetailKey m"
  shows "good_upd m (closeOverlay m', [])" "good_upd m (doWrite p ((closeOverlay m')\<lparr>mStatus := t\<rparr>))"
proof -
  have c: "core (closeOverlay m')" "core ((closeOverlay m')\<lparr>mStatus := t\<rparr>)"
    using closeOverlay_core[OF assms(1)] core_cong[OF closeOverlay_core[OF assms(1)]] by simp_all
  have "detail_later m (closeOverlay m')" "detail_later m ((closeOverlay m')\<lparr>mStatus := t\<rparr>)"
    using assms(2,3) by (simp_all add: detail_later_def closeOverlay_def)
  then show "good_upd m (closeOverlay m', [])" "good_upd m (doWrite p ((closeOverlay m')\<lparr>mStatus := t\<rparr>))"
    using c by (simp_all add: good_upd_def doWrite_def)
qed

lemma good_upd_if: "(c \<Longrightarrow> good_upd m a) \<Longrightarrow> (\<not> c \<Longrightarrow> good_upd m b) \<Longrightarrow> good_upd m (if c then a else b)"
  by simp

lemma overlayKey_good:
  assumes "core m"
  shows "good_upd m (overlayKey k m)"
proof -
  have c: "core (if mPend m \<noteq> None then m\<lparr>mStatus := t\<rparr> else m)" for t
    using assms core_cong[OF assms, of "m\<lparr>mStatus := t\<rparr>"] by simp
  show ?thesis
    unfolding overlayKey_def Let_def
  proof (intro good_upd_if)
    show "good_upd m (case mPend m of None \<Rightarrow> (m, [])
      | Some p \<Rightarrow> doWrite p ((closeOverlay m)\<lparr>mStatus := ''Saving'' @ Ellipsis\<rparr>))"
      using closed_good(2)[OF assms] good_stay[OF assms] by (simp split: option.split)
    show "good_upd m (closeOverlay (if mPend m \<noteq> None then m\<lparr>mStatus := ''Canceled; no changes saved''\<rparr> else m), [])"
      by (rule closed_good(1)[OF c]) simp_all
  qed (rule good_scroll[OF assms]; simp)
qed

section \<open>Every message\<close>

lemma on_keys_good:
  assumes "core m"
  shows "good_upd m (on_keys env n r m)"
proof -
  have err: "good_upd m (m\<lparr>mLoadingKeys := False, mErrMsg := t\<rparr>, [])" for t
    by (rule good_same_fields[OF assms]) simp_all
  have reb: "good_upd m (rebuild env (m\<lparr>mLoadingKeys := False, mErrMsg := [], mConfigs := cs\<rparr>))" for cs
  proof -
    let ?m = "m\<lparr>mLoadingKeys := False, mErrMsg := [], mConfigs := cs\<rparr>"
    have "good_upd ?m (rebuild env ?m)"
      using coreD[OF assms] by (intro rebuild_good) (simp_all add: selectedKey_def overlay_ok_def offsets_ok_def innerH_def)
    then show ?thesis by (rule good_upd_same[rotated 2]) simp_all
  qed
  have status: "good_upd m (m1\<lparr>mStatus := t\<rparr>, ts)" if "good_upd m (m1, ts)" for m1 ts t
  proof -
    have "fresh_task (m1\<lparr>mStatus := t\<rparr>) x = fresh_task m1 x" for x by (cases x) simp_all
    then show ?thesis
      using that core_cong[of m1 "m1\<lparr>mStatus := t\<rparr>"] by (simp add: good_upd_def detail_later_def)
  qed
  show ?thesis
  proof (cases r)
    case (Inl e)
    then show ?thesis by (simp add: on_keys_def good_stay[OF assms] err)
  next
    case (Inr cs)
    obtain m1 ts where "rebuild env (m\<lparr>mLoadingKeys := False, mErrMsg := [], mConfigs := cs\<rparr>) = (m1, ts)"
      by (cases "rebuild env (m\<lparr>mLoadingKeys := False, mErrMsg := [], mConfigs := cs\<rparr>)")
    then show ?thesis
      using reb[of cs] status[of m1 ts] by (simp add: on_keys_def Inr good_stay[OF assms])
  qed
qed

lemma on_detail_good:
  assumes "core m"
  shows "good_upd m (on_detail env n key r m)"
proof -
  have "good_upd m (m\<lparr>mLoadingDetail := False, mErrMsg := [], mDetail := d, mHistory := h, mHasDetail := True,
      mHcur := 0, mVoff := 0, mStatus := t\<rparr>, [])" for d h t
    using coreD[OF assms]
    by (intro good_stay)
      (simp_all add: core_def base_def overlay_ok_def selectedKey_def offsets_ok_def innerH_def detail_later_def)
  moreover have "good_upd m (m\<lparr>mLoadingDetail := False, mErrMsg := [], mDetail := d, mHistory := h, mHasDetail := True,
      mHcur := 0, mVoff := 0\<rparr>, [])" for d h
    using coreD[OF assms]
    by (intro good_stay)
      (simp_all add: core_def base_def overlay_ok_def selectedKey_def offsets_ok_def innerH_def detail_later_def)
  ultimately show ?thesis
    by (auto simp: on_detail_def Let_def good_stay[OF assms] good_same_fields[OF assms] split: sum.split option.split)
qed

lemma reload_good:
  "core m \<Longrightarrow> good_upd m (if key = selectedKey m then loadBoth key m else loadKeys m)"
  using loadBoth_good[of m] loadKeys_good[of m] by simp

lemma on_write_good:
  assumes "core m"
  shows "good_upd m (on_write env action key r m)"
proof (cases r)
  case (Inl e)
  then show ?thesis by (simp add: on_write_def good_same_fields[OF assms])
next
  case (Inr res)
  let ?l = "write_line action key res"
  let ?m = "m\<lparr>mErrMsg := [], mStatus := ?l, mWrites := mWrites m @ [?l]\<rparr>"
  have c: "core ?m" by (rule core_cong[OF assms]) simp_all
  have "good_upd ?m (if key = selectedKey ?m then loadBoth key ?m else loadKeys ?m)"
    by (rule reload_good[OF c])
  then have "good_upd m (if key = selectedKey ?m then loadBoth key ?m else loadKeys ?m)"
    by (rule good_upd_same[rotated 2]) simp_all
  then show ?thesis by (simp add: on_write_def Inr Let_def)
qed

lemma Update_good:
  assumes "core m"
  shows "good_res m (Update env x m fs)"
proof (cases x)
  case (KeyMsg k)
  then show ?thesis
    using browseKey_good[OF assms] filterKey_good[OF assms] overlayKey_good[OF assms] good_task[OF assms, of Quit]
    by (simp add: Update_def onKey_def split: uiMode.split)
qed (simp_all add: Update_def on_keys_good[OF assms] on_detail_good[OF assms] on_write_good[OF assms]
    afterEdit_good[OF assms] good_stay[OF assms] good_scroll[OF assms])

end
