(* ===== verification/Lsctl_Backend_Props.thy ===== *)
theory Lsctl_Backend_Props
  imports Lsctl_Backend Store_Props
begin

text \<open>
  The two backends of \<open>lsctl\<close> do the same: whatever a command asks for, the HTTP backend on a
  server gives the outcome that the database backend gives on the server's database, and
  leaves the same tables. The cases in which they differ are hypotheses here.
\<close>

section \<open>Routing of the backend's paths\<close>

lemma PathEscape_id_if:
  assumes "\<forall>c\<in>set t. c \<noteq> CHR ''%''" and "PathEscape key = t"
  shows "key = t"
proof -
  have "PathUnescape t = Some t"
    using assms(1) unfolding PathUnescape_def by (induction t) (auto simp: unescape_plain)
  then show ?thesis using PathUnescape_PathEscape[of key] assms(2) by simp
qed

definition plain_key :: "string \<Rightarrow> bool" where
  "plain_key key \<longleftrightarrow> key \<noteq> [] \<and> key \<noteq> ''.'' \<and> key \<noteq> ''..''"

lemma plain_key_segment:
  assumes "plain_key key"
  shows "PathEscape key \<noteq> []" "PathEscape key \<noteq> ''.''" "PathEscape key \<noteq> ''..''"
  using PathEscape_id_if[of "[]" key] PathEscape_id_if[of "''.''" key] PathEscape_id_if[of "''..''" key] assms
  by (auto simp: plain_key_def)

lemma dispatch_key:
  assumes "plain_key key"
  shows "dispatch meth (''v1/configs/'' @ PathEscape key) = match_route meth [''v1'', ''configs'', key]"
    "t \<in> {''history'', ''rollback''} \<Longrightarrow>
     dispatch meth (''v1/configs/'' @ PathEscape key @ CHR ''/'' # t) = match_route meth [''v1'', ''configs'', key, t]"
proof -
  have un: "unescape_segment (PathEscape key) = key" by (simp add: unescape_segment_def)
  have lit: "unescape_segment ''v1'' = ''v1''" "unescape_segment ''configs'' = ''configs''"
    "unescape_segment ''history'' = ''history''" "unescape_segment ''rollback'' = ''rollback''"
    by (simp_all add: unescape_segment_def PathUnescape_def unescape_plain)
  note ns = PathEscape_no_slash(1)[of key]
  note seg = plain_key_segment[OF assms]
  have "Split CHR ''/'' (''v1/configs/'' @ PathEscape key) = [''v1'', ''configs'', PathEscape key]"
    using ns by (simp add: Split_notin)
  then show "dispatch meth (''v1/configs/'' @ PathEscape key) = match_route meth [''v1'', ''configs'', key]"
    using seg by (simp add: dispatch_def clean_path_def un lit)
  assume t: "t \<in> {''history'', ''rollback''}"
  then have "CHR ''/'' \<notin> set t" by auto
  then have "Split CHR ''/'' (''v1/configs/'' @ PathEscape key @ CHR ''/'' # t) =
      [''v1'', ''configs'', PathEscape key, t]"
    using ns by (simp add: Split_notin Split_append)
  then show "dispatch meth (''v1/configs/'' @ PathEscape key @ CHR ''/'' # t) =
      match_route meth [''v1'', ''configs'', key, t]"
    using seg t lit by (auto simp: dispatch_def clean_path_def un)
qed

lemma path_no_query: "CHR ''?'' \<notin> set (''/v1/configs/'' @ PathEscape key)"
  using PathEscape_no_slash(2)[of key] by simp

lemma Cut_path:
  "CHR ''?'' \<notin> set t \<Longrightarrow>
   Cut CHR ''?'' (key_path key @ t) = (key_path key @ t, [], False)"
  "CHR ''?'' \<notin> set t \<Longrightarrow>
   Cut CHR ''?'' (key_path key @ t @ CHR ''?'' # q) = (key_path key @ t, q, True)"
  using path_no_query[of key] Cut_append[of "CHR ''?''" "key_path key @ t" q]
  by (auto simp: key_path_def)

section \<open>Answers\<close>

lemma http_do_ok:
  assumes "body_json tm b = Some j" and "valid_tree j" and "emittable 0 j" and "decode j = Some x"
  shows "http_do decode (reply_response tm ne (Reply 200 b)) = Inr x"
proof -
  obtain t where "Marshal j = Some t" "Unmarshal t = Some j"
    using Unmarshal_valid assms(2,3) by blast
  then show ?thesis using assms(1,4) by (simp add: http_do_def reply_response_def)
qed

lemma http_do_status:
  "code < 200 \<or> 299 < code \<Longrightarrow>
   outcome (http_do decode (reply_response tm ne (Reply code b))) = (if code = 404 then Missing else Failed)"
  by (auto simp: http_do_def reply_response_def)

text \<open>The status of a failure and \<open>mapErr\<close> agree on what is missing.\<close>

lemma outcome_fail:
  "outcome (http_do decode (reply_response tm ne (fail err))) = outcome (Inl (mapErr err) :: backend_error + 'a)"
proof (cases err)
  case (ErrDriver x)
  then show ?thesis
    by (cases x) (simp_all add: fail_def mapErr_def http_do_status, simp add: reply_response_def http_do_def body_json_def)
qed (simp_all add: fail_def mapErr_def http_do_status)

section \<open>What the stored texts must be for JSON\<close>

definition utf8_db :: "db \<Rightarrow> bool" where
  "utf8_db d \<longleftrightarrow>
     (\<forall>c\<in>set (config (tabs d)). valid_utf8 (cValue c) \<and> valid_utf8 (cUpdatedBy c)) \<and>
     (\<forall>h\<in>set (history (tabs d)). valid_utf8 (hValue h) \<and> valid_utf8 (hComment h) \<and> valid_utf8 (hCreatedBy h))"

definition serving :: "(string \<Rightarrow> string option) \<Rightarrow> db \<Rightarrow> bool" where
  "serving y d \<longleftrightarrow> wf_db y d \<and> utf8_db d \<and> (\<forall>r. meta (tabs d) = Some r \<longrightarrow> 0 \<le> r)"

lemma key_utf8: "ValidateKey key = None \<Longrightarrow> valid_utf8 key"
  by (rule valid_utf8_ascii) (auto simp: ValidateKey_None list_all_iff dest: key_char_excludes)

lemma format_utf8: "ValidateValue y v f = None \<Longrightarrow> valid_utf8 f"
  by (rule valid_utf8_ascii) (use ValidateValue_format[of y v f] in \<open>auto simp: format_defs\<close>)

lemma op_utf8: "valid_utf8 (op_text op')"
  by (cases op'; simp; rule valid_utf8_ascii; simp)

lemma detail_wire:
  assumes "serving y d" and "c \<in> set (config (tabs d))"
  shows "wire_detail (to_detail c)" "wire_config (to_entry c)"
proof -
  have "config_ok y c" using assms wf_dbD(2) by (auto simp: serving_def)
  then have "valid_utf8 (cKey c)" "valid_utf8 (cFormat c)"
    using key_utf8 format_utf8 by (auto simp: config_ok_def)
  moreover have "valid_utf8 (cValue c)" "valid_utf8 (cUpdatedBy c)"
    using assms by (auto simp: serving_def utf8_db_def)
  ultimately show "wire_detail (to_detail c)" "wire_config (to_entry c)"
    by (simp_all add: wire_detail_def to_detail_def wire_config_def to_entry_def)
qed

lemma version_wire:
  assumes "wf_db y d" and "h \<in> set (history (tabs d))"
  shows "wire_int (hVersion h)"
proof -
  let ?rows = "history_rows (hKey h) (tabs d)"
  have "h \<in> set ?rows" using assms(2) by (simp add: history_rows_def)
  then have "hVersion h \<in> set (map hVersion ?rows)" by simp
  also have "map hVersion ?rows = map int [1..<length ?rows + 1]"
    using wf_dbD(4)[OF assms(1)] unfolding versions_ok_def by blast
  finally have "1 \<le> hVersion h \<and> hVersion h \<le> int (length ?rows)" by auto
  moreover have "length ?rows \<le> length (history (tabs d))" by (simp add: history_rows_def)
  moreover have "int (length (history (tabs d))) < next_id d" "next_id d \<le> max_int64 + 1"
    using wf_dbD(6)[OF assms(1)] by (auto simp: ids_ok_def)
  ultimately show ?thesis by (simp add: wire_int_def min_int64_def)
qed

lemma history_wire:
  assumes "serving y d" and "h \<in> set (history (tabs d))"
  shows "wire_history (to_api_history h)"
proof -
  have "entry_ok y h" "wf_db y d" using assms wf_dbD(3) by (auto simp: serving_def)
  then have "valid_utf8 (hFormat h)" "wire_int (hVersion h)"
    using format_utf8 version_wire assms(2) by (auto simp: entry_ok_def)
  moreover have "valid_utf8 (hValue h)" "valid_utf8 (hComment h)" "valid_utf8 (hCreatedBy h)"
    using assms by (auto simp: serving_def utf8_db_def)
  ultimately show ?thesis by (simp add: wire_history_def to_api_history_def op_utf8)
qed

section \<open>Get and history\<close>

lemma drop_path: "drop 1 (key_path key @ t) = ''v1/configs/'' @ PathEscape key @ t"
  by (simp add: key_path_def)

lemma serve_get:
  "plain_key key \<Longrightarrow> serve tm ne dia w e (get_call key) d =
   (reply_response tm ne (handleGet (call_request (get_call key) [] key) (e, d)), d)"
  using Cut_path(1)[of "[]" key] drop_path[of key "[]"] dispatch_key(1)[of key "''GET''"]
  by (simp add: serve_def get_call_def match_route_def plain_key_def)

lemma get_agrees:
  assumes "time_ok tm" and "serving (yaml e) d" and "plain_key key"
  shows "outcome (fst (http_get tm (serve tm ne dia w e) key d)) = outcome (db_get e key d) \<and>
    snd (http_get tm (serve tm ne dia w e) key d) = d"
proof -
  let ?r = "call_request (get_call key) [] key"
  have key: "path_key ?r = key" by (simp add: call_request_def)
  show ?thesis
  proof (cases "fst (Get e key d)")
    case (Inl err)
    then show ?thesis
      by (simp add: http_get_def serve_get[OF assms(3)] db_get_def handleGet_def key outcome_fail)
  next
    case (Inr c)
    then obtain d' where "Get e key d = (Inr c, d')" by (cases "Get e key d") auto
    then have "config_row key (tabs d) = Some c"
      by (auto simp: Get_def getConfig_def op_defs split: option.splits)
    then have "c \<in> set (config (tabs d))" using config_row_key by blast
    then have wire: "wire_detail (to_detail c)" using detail_wire assms(2) by blast
    have "handleGet ?r (e, d) = Reply 200 (BDetail (to_detail c))"
      using Inr by (simp add: handleGet_def key to_detail_def)
    moreover have "http_do (decode_detail tm) (reply_response tm ne (Reply 200 (BDetail (to_detail c)))) =
        Inr (to_detail c)"
      by (rule http_do_ok[of _ _ "detail_json tm (to_detail c)"])
         (simp_all add: body_json_def valid_documents assms(1) wire emittable_documents decode_detail_json)
    ultimately show ?thesis
      using Inr by (simp add: http_get_def serve_get[OF assms(3)] db_get_def)
  qed
qed

lemma QueryEscape_digits: "\<forall>c\<in>set s. is_digit c \<Longrightarrow> QueryEscape s = s"
  by (induction s) (auto simp: QueryEscape_def query_plain_def url_alnum_def is_digit_def)

lemma ParseQuery_limit:
  assumes "\<forall>c\<in>set s. is_digit c"
  shows "ParseQuery (''limit='' @ s) = [(''limit'', s)]"
proof -
  have "Encode [(''limit'', [s])] = QueryEscape ''limit'' @ ''='' @ QueryEscape s"
    by (simp add: Encode_def values_pairs_def)
  also have "\<dots> = ''limit='' @ s"
    by (simp add: QueryEscape_digits assms) (simp add: QueryEscape_def query_plain_def url_alnum_def)
  finally show ?thesis
    using parse_encode[of "[(''limit'', [s])]"] by (simp add: values_pairs_def)
qed

lemma history_limit:
  assumes "limit \<noteq> 0" and "limit \<le> max_int64"
  shows "\<exists>q n. Cut CHR ''?'' (cPath (history_call key limit)) = (key_path key @ ''/history'', q, True) \<and>
    query_get ''limit'' (call_request (history_call key limit) q key) = int_str n \<and>
    0 \<le> n \<and> n \<le> max_int64 \<and> (0 < limit \<longrightarrow> n = limit) \<and> (limit < 0 \<longrightarrow> n = 0)"
proof -
  define n where "n = max limit 0"
  have str: "int_str n = nat_str (nat n)" by (simp add: n_def int_str_def)
  have "\<forall>c\<in>set (int_str n). is_digit c"
    using nat_str_is_digit[of "nat n"] unfolding str by (simp add: list_all_iff)
  note pq = ParseQuery_limit[OF this]
  have zero: "int_str 0 = ''0''" by (simp add: int_str_def nat_str.simps[of 0] digit_char_def char_of_48)
  have path: "cPath (history_call key limit) = key_path key @ ''/history'' @ CHR ''?'' # (''limit='' @ int_str n)"
    using assms(1) zero by (auto simp: history_call_def n_def)
  have "Cut CHR ''?'' (cPath (history_call key limit)) =
      (key_path key @ ''/history'', ''limit='' @ int_str n, True)"
    unfolding path by (rule Cut_path(2)) simp
  then show ?thesis
    using pq assms by (intro exI[of _ "''limit='' @ int_str n"] exI[of _ n])
      (auto simp: call_request_def query_get_def n_def max_int64_def)
qed

lemma history_agrees:
  assumes nf: "no_fault e" and tm: "time_ok tm" and srv: "serving (yaml e) d" and key: "plain_key key"
    and lim: "limit \<noteq> 0" "limit \<le> max_int64"
  shows "outcome (fst (http_history tm (serve tm ne dia w e) key limit d)) = outcome (db_history e key limit d) \<and>
    snd (http_history tm (serve tm ne dia w e) key limit d) = d"
proof -
  obtain q n where cut: "Cut CHR ''?'' (cPath (history_call key limit)) = (key_path key @ ''/history'', q, True)"
    and n: "query_get ''limit'' (call_request (history_call key limit) q key) = int_str n"
      "0 \<le> n" "n \<le> max_int64" "0 < limit \<longrightarrow> n = limit" "limit < 0 \<longrightarrow> n = 0"
    using history_limit[OF lim] by blast
  let ?r = "call_request (history_call key limit) q key"
  have r: "path_key ?r = key" by (simp add: call_request_def)
  have parse: "ParseInt 64 (int_str n) = Some n"
    using n(2,3) ParseInt64_int_str[of n] by (simp add: min_int64_def)
  have "select_history key n t = select_history key limit t" for t
    using n(4,5) lim(1) by (cases "0 < limit") (auto simp: select_history_def Let_def)
  then have hist: "fst (History e key n d) = fst (History e key limit d)"
    by (simp add: History_no_fault[OF nf] split: option.splits)
  have sv: "serve tm ne dia w e (history_call key limit) d = (reply_response tm ne (handleHistory ?r (e, d)), d)"
    using cut drop_path[of key "''/history''"] dispatch_key(2)[OF key, of "''history''" "''GET''"] key
    by (simp add: serve_def match_route_def plain_key_def history_call_def)
  show ?thesis
  proof (cases "fst (History e key limit d)")
    case (Inl err)
    then show ?thesis
      by (simp add: http_history_def sv handleHistory_def n(1) parse r hist outcome_fail db_history_def)
  next
    case (Inr rows)
    then have "rows = select_history key limit (tabs d)"
      by (simp add: History_no_fault[OF nf] split: option.splits)
    then have "set rows \<subseteq> set (history (tabs d))"
      by (auto simp: select_history_def Let_def history_rows_def dest!: in_set_takeD split: if_splits)
    then have wire: "\<forall>h\<in>set (map to_api_history rows). wire_history h" using history_wire[OF srv] by auto
    have ok: "http_do (decode_histories tm) (reply_response tm ne (Reply 200 (BHistory (map to_api_history rows)))) =
        Inr (map to_api_history rows)"
      by (rule http_do_ok[of _ _ "histories_json tm (map to_api_history rows)"])
         (use wire in \<open>simp_all add: body_json_def valid_documents tm emittable_documents
            decode_histories_json wire_history_def\<close>)
    show ?thesis
      using Inr ok by (cases "rows = []")
        (simp_all add: http_history_def sv handleHistory_def n(1) parse r hist db_history_def
          outcome_fail[unfolded mapErr_def] mapErr_def)
  qed
qed

section \<open>Writes\<close>

text \<open>What a write changed, up to the identifiers a failed one may have drawn.\<close>

definition same_write ::
    "(backend_error + WriteResult) \<times> db \<Rightarrow> (backend_error + WriteResult) \<times> db \<Rightarrow> bool" where
  "same_write a b \<longleftrightarrow> outcome (fst a) = outcome (fst b) \<and> tabs (snd a) = tabs (snd b) \<and>
     (\<forall>r. fst b = Inr r \<longrightarrow> snd a = snd b)"

lemma change_query:
  "distinct (map fst q) \<Longrightarrow> map_of q ''author'' = None \<Longrightarrow> map_of q ''comment'' = None \<Longrightarrow>
   distinct (map fst (addChange q c)) \<and>
   map_of (addChange q c) ''author'' = (if chAuthor c = [] then None else Some [chAuthor c]) \<and>
   map_of (addChange q c) ''comment'' = (if chComment c = [] then None else Some [chComment c]) \<and>
   (\<forall>n. n \<noteq> ''author'' \<longrightarrow> n \<noteq> ''comment'' \<longrightarrow> map_of (addChange q c) n = map_of q n)"
proof -
  have flt: "map_of (filter (\<lambda>p. P (fst p)) xs) n = (if P n then map_of xs n else None)"
    for P n and xs :: Values by (induction xs) auto
  note flt2 = flt[of "\<lambda>k. k \<noteq> ''author'' \<and> k \<noteq> ''comment''"] flt[of "\<lambda>k. k \<noteq> x" for x]
  assume "distinct (map fst q)" "map_of q ''author'' = None" "map_of q ''comment'' = None"
  then show ?thesis
    by (auto simp: addChange_def Let_def values_set_def flt2 distinct_map_filter)
qed

lemma request_change_call:
  assumes "distinct (map fst q)" "map_of q ''author'' = None" "map_of q ''comment'' = None"
    and "chAuthor c \<noteq> []"
  shows "request_change (call_request call (Encode (addChange q c)) key) = store_change c"
    "query_get n (call_request call (Encode (addChange q c)) key) =
       (case map_of (addChange q c) n of None \<Rightarrow> [] | Some xs \<Rightarrow> case xs of [] \<Rightarrow> [] | x # _ \<Rightarrow> x)"
proof -
  let ?r = "call_request call (Encode (addChange q c)) key"
  have qp: "query_params ?r = values_pairs (addChange q c)"
    by (simp add: call_request_def parse_encode)
  note ch = change_query[OF assms(1-3), of c]
  note get = query_of_values(2)[OF qp conjunct1[OF ch]]
  show "query_get n ?r = (case map_of (addChange q c) n of None \<Rightarrow> [] | Some xs \<Rightarrow> case xs of [] \<Rightarrow> [] | x # _ \<Rightarrow> x)"
    by (rule get)
  show "request_change ?r = store_change c"
    using ch assms(4) by (simp add: request_change_def get store_change_def)
qed

lemma receipt_wire:
  assumes "serving y d" and "db_write e dia key op' c resolve d = (Inr res, d')" and "reads_only resolve"
  shows "wire_write (write_receipt key res)"
proof -
  from db_write_Inr[OF assms(2,3)] obtain r where
      "ValidateKey key = None" "meta (tabs d) = Some r" "r < max_int64"
      "res = \<lparr>Revision = r + 1, Version = int64 (max_version key (tabs d) + 1)\<rparr>" by blast
  moreover have "0 \<le> r" using assms(1) calculation(2) by (auto simp: serving_def)
  ultimately show ?thesis
    using int64_range[of "max_version key (tabs d) + 1"]
    by (simp add: wire_write_def write_receipt_def wire_int_def key_utf8) (simp add: min_int64_def)
qed

lemma reply_write_agrees:
  assumes srv: "serving y d" and p: "perform e dia q d = rd" "req_key q = key"
  shows "same_write (apfst (http_do decode_write) (apfst (reply_response tm ne) (reply_write key rd))) (db_result key rd)"
proof -
  obtain r d' where rd: "rd = (r, d')" by (cases rd)
  show ?thesis
  proof (cases r)
    case (Inl err)
    then show ?thesis using outcome_fail by (simp add: same_write_def rd reply_write_def db_result_def)
  next
    case (Inr res)
    have "db_write e dia key (req_op q) (req_change q) (req_resolve e q) d = (Inr res, d')"
      using p rd Inr by (simp add: perform_db_write)
    then have wire: "wire_write (write_receipt key res)" by (rule receipt_wire[OF srv]) simp
    have "http_do decode_write (reply_response tm ne (Reply 200 (BWrite (write_receipt key res)))) =
        Inr (write_receipt key res)"
      by (rule http_do_ok[of _ _ "write_json (write_receipt key res)"])
         (simp_all add: body_json_def valid_documents wire emittable_documents decode_write_json)
    then show ?thesis
      using Inr by (simp add: same_write_def rd reply_write_def db_result_def writeResult_def write_receipt_def)
  qed
qed

lemma delete_agrees:
  assumes "serving (yaml e) d" and key: "plain_key key" and au: "chAuthor c \<noteq> []"
  shows "same_write (http_delete (serve tm ne dia w e) key c d) (db_delete e dia key c d)"
proof -
  let ?q = "Encode (addChange [] c)" and ?call = "delete_call key c"
  have "Cut CHR ''?'' (cPath ?call) = (key_path key, ?q, True)"
    using Cut_path(2)[of "[]" key ?q] by (simp add: delete_call_def)
  then have sv: "serve tm ne dia w e ?call d =
      apfst (reply_response tm ne) (handleDelete dia (call_request ?call ?q key) e d)"
    using drop_path[of key "[]"] dispatch_key(1)[OF key, of "''DELETE''"] key
    by (simp add: serve_def match_route_def plain_key_def delete_call_def)
  have "request_change (call_request ?call ?q key) = store_change c"
    using request_change_call(1)[of "[]" c ?call key] au by simp
  then have "handleDelete dia (call_request ?call ?q key) e d =
      reply_write key (Delete e dia key (store_change c) d)"
    by (simp add: handleDelete_def call_request_def)
  then show ?thesis
    using reply_write_agrees[OF assms(1), of e dia "ReqDelete key (store_change c)"]
    by (simp add: http_delete_def sv db_delete_def)
qed

lemma rollback_body:
  assumes "wire_int version"
  obtains b where "Marshal (rollback_json version) = Some b" "decode_rollback b = Some version"
proof -
  obtain b where b: "Marshal (rollback_json version) = Some b" "Unmarshal b = Some (rollback_json version)"
    using Unmarshal_valid[OF valid_documents(4) emittable_documents(4)] by blast
  then have "decode_rollback b = Some version"
    using assms by (simp add: decode_rollback_def rollback_json_def wire_int_def)
  then show thesis using b that by blast
qed

lemma nat_str_length: "n < 10 ^ Suc k \<Longrightarrow> length (nat_str n) \<le> Suc k"
proof (induction k arbitrary: n)
  case 0
  then show ?case by (subst nat_str.simps) simp
next
  case (Suc k)
  then have "n div 10 < 10 ^ Suc k" by (simp add: less_mult_imp_div_less mult.commute)
  then have "length (nat_str (n div 10)) \<le> Suc k" by (rule Suc.IH)
  then show ?case by (subst nat_str.simps) simp
qed

lemma rollback_body_short:
  assumes "wire_int version" and "0 < version" and "Marshal (rollback_json version) = Some b"
  shows "length b \<le> 4096"
proof -
  have "nat version < 10 ^ Suc 18" using assms(1,2) by (simp add: wire_int_def max_int64_def nat_less_iff)
  then have "length (int_str version) \<le> 19" using nat_str_length[of "nat version" 18] assms(2) by (simp add: int_str_def)
  moreover have "quote ''version'' = Some (CHR 0x22 # ''version'' @ [CHR 0x22])"
    by (simp add: quote_def quote_body.simps utf8_len_ascii quote_char_def)
  ultimately show ?thesis using assms(3) by (auto simp: Marshal_def rollback_json_def)
qed

lemma rollback_agrees:
  assumes "serving (yaml e) d" and key: "plain_key key" and au: "chAuthor c \<noteq> []"
    and ver: "0 < version" "version \<le> max_int64"
  shows "same_write (http_rollback (serve tm ne dia w e) key version c d) (db_rollback e dia key version c d)"
proof -
  have wi: "wire_int version" using ver by (simp add: wire_int_def min_int64_def)
  obtain b where b: "Marshal (rollback_json version) = Some b" "decode_rollback b = Some version"
    using rollback_body[OF wi] .
  define call where "call = \<lparr>cMethod = ''POST'', cPath = key_path key @ ''/rollback?'' @ Encode (addChange [] c),
    cBody = Some b, cContentType = ''application/json''\<rparr>"
  have rc: "rollback_call key version c = Some call" by (simp add: rollback_call_def b call_def)
  let ?q = "Encode (addChange [] c)"
  have "Cut CHR ''?'' (cPath call) = (key_path key @ ''/rollback'', ?q, True)"
    using Cut_path(2)[of "''/rollback''" key ?q] by (simp add: call_def)
  then have sv: "serve tm ne dia w e call d =
      apfst (reply_response tm ne) (handleRollback dia (call_request call ?q key) e d)"
    using drop_path[of key "''/rollback''"] dispatch_key(2)[OF key, of "''rollback''" "''POST''"] key
    by (simp add: serve_def match_route_def plain_key_def call_def)
  have ch: "request_change (call_request call ?q key) = store_change c"
    using request_change_call(1)[of "[]" c call key] au by simp
  have "readBody (call_request call ?q key) 4096 = Inr b"
    using rollback_body_short[OF wi ver(1) b(1)] by (simp add: readBody_def call_request_def call_def)
  then have "handleRollback dia (call_request call ?q key) e d =
      reply_write key (Rollback e dia key version (store_change c) d)"
    using ver ch b by (simp add: handleRollback_def) (simp add: call_request_def)
  then show ?thesis
    using reply_write_agrees[OF assms(1), of e dia "ReqRollback key version (store_change c)"]
    by (simp add: http_rollback_def rc sv db_rollback_def)
qed

text \<open>A set that the handler refuses fails in the store as well, without a trace.\<close>

lemma set_refused:
  assumes "no_fault e" and "wf_db (yaml e) d"
    and "ValidateValue (yaml e) val (if format = [] then FormatRaw else format) \<noteq> None"
  shows "outcome (fst (db_set e dia key val format c d)) = Failed \<and>
    tabs (snd (db_set e dia key val format c d)) = tabs d"
proof -
  define f where "f = (if format = [] then FormatRaw else format)"
  obtain fault where fault: "ValidateValue (yaml e) val f = Some fault"
    using assms(3) by (auto simp: f_def simp del: not_None_eq split: option.splits) 
  have fresh: "fresh_version key (tabs d)" using wf_fresh_version assms(2) by blast
  from db_write_no_fault[OF assms(1) reads_only_resolvers(3) fresh, of dia OpSet "store_change c" val f]
  obtain d' where d': "Set e dia key val format (store_change c) d =
      (case write_outcome e key (store_change c) (resolve_set val f) d of
         Inl err \<Rightarrow> (Inl err, d')
       | Inr (res, v, f) \<Rightarrow> (Inr res, written e key OpSet (store_change c) v f d))" "tabs d' = tabs d"
    unfolding Set_def f_def by blast
  have "\<exists>err. write_outcome e key (store_change c) (resolve_set val f) d = Inl err \<and> mapErr err \<noteq> BackendNotFound"
    using fault by (simp add: write_outcome_def resolve_set_def mapErr_def split: option.splits)
  then show ?thesis using d' by (auto simp: db_set_def db_result_def)
qed

lemma set_agrees:
  assumes nf: "no_fault e" and srv: "serving (yaml e) d" and key: "plain_key key" and au: "chAuthor c \<noteq> []"
  shows "same_write (http_set (serve tm ne dia w e) key val format c d) (db_set e dia key val format c d)"
proof -
  define q0 where "q0 = (if format \<noteq> [] then values_set ''format'' format [] else [])"
  have q0: "distinct (map fst q0)" "map_of q0 ''author'' = None" "map_of q0 ''comment'' = None"
    "map_of q0 ''format'' = (if format = [] then None else Some [format])"
    by (auto simp: q0_def values_set_def)
  let ?q = "Encode (addChange q0 c)" and ?call = "set_call key val format c"
  let ?r = "call_request ?call ?q key"
  have "Cut CHR ''?'' (cPath ?call) = (key_path key, ?q, True)"
    using Cut_path(2)[of "[]" key ?q] by (simp add: set_call_def q0_def)
  then have sv: "serve tm ne dia w e ?call d = apfst (reply_response tm ne) (handleSet dia ?r e d)"
    using drop_path[of key "[]"] dispatch_key(1)[OF key, of "''PUT''"] key
    by (simp add: serve_def match_route_def plain_key_def set_call_def)
  have ch: "request_change ?r = store_change c" using request_change_call(1)[OF q0(1-3) au] .
  have fmt: "query_get ''format'' ?r = format"
    using request_change_call(2)[OF q0(1-3) au, of "''format''" ?call key] q0(4)
      change_query[OF q0(1-3), of c] by simp
  have body: "readBody ?r MaxValueSize =
      (if MaxValueSize < length val then Inl (Reply 413 (BError (MsgTooLarge MaxValueSize))) else Inr val)"
    by (simp add: readBody_def call_request_def set_call_def)
  define f where "f = (if format = [] then FormatRaw else format)"
  show ?thesis
  proof (cases "parseFormat format = None \<or> MaxValueSize < length val")
    case True
    then obtain code b where refused: "handleSet dia ?r e d = (Reply code b, d)" "code = 400 \<or> code = 413"
      by (cases "parseFormat format") (auto simp: handleSet_def fmt body)
    have "ValidateValue (yaml e) val f \<noteq> None"
      using True ValidateValue_size ValidateValue_format by (force simp: f_def parseFormat_def split: if_splits)
    then have "outcome (fst (db_set e dia key val format c d)) = Failed"
      "tabs (snd (db_set e dia key val format c d)) = tabs d"
      using set_refused[OF nf _, of d val format dia key c] srv by (auto simp: f_def serving_def)
    moreover have "outcome (http_do decode_write (reply_response tm ne (Reply code b))) = Failed"
      using refused(2) http_do_status[of code decode_write tm ne b] by auto
    ultimately show ?thesis
      by (auto simp: same_write_def http_set_def sv refused outcome_def split: sum.splits if_splits)
  next
    case False
    then have "parseFormat format = Some f" by (auto simp: parseFormat_def f_def split: if_splits)
    moreover have "Set e dia key val f (store_change c) = Set e dia key val format (store_change c)"
      by (simp add: Set_def f_def)
    ultimately have "handleSet dia ?r e d = reply_write key (Set e dia key val format (store_change c) d)"
      using False by (simp add: handleSet_def fmt body ch) (simp add: call_request_def)
    then show ?thesis
      using reply_write_agrees[OF srv, of e dia "ReqSet key val format (store_change c)"]
      by (simp add: http_set_def sv db_set_def)
  qed
qed

section \<open>List\<close>

lemma list_agrees:
  assumes nf: "no_fault e" and srv: "serving (yaml e) d" and m: "meta (tabs d) = Some r" "r \<le> max_int64"
    and w: "wReady w \<Longrightarrow> 0 \<le> wRev w" and ps: "length ps \<le> maxPrefixes"
  shows "outcome (fst (http_list (serve tm ne dia w e) ps d)) = outcome (db_list e dia ps d) \<and>
    snd (http_list (serve tm ne dia w e) ps d) = d"
proof -
  define vs where "vs = fold (values_add ''prefix'') ps []"
  let ?r = "call_request (list_call ps) (if vs = [] then [] else Encode vs) []"
  have vs: "distinct (map fst vs)" "map_of vs ''prefix'' = (if ps = [] then None else Some ps)"
    using values_add_prefix[of "[]" "''prefix''" ps] by (auto simp: vs_def)
  have disp: "dispatch ''GET'' ''v1/configs'' = Some EpList"
    by (simp add: dispatch_def clean_path_def unescape_segment_def PathUnescape_def unescape_plain match_route_def)
  have cut: "Cut CHR ''?'' (cPath (list_call ps)) = (''/v1/configs'', if vs = [] then [] else Encode vs, vs \<noteq> [])"
    using Cut_append[of "CHR ''?''" "''/v1/configs''" "Encode vs"]
    by (auto simp: list_call_def vs_def[symmetric] Let_def)
  have sv: "serve tm ne dia w e (list_call ps) d =
      (reply_response tm ne (handleList dia w ?r (e, d) (e, d) (e, d)), d)"
    using disp by (simp add: serve_def cut) (simp add: list_call_def Let_def)
  have "ParseQuery [] = []" by (simp add: ParseQuery_def parse_piece_def)
  then have "query_params ?r = values_pairs vs" 
    by (simp add: call_request_def parse_encode) (simp add: values_pairs_def)
  from query_of_values(1)[OF this vs(1)] have qa: "query_all ''prefix'' ?r = ps" by (simp add: vs)
  have "\<not> maxPrefixes < length (query_all ''prefix'' ?r)" using ps unfolding qa by simp
  then obtain ps' where ps': "request_prefixes ?r = Inr ps'"
    unfolding request_prefixes_def Let_def by (cases "query_all ''prefix'' ?r = []") simp_all
  have same: "under ps' = under ps" using request_prefixes_under[OF ps'] qa by simp
  obtain rv where rv: "observedRevision w (e, d) = Inr rv" "0 \<le> rv"
    using m srv w by (cases "wReady w")
      (auto simp: observedRevision_def health_def ReadRevision_no_fault[OF nf] serving_def)
  define rows where "rows = map to_entry (sort_key (\<lambda>c. collate e (cKey c)) (filter (\<lambda>c. under ps (cKey c)) (config (tabs d))))"
  have lst: "fst (ListPrefixes e dia ps d) =
      Inr (sort_key (\<lambda>c. collate e (cKey c)) (filter (\<lambda>c. under ps (cKey c)) (config (tabs d))))"
    "fst (ListPrefixes e dia ps' d) =
      Inr (sort_key (\<lambda>c. collate e (cKey c)) (filter (\<lambda>c. under ps (cKey c)) (config (tabs d))))"
    by (simp_all add: ListPrefixes_no_fault[OF nf] select_configs_under same)
  let ?s = "\<lparr>sRevision = min rv r, sConfigs = rows\<rparr>"
  have reply: "handleList dia w ?r (e, d) (e, d) (e, d) = Reply 200 (BSnapshot ?s)"
    using rv(1) ps' lst(2) m(1)
    by (simp add: handleList_def server_snapshot_def ReadRevision_no_fault[OF nf] reply_snapshot_def rows_def)
  have ok: "wire_ok ?s"
    using detail_wire(2)[OF srv] rv(2) m srv
    by (auto simp: wire_ok_def rows_def serving_def min_int64_def)
  then have "valid_tree (snapshot_json ?s)"
    by (auto simp: snapshot_json_def config_json_def wire_ok_def wire_config_def)
  then have "http_do decode_snapshot (reply_response tm ne (Reply 200 (BSnapshot ?s))) = Inr ?s"
    by (intro http_do_ok[of _ _ "snapshot_json ?s"])
       (simp_all add: body_json_def emittable_snapshot decode_snapshot_json[OF ok])
  then show ?thesis
    by (simp add: http_list_def sv reply db_list_def lst(1)) (simp add: rows_def)
qed

section \<open>Properties\<close>

text \<open>
  C27. The two backends of \<open>lsctl\<close> are interchangeable. On a consistent database whose texts are
  valid UTF-8 and which reports no fault, every command has the same outcome (the same result,
  "not found", or a failure) through the server as on the database directly, and leaves the
  same tables: for keys other than the empty one, \<open>.\<close> and \<open>..\<close>, an author that is not empty, a
  history limit other than 0, a positive version and at most 64 prefixes.
\<close>

theorem backends_agree:
  assumes "no_fault e" and "time_ok tm" and "serving (yaml e) d" and "plain_key key" and "chAuthor c \<noteq> []"
    and "limit \<noteq> 0" "limit \<le> max_int64" and "0 < version" "version \<le> max_int64"
    and "meta (tabs d) = Some r" "r \<le> max_int64" and "wReady w \<Longrightarrow> 0 \<le> wRev w" and "length ps \<le> maxPrefixes"
  shows "outcome (fst (http_get tm (serve tm ne dia w e) key d)) = outcome (db_get e key d) \<and>
    outcome (fst (http_history tm (serve tm ne dia w e) key limit d)) = outcome (db_history e key limit d) \<and>
    outcome (fst (http_list (serve tm ne dia w e) ps d)) = outcome (db_list e dia ps d) \<and>
    same_write (http_set (serve tm ne dia w e) key val format c d) (db_set e dia key val format c d) \<and>
    same_write (http_delete (serve tm ne dia w e) key c d) (db_delete e dia key c d) \<and>
    same_write (http_rollback (serve tm ne dia w e) key version c d) (db_rollback e dia key version c d)"
  using get_agrees history_agrees list_agrees set_agrees delete_agrees rollback_agrees assms by auto

definition tm0 :: timecodec where
  "tm0 = \<lparr>time_text = int_str, time_parse = (\<lambda>s. if CHR ''-'' = hd s
      then map_option (\<lambda>n. - int n) (digits_acc 0 (tl s)) else map_option int (digits_acc 0 s)), time_zero = 0\<rparr>"

lemma time_ok_tm0: "time_ok tm0"
proof -
  have ascii: "\<forall>c\<in>set (int_str t). byte c < 128" for t
    using nat_str_is_digit by (auto simp: int_str_def list_all_iff is_digit_def) (force simp: is_digit_def list_all_iff)+
  have "time_parse tm0 (int_str t) = Some t" for t
    using hd_nat_str[of "nat t"] by (cases "t < 0") (auto simp: tm0_def int_str_def)
  then show ?thesis
    using valid_utf8_ascii[OF ascii] by (simp add: time_ok_def tm0_def)
qed

definition who0 :: BChange where "who0 = \<lparr>chAuthor = ''ann'', chComment = []\<rparr>"
definition ne0 :: netenv where
  "ne0 = \<lparr>ne_partial = (\<lambda>_. []), ne_text = (\<lambda>_. []), ne_mux = (\<lambda>_. Response 404 [])\<rparr>"

lemma serving_db1: "serving (yaml env0) db1"
proof -
  have "valid_utf8 ''30s''" "valid_utf8 (Author chg0)" "valid_utf8 (Comment chg0)"
    by (rule valid_utf8_ascii; simp add: chg0_def)+
  then have "utf8_db db1"
    by (simp add: utf8_db_def db1_def new_config_def upsert_row_def empty_db_def)
  then show ?thesis using wf_db1 by (simp add: serving_def)
qed

theorem backends_agree_witness:
  "outcome (fst (http_get tm0 (serve tm0 ne0 MySQL newRevisionWatcher env0) ''app:a'' db1)) =
     outcome (db_get env0 ''app:a'' db1) \<and>
   same_write (http_delete (serve tm0 ne0 MySQL newRevisionWatcher env0) ''app:a'' who0 db1)
     (db_delete env0 MySQL ''app:a'' who0 db1)"
proof -
  have "plain_key ''app:a''" "chAuthor who0 \<noteq> []" "\<not> wReady newRevisionWatcher" "length [''app:''] \<le> maxPrefixes"
    by (simp_all add: plain_key_def who0_def newRevisionWatcher_def maxPrefixes_def)
  then show ?thesis
    using backends_agree[OF _ time_ok_tm0 serving_db1, of "''app:a''" who0 1 1 1 newRevisionWatcher "[''app:'']" ne0 MySQL]
    by (simp add: max_int64_def)
qed

end
