(* ===== verification/Lsctl_Contract.thy ===== *)
theory Lsctl_Contract
  imports Lsctl_Backend_Props
begin

text \<open>
  The contract behind the interface \<open>Backend\<close> of \<open>lsctl\<close>: what its commands rely on, whatever
  backend they were given. \<open>settings_backend\<close> states it over the outcomes of the operations;
  it is interpreted on the database backend and, through the agreement of the two, on the HTTP
  backend in front of the server. The lemmas inside are the command sequences that \<open>lsctl\<close>
  itself suggests, such as undoing a deletion.
\<close>

section \<open>The contract\<close>

locale settings_backend =
  fixes ok :: "'st \<Rightarrow> bool"
    and get :: "string \<Rightarrow> 'st \<Rightarrow> ConfigDetail outcome"
    and versions :: "string \<Rightarrow> 'st \<Rightarrow> ApiHistory list outcome"
    and put :: "string \<Rightarrow> string \<Rightarrow> string \<Rightarrow> 'st \<Rightarrow> WriteResult outcome \<times> 'st"
    and remove :: "string \<Rightarrow> 'st \<Rightarrow> WriteResult outcome \<times> 'st"
    and restore :: "string \<Rightarrow> int \<Rightarrow> 'st \<Rightarrow> WriteResult outcome \<times> 'st"
  assumes put_get: "ok s \<Longrightarrow> plain_key k \<Longrightarrow> valid_utf8 v \<Longrightarrow> put k v f s = (Finished r, t) \<Longrightarrow>
      ok t \<and> wrKey r = k \<and>
      (\<exists>c. get k t = Finished c \<and> dKey c = k \<and> dValue c = v \<and> dFormat c = (if f = [] then FormatRaw else f))"
    and remove_keeps: "ok s \<Longrightarrow> plain_key k \<Longrightarrow> remove k s = (Finished r, t) \<Longrightarrow>
      ok t \<and> get k t = Missing \<and> 0 < wrVersion r \<and> wrVersion r \<le> max_int64 \<and>
      (\<exists>c hs h. get k s = Finished c \<and> versions k t = Finished hs \<and> h \<in> set hs \<and>
         aVersion h = wrVersion r \<and> aValue h = dValue c \<and> aFormat h = dFormat c)"
    and restore_brings: "ok s \<Longrightarrow> plain_key k \<Longrightarrow> 0 < n \<Longrightarrow> n \<le> max_int64 \<Longrightarrow>
      restore k n s = (Finished r, t) \<Longrightarrow>
      ok t \<and> (\<exists>c hs h. versions k s = Finished hs \<and> h \<in> set hs \<and> aVersion h = n \<and>
         get k t = Finished c \<and> dValue c = aValue h \<and> dFormat c = aFormat h)"
    and versions_distinct: "ok s \<Longrightarrow> plain_key k \<Longrightarrow> versions k s = Finished hs \<Longrightarrow> distinct (map aVersion hs)"
begin

text \<open>The command that \<open>rm\<close> prints: rolling back to the version it reports undoes it.\<close>

lemma rm_undone:
  assumes "ok s" and "plain_key k" and rm: "remove k s = (Finished r, t)"
    and undo: "restore k (wrVersion r) t = (Finished r', u)"
  shows "\<exists>c c'. get k s = Finished c \<and> get k u = Finished c' \<and> dValue c' = dValue c \<and> dFormat c' = dFormat c"
proof -
  from remove_keeps[OF assms(1,2) rm] obtain c hs h where
      t: "ok t" "0 < wrVersion r" "wrVersion r \<le> max_int64" and c: "get k s = Finished c"
      and hs: "versions k t = Finished hs" "h \<in> set hs" "aVersion h = wrVersion r"
      and val: "aValue h = dValue c" "aFormat h = dFormat c" by blast
  from restore_brings[OF t(1) assms(2) t(2,3) undo] obtain c' hs' h' where
      "versions k t = Finished hs'" "h' \<in> set hs'" "aVersion h' = wrVersion r"
      "get k u = Finished c'" "dValue c' = aValue h'" "dFormat c' = aFormat h'" by blast
  moreover have "h' = h"
  proof -
    have "inj_on aVersion (set hs)" using versions_distinct[OF t(1) assms(2) hs(1)] by (simp add: distinct_map)
    then show ?thesis using hs calculation by (simp add: inj_on_def)
  qed
  ultimately show ?thesis using c val by auto
qed

text \<open>What a set wrote is what a get prints, also after the key was removed and restored.\<close>

lemma put_rm_restore:
  assumes "ok s" and "plain_key k" and "valid_utf8 v" and "put k v f s = (Finished r, t)"
    and "remove k t = (Finished r', u)" and "restore k (wrVersion r') u = (Finished r'', w)"
  shows "\<exists>c. get k w = Finished c \<and> dValue c = v"
  using put_get[OF assms(1-4)] rm_undone[OF _ assms(2,5,6)] by auto

end

section \<open>The database backend keeps it\<close>

definition db_ok :: "dbenv \<Rightarrow> BChange \<Rightarrow> db \<Rightarrow> bool" where
  "db_ok e c d \<longleftrightarrow> no_fault e \<and> serving (yaml e) d \<and> valid_utf8 (chAuthor c) \<and> valid_utf8 (chComment c)"

definition as_outcome :: "(backend_error + 'a) \<times> 'st \<Rightarrow> 'a outcome \<times> 'st" where
  "as_outcome r = apfst outcome r"

lemma Finished_iff: "outcome r = Finished x \<longleftrightarrow> r = Inr x"
  by (auto simp: outcome_def split: sum.splits if_splits)

text \<open>A write that finished, seen from the store.\<close>

lemma db_result_Finished:
  assumes "as_outcome (db_result key (perform e dia q d)) = (Finished r, t)"
    and "db_ok e c d" and q: "req_key q = key" "req_change q = store_change c"
    and val: "\<And>val format. fst (req_resolve e q (config_row key (tabs d)) (bumped d)) = Inr (val, format) \<Longrightarrow> valid_utf8 val"
  shows "\<exists>val format. fst (req_resolve e q (config_row key (tabs d)) (bumped d)) = Inr (val, format) \<and>
    t = written e key (req_op q) (store_change c) val format d \<and> db_ok e c t \<and> wrKey r = key \<and>
    wrVersion r = int (length (history_rows key (tabs d))) + 1 \<and> wrVersion r \<le> max_int64 \<and>
    ValidateKey key = None"
proof -
  have srv: "serving (yaml e) d" "wf_db (yaml e) d" using assms(2) by (auto simp: db_ok_def serving_def)
  obtain res where w: "db_write e dia key (req_op q) (store_change c) (req_resolve e q) d = (Inr res, t)"
    and r: "r = write_receipt key res"
  proof -
    obtain a where p: "perform e dia q d = (a, t)" "map_sum mapErr (write_receipt key) a = Inr r"
      using assms(1) by (cases "perform e dia q d") (auto simp: as_outcome_def db_result_def Finished_iff)
    then show thesis using that q by (cases a) (auto simp: perform_db_write)
  qed
  from db_write_Inr[OF w reads_only_req] obtain rv val format where
      x: "ValidateKey key = None" "ValidateChange (store_change c) = None" "meta (tabs d) = Some rv"
        "fst (req_resolve e q (config_row key (tabs d)) (bumped d)) = Inr (val, format)"
        "ValidateValue (yaml e) val format = None" "next_id d \<le> max_int64"
      and res: "res = \<lparr>Revision = rv + 1, Version = int64 (max_version key (tabs d) + 1)\<rparr>"
      and t: "t = written e key (req_op q) (store_change c) val format d" by blast
  have "wf_db (yaml e) t" unfolding t by (rule wf_written[OF srv(2) x(1,2,5,6)])
  moreover have "utf8_db t"
    using srv val[OF x(4)] assms(2) set_upsert_row
    by (fastforce simp: t utf8_db_def serving_def db_ok_def new_config_def store_change_def split: if_splits)
  ultimately have "db_ok e c t"
    using assms(2) srv(1) x(3) by (auto simp: db_ok_def serving_def t)
  moreover have "wrVersion r = int (length (history_rows key (tabs d))) + 1"
    using next_version[OF srv(2) x(6), of key] by (simp add: r write_receipt_def res)
  moreover have "wrVersion r \<le> max_int64"
    using int64_range by (simp add: r write_receipt_def res)
  ultimately show ?thesis using x t by (auto simp: r write_receipt_def)
qed

lemma db_get_row:
  assumes "db_ok e c d"
  shows "outcome (db_get e key d) =
    (if ValidateKey key \<noteq> None then Failed
     else case config_row key (tabs d) of None \<Rightarrow> Missing | Some row \<Rightarrow> Finished (to_detail row))"
  using assms by (auto simp: db_get_def db_ok_def Get_no_fault mapErr_def split: option.splits)

lemma db_versions_rows:
  assumes "db_ok e c d"
  shows "outcome (db_history e key (-1) d) =
    (if ValidateKey key \<noteq> None then Failed
     else if history_rows key (tabs d) = [] then Missing
     else Finished (map to_api_history (rev (history_rows key (tabs d)))))"
proof -
  have "wf_db (yaml e) d" "no_fault e" using assms by (auto simp: db_ok_def serving_def)
  then show ?thesis
    by (auto simp: db_history_def History_no_fault mapErr_def select_history_rows wf_dbD(4) split: option.splits)
qed

lemma row_value_utf8: "db_ok e c d \<Longrightarrow> config_row key (tabs d) = Some row \<Longrightarrow> valid_utf8 (cValue row)"
  using config_row_key by (fastforce simp: db_ok_def serving_def utf8_db_def)

lemma history_at_Some:
  "history_at key n t = Some (val, format) \<Longrightarrow>
   \<exists>h\<in>set (history_rows key t). hVersion h = n \<and> hValue h = val \<and> hFormat h = format"
  by (auto simp: history_at_def history_rows_def find_Some_iff) (metis nth_mem)

interpretation db_backend: settings_backend "db_ok e c" "\<lambda>k d. outcome (db_get e k d)"
  "\<lambda>k d. outcome (db_history e k (-1) d)" "\<lambda>k v f d. as_outcome (db_set e dia k v f c d)"
  "\<lambda>k d. as_outcome (db_delete e dia k c d)" "\<lambda>k n d. as_outcome (db_rollback e dia k n c d)"
proof
  fix s k v f r t
  assume ok: "db_ok e c s" and v: "valid_utf8 v" and w: "as_outcome (db_set e dia k v f c s) = (Finished r, t)"
  let ?q = "ReqSet k v f (store_change c)"
  have "as_outcome (db_result k (perform e dia ?q s)) = (Finished r, t)" using w by (simp add: db_set_def)
  from db_result_Finished[OF this ok] v obtain
      "t = written e k OpSet (store_change c) v (if f = [] then FormatRaw else f) s" "db_ok e c t"
      "ValidateKey k = None" "wrKey r = k" by (auto simp: resolve_set_def)
  then show "db_ok e c t \<and> wrKey r = k \<and> (\<exists>c. outcome (db_get e k t) = Finished c \<and> dKey c = k \<and> dValue c = v \<and>
      dFormat c = (if f = [] then FormatRaw else f))"
    by (simp add: db_get_row config_row_written to_detail_def)
next
  fix s k r t
  assume ok: "db_ok e c s" and w: "as_outcome (db_delete e dia k c s) = (Finished r, t)"
  let ?q = "ReqDelete k (store_change c)"
  have "as_outcome (db_result k (perform e dia ?q s)) = (Finished r, t)" using w by (simp add: db_delete_def)
  then have del: "as_outcome (db_result k (perform e dia ?q s)) = (Finished r, t)" .
  have res: "fst (resolve_delete k (config_row k (tabs s)) (bumped s)) =
      (case config_row k (tabs s) of None \<Rightarrow> Inl (ErrNotFound (NoKey k)) | Some row \<Rightarrow> Inr (cValue row, cFormat row))"
    by (simp add: resolve_delete_def split: option.splits)
  have "\<exists>val format. fst (req_resolve e ?q (config_row k (tabs s)) (bumped s)) = Inr (val, format) \<and>
    t = written e k (req_op ?q) (store_change c) val format s \<and> db_ok e c t \<and> wrKey r = k \<and>
    wrVersion r = int (length (history_rows k (tabs s))) + 1 \<and> wrVersion r \<le> max_int64 \<and> ValidateKey k = None"
  proof (rule db_result_Finished[OF del ok])
    show "valid_utf8 val" if "fst (req_resolve e ?q (config_row k (tabs s)) (bumped s)) = Inr (val, format)" for val format
      using that row_value_utf8[OF ok, of k] by (auto simp: res split: option.splits)
  qed simp_all
  then obtain row where
      row: "config_row k (tabs s) = Some row" and t: "db_ok e c t"
        "t = written e k OpDelete (store_change c) (cValue row) (cFormat row) s"
      and ver: "wrVersion r = int (length (history_rows k (tabs s))) + 1" "wrVersion r \<le> max_int64"
      and vk: "ValidateKey k = None"
    by (auto simp: res split: option.splits)
  let ?h = "new_entry e k OpDelete (store_change c) (cValue row) (cFormat row) s"
  have hs: "history_rows k (tabs t) = history_rows k (tabs s) @ [?h]" by (simp add: t(2))
  have "map hVersion (history_rows k (tabs t)) = map int [1..<length (history_rows k (tabs t)) + 1]"
  proof -
    have "versions_ok (tabs t)" using t(1) wf_dbD(4) unfolding db_ok_def serving_def by blast
    then show ?thesis unfolding versions_ok_def by blast
  qed
  then have hv: "hVersion ?h = wrVersion r" using ver(1) unfolding hs by simp
  have "outcome (db_history e k (-1) t) = Finished (map to_api_history (rev (history_rows k (tabs t))))"
    by (simp add: db_versions_rows[OF t(1)] vk hs)
  moreover have "to_api_history ?h \<in> set (map to_api_history (rev (history_rows k (tabs t))))"
    unfolding hs by simp
  moreover have "outcome (db_get e k s) = Finished (to_detail row)" by (simp add: db_get_row[OF ok] vk row)
  moreover have "outcome (db_get e k t) = Missing"
    using db_get_row[OF t(1), of k] vk by (simp add: t(2) config_row_written)
  ultimately show "db_ok e c t \<and> outcome (db_get e k t) = Missing \<and> 0 < wrVersion r \<and> wrVersion r \<le> max_int64 \<and>
      (\<exists>c hs h. outcome (db_get e k s) = Finished c \<and> outcome (db_history e k (-1) t) = Finished hs \<and> h \<in> set hs \<and>
         aVersion h = wrVersion r \<and> aValue h = dValue c \<and> aFormat h = dFormat c)"
    using t(1) ver hv by (intro conjI exI[of _ "to_detail row"] exI exI[of _ "to_api_history ?h"])
      (auto simp: to_api_history_def to_detail_def)
next
  fix s k n r t
  assume ok: "db_ok e c s" and w: "as_outcome (db_rollback e dia k n c s) = (Finished r, t)"
  let ?q = "ReqRollback k n (store_change c)"
  have res: "fst (resolve_rollback e k n cur (bumped s)) =
      (case history_at k n (tabs s) of None \<Rightarrow> Inl (ErrNotFound (NoVersion k n)) | Some vf \<Rightarrow> Inr vf)" for cur
    using ok by (simp add: resolve_rollback_def db_ok_def split: option.splits)
  have u: "valid_utf8 val" if "history_at k n (tabs s) = Some (val, format)" for val format
    using history_at_Some[OF that] ok by (auto simp: db_ok_def serving_def utf8_db_def history_rows_def)
  have "as_outcome (db_result k (perform e dia ?q s)) = (Finished r, t)" using w by (simp add: db_rollback_def)
  from this have "\<exists>val format. fst (req_resolve e ?q (config_row k (tabs s)) (bumped s)) = Inr (val, format) \<and>
    t = written e k (req_op ?q) (store_change c) val format s \<and> db_ok e c t \<and> wrKey r = k \<and>
    wrVersion r = int (length (history_rows k (tabs s))) + 1 \<and> wrVersion r \<le> max_int64 \<and> ValidateKey k = None"
  proof (rule db_result_Finished[OF _ ok])
    show "valid_utf8 val" if "fst (req_resolve e ?q (config_row k (tabs s)) (bumped s)) = Inr (val, format)" for val format
      using that u by (auto simp: res split: option.splits)
  qed simp_all
  then obtain val format where
      h: "history_at k n (tabs s) = Some (val, format)" and t: "db_ok e c t"
        "t = written e k OpRollback (store_change c) val format s" and vk: "ValidateKey k = None"
    by (auto simp: res split: option.splits)
  obtain h where hh: "h \<in> set (history_rows k (tabs s))" "hVersion h = n" "hValue h = val" "hFormat h = format"
    using history_at_Some[OF h] by blast
  have "outcome (db_history e k (-1) s) = Finished (map to_api_history (rev (history_rows k (tabs s))))"
    using hh(1) by (auto simp: db_versions_rows[OF ok] vk)
  moreover have "\<exists>row. outcome (db_get e k t) = Finished (to_detail row) \<and> cValue row = val \<and> cFormat row = format"
    using db_get_row[OF t(1), of k] vk
    by (intro exI[of _ "the (config_row k (tabs t))"]) (simp add: t(2) config_row_written)
  ultimately show "db_ok e c t \<and> (\<exists>c hs h. outcome (db_history e k (-1) s) = Finished hs \<and> h \<in> set hs \<and> aVersion h = n \<and>
      outcome (db_get e k t) = Finished c \<and> dValue c = aValue h \<and> dFormat c = aFormat h)"
  proof (elim exE conjE, intro conjI)
    fix row
    assume "outcome (db_history e k (-1) s) = Finished (map to_api_history (rev (history_rows k (tabs s))))"
      "outcome (db_get e k t) = Finished (to_detail row)" "cValue row = val" "cFormat row = format"
    then show "\<exists>c hs h. outcome (db_history e k (-1) s) = Finished hs \<and> h \<in> set hs \<and> aVersion h = n \<and>
        outcome (db_get e k t) = Finished c \<and> dValue c = aValue h \<and> dFormat c = aFormat h"
      using hh by (intro exI[of _ "to_detail row"] exI exI[of _ "to_api_history h"] conjI)
        (auto simp: to_detail_def to_api_history_def)
  qed (rule t(1))
next
  fix s k hs
  assume ok: "db_ok e c s" and hs: "outcome (db_history e k (-1) s) = Finished hs"
  have "hs = map to_api_history (rev (history_rows k (tabs s)))"
    using hs by (auto simp: db_versions_rows[OF ok] split: if_splits)
  then have "map aVersion hs = rev (map hVersion (history_rows k (tabs s)))"
    by (simp add: to_api_history_def rev_map comp_def)
  moreover have "versions_ok (tabs s)" using ok wf_dbD(4) by (auto simp: db_ok_def serving_def)
  ultimately show "distinct (map aVersion hs)" by (simp add: versions_ok_def distinct_map inj_on_def del: upt_Suc)
qed

section \<open>The HTTP backend keeps it\<close>

text \<open>
  The laws reach the HTTP backend through the agreement: in front of a server whose database
  nobody else changes, every outcome and every state is that of the database backend.
\<close>

definition http_ok :: "timecodec \<Rightarrow> dbenv \<Rightarrow> BChange \<Rightarrow> db \<Rightarrow> bool" where
  "http_ok tm e c d \<longleftrightarrow> db_ok e c d \<and> time_ok tm \<and> chAuthor c \<noteq> []"

lemma same_write_Finished:
  assumes "same_write a b" and "as_outcome a = (Finished r, t)"
  shows "as_outcome b = (Finished r, t)"
  using assms by (cases a; cases b) (auto simp: same_write_def as_outcome_def Finished_iff)

lemma http_okD:
  assumes "http_ok tm e c d"
  shows "no_fault e" "time_ok tm" "serving (yaml e) d" "chAuthor c \<noteq> []" "db_ok e c d"
  using assms by (auto simp: http_ok_def db_ok_def)

lemma http_get_outcome:
  "http_ok tm e c d \<Longrightarrow> plain_key k \<Longrightarrow>
   outcome (fst (http_get tm (serve tm ne dia w e) k d)) = outcome (db_get e k d)"
  using get_agrees http_okD by blast

lemma http_versions_outcome:
  "http_ok tm e c d \<Longrightarrow> plain_key k \<Longrightarrow>
   outcome (fst (http_history tm (serve tm ne dia w e) k (-1) d)) = outcome (db_history e k (-1) d)"
  using history_agrees[of e tm d k "-1"] http_okD by (simp add: max_int64_def)

interpretation http_backend: settings_backend "http_ok tm e c"
  "\<lambda>k d. outcome (fst (http_get tm (serve tm ne dia w e) k d))"
  "\<lambda>k d. outcome (fst (http_history tm (serve tm ne dia w e) k (-1) d))"
  "\<lambda>k v f d. as_outcome (http_set (serve tm ne dia w e) k v f c d)"
  "\<lambda>k d. as_outcome (http_delete (serve tm ne dia w e) k c d)"
  "\<lambda>k n d. as_outcome (http_rollback (serve tm ne dia w e) k n c d)"
proof
  fix s k v f r t
  assume ok: "http_ok tm e c s" and k: "plain_key k" and v: "valid_utf8 v"
    and w: "as_outcome (http_set (serve tm ne dia w e) k v f c s) = (Finished r, t)"
  note D = http_okD[OF ok]
  have "as_outcome (db_set e dia k v f c s) = (Finished r, t)"
    by (rule same_write_Finished[OF set_agrees[OF D(1,3) k D(4)] w])
  from db_backend.put_get[OF D(5) k v this]
  have t: "db_ok e c t" and rest: "wrKey r = k" "\<exists>c. outcome (db_get e k t) = Finished c \<and> dKey c = k \<and> dValue c = v \<and>
      dFormat c = (if f = [] then FormatRaw else f)" by auto
  have "http_ok tm e c t" using t D by (simp add: http_ok_def)
  then show "http_ok tm e c t \<and> wrKey r = k \<and> (\<exists>c. outcome (fst (http_get tm (serve tm ne dia w e) k t)) = Finished c \<and>
      dKey c = k \<and> dValue c = v \<and> dFormat c = (if f = [] then FormatRaw else f))"
    using rest by (simp add: http_get_outcome[OF _ k])
next
  fix s k r t
  assume ok: "http_ok tm e c s" and k: "plain_key k"
    and w: "as_outcome (http_delete (serve tm ne dia w e) k c s) = (Finished r, t)"
  note D = http_okD[OF ok]
  have "as_outcome (db_delete e dia k c s) = (Finished r, t)"
    by (rule same_write_Finished[OF delete_agrees[OF D(3) k D(4)] w])
  from db_backend.remove_keeps[OF D(5) k this]
  have t: "db_ok e c t" and rest: "outcome (db_get e k t) = Missing \<and> 0 < wrVersion r \<and> wrVersion r \<le> max_int64 \<and>
      (\<exists>c hs h. outcome (db_get e k s) = Finished c \<and> outcome (db_history e k (-1) t) = Finished hs \<and> h \<in> set hs \<and>
         aVersion h = wrVersion r \<and> aValue h = dValue c \<and> aFormat h = dFormat c)" by auto
  have t': "http_ok tm e c t" using t D by (simp add: http_ok_def)
  show "http_ok tm e c t \<and> outcome (fst (http_get tm (serve tm ne dia w e) k t)) = Missing \<and>
      0 < wrVersion r \<and> wrVersion r \<le> max_int64 \<and>
      (\<exists>c hs h. outcome (fst (http_get tm (serve tm ne dia w e) k s)) = Finished c \<and>
         outcome (fst (http_history tm (serve tm ne dia w e) k (-1) t)) = Finished hs \<and> h \<in> set hs \<and>
         aVersion h = wrVersion r \<and> aValue h = dValue c \<and> aFormat h = dFormat c)"
    unfolding http_get_outcome[OF t' k] http_get_outcome[OF ok k] http_versions_outcome[OF t' k]
    using t' rest by blast
next
  fix s k n r t
  assume ok: "http_ok tm e c s" and k: "plain_key k" and n: "0 < n" "n \<le> max_int64"
    and w: "as_outcome (http_rollback (serve tm ne dia w e) k n c s) = (Finished r, t)"
  note D = http_okD[OF ok]
  have "as_outcome (db_rollback e dia k n c s) = (Finished r, t)"
    by (rule same_write_Finished[OF rollback_agrees[OF D(3) k D(4) n] w])
  from db_backend.restore_brings[OF D(5) k n this]
  have t: "db_ok e c t" and rest: "\<exists>c hs h. outcome (db_history e k (-1) s) = Finished hs \<and> h \<in> set hs \<and> aVersion h = n \<and>
      outcome (db_get e k t) = Finished c \<and> dValue c = aValue h \<and> dFormat c = aFormat h" by auto
  have t': "http_ok tm e c t" using t D by (simp add: http_ok_def)
  show "http_ok tm e c t \<and> (\<exists>c hs h. outcome (fst (http_history tm (serve tm ne dia w e) k (-1) s)) = Finished hs \<and>
      h \<in> set hs \<and> aVersion h = n \<and> outcome (fst (http_get tm (serve tm ne dia w e) k t)) = Finished c \<and>
      dValue c = aValue h \<and> dFormat c = aFormat h)"
    unfolding http_get_outcome[OF t' k] http_versions_outcome[OF ok k] using t' rest by blast
next
  fix s k hs
  assume ok: "http_ok tm e c s" and k: "plain_key k"
    and hs: "outcome (fst (http_history tm (serve tm ne dia w e) k (-1) s)) = Finished hs"
  show "distinct (map aVersion hs)"
    using db_backend.versions_distinct[OF http_okD(5)[OF ok] k] hs http_versions_outcome[OF ok k] by simp
qed

section \<open>Properties\<close>

text \<open>
  C28. Undo. Through either backend: when \<open>lsctl rm\<close> succeeded, the rollback to the version that
  it printed, when it succeeds, brings back the value and the format that \<open>lsctl get\<close> read
  before the deletion.
\<close>

theorem rm_is_undone:
  assumes "plain_key k"
  shows "(http_ok tm e c s \<and>
      as_outcome (http_delete (serve tm ne dia w e) k c s) = (Finished r, t) \<and>
      as_outcome (http_rollback (serve tm ne dia w e) k (wrVersion r) c t) = (Finished r', u) \<longrightarrow>
      (\<exists>x x'. outcome (fst (http_get tm (serve tm ne dia w e) k s)) = Finished x \<and>
         outcome (fst (http_get tm (serve tm ne dia w e) k u)) = Finished x' \<and>
         dValue x' = dValue x \<and> dFormat x' = dFormat x)) \<and>
    (db_ok e c s \<and> as_outcome (db_delete e dia k c s) = (Finished r, t) \<and>
      as_outcome (db_rollback e dia k (wrVersion r) c t) = (Finished r', u) \<longrightarrow>
      (\<exists>x x'. outcome (db_get e k s) = Finished x \<and> outcome (db_get e k u) = Finished x' \<and>
         dValue x' = dValue x \<and> dFormat x' = dFormat x))"
proof (intro conjI impI; elim conjE)
  assume "http_ok tm e c s" "as_outcome (http_delete (serve tm ne dia w e) k c s) = (Finished r, t)"
    "as_outcome (http_rollback (serve tm ne dia w e) k (wrVersion r) c t) = (Finished r', u)"
  then show "\<exists>x x'. outcome (fst (http_get tm (serve tm ne dia w e) k s)) = Finished x \<and>
         outcome (fst (http_get tm (serve tm ne dia w e) k u)) = Finished x' \<and>
         dValue x' = dValue x \<and> dFormat x' = dFormat x"
    by (rule http_backend.rm_undone[OF _ assms])
next
  assume "db_ok e c s" "as_outcome (db_delete e dia k c s) = (Finished r, t)"
    "as_outcome (db_rollback e dia k (wrVersion r) c t) = (Finished r', u)"
  then show "\<exists>x x'. outcome (db_get e k s) = Finished x \<and> outcome (db_get e k u) = Finished x' \<and>
         dValue x' = dValue x \<and> dFormat x' = dFormat x"
    by (rule db_backend.rm_undone[OF _ assms])
qed

lemma delete_db1:
  "\<exists>r t. as_outcome (db_delete env0 MySQL ''app:a'' who0 db1) = (Finished r, t) \<and> wrVersion r = 2 \<and>
     t = written env0 ''app:a'' OpDelete (store_change who0) ''30s'' FormatRaw db1"
proof -
  have "ready ''app:a'' (store_change who0) db1"
    using ready_db1 by (simp add: ready_def store_change_def who0_def ValidateChange_def limit_defs)
  from delete_success[OF _ _ this, of env0 _ MySQL] wf_db1
  show ?thesis
    by (simp add: db_delete_def db_result_def as_outcome_def write_receipt_def)
       (simp add: db1_def)
qed

theorem rm_is_undone_witness:
  "\<exists>r r' t u x x'. as_outcome (db_delete env0 MySQL ''app:a'' who0 db1) = (Finished r, t) \<and>
     as_outcome (db_rollback env0 MySQL ''app:a'' (wrVersion r) who0 t) = (Finished r', u) \<and>
     outcome (db_get env0 ''app:a'' db1) = Finished x \<and> outcome (db_get env0 ''app:a'' u) = Finished x' \<and>
     dValue x' = dValue x"
proof -
  obtain r t where del: "as_outcome (db_delete env0 MySQL ''app:a'' who0 db1) = (Finished r, t)" "wrVersion r = 2"
    and t: "t = written env0 ''app:a'' OpDelete (store_change who0) ''30s'' FormatRaw db1"
    using delete_db1 by blast
  have ok: "db_ok env0 who0 db1"
    using serving_db1 by (simp add: db_ok_def who0_def) (rule valid_utf8_ascii; simp)
  have pk: "plain_key ''app:a''" by (simp add: plain_key_def)
  from db_backend.remove_keeps[OF ok pk del(1)] have "wf_db (yaml env0) t" by (auto simp: db_ok_def serving_def)
  moreover have "ready ''app:a'' (store_change who0) t"
    using ready_db1 by (simp add: t ready_def store_change_def who0_def ValidateChange_def limit_defs max_int64_def)
  moreover have "history_at ''app:a'' 2 (tabs t) = Some (''30s'', FormatRaw)"
  proof -
    have v0: "max_version ''app:a'' (tabs empty_db) = 0" by (simp add: max_version_def)
    have h1: "history (tabs db1) = [new_entry env0 ''app:a'' OpSet chg0 ''30s'' FormatRaw empty_db]"
      by (simp add: db1_def) (simp add: empty_db_def)
    have v1: "max_version ''app:a'' (tabs db1) = 1"
      using h1 v0 by (simp add: max_version_def[of _ "tabs db1"] history_rows_def[of _ "tabs db1"] int64_def)
    show ?thesis by (simp add: t history_at_def h1 v0 v1 int64_def)
  qed
  ultimately have "\<exists>r' u. as_outcome (db_rollback env0 MySQL ''app:a'' (wrVersion r) who0 t) = (Finished r', u)"
    using rollback_success[of env0 t "''app:a''" "store_change who0" 2 "''30s''" FormatRaw MySQL] del(2)
    by (simp add: db_rollback_def db_result_def as_outcome_def)
  then obtain r' u where undo: "as_outcome (db_rollback env0 MySQL ''app:a'' (wrVersion r) who0 t) = (Finished r', u)" by blast
  show ?thesis using rm_is_undone[OF pk, of tm0 env0 who0 db1] ok del(1) undo by blast
qed

end
