(* ===== verification/Lsctl_Diff_Props.thy ===== *)
theory Lsctl_Diff_Props
  imports Lsctl_Diff
begin

text \<open>
  What the diff of \<open>lsctl\<close> promises: the table holds the lengths of the longest common
  subsequences (so that the diff keeps as many lines as any alignment can), every hunk header
  names the place and the size of its lines, and applying the hunks to the old lines gives the
  new ones.
\<close>

section \<open>The longest common subsequence\<close>

fun lcs_len :: "string list \<Rightarrow> string list \<Rightarrow> nat" where
  "lcs_len [] b = 0"
| "lcs_len a [] = 0"
| "lcs_len (x # a) (y # b) =
     (if x = y then Suc (lcs_len a b) else max (lcs_len a (y # b)) (lcs_len (x # a) b))"

lemma lcs_len_Nil [simp]: "lcs_len a [] = 0"
  by (cases a) auto

lemma lcs_len_le: "lcs_len a b \<le> length a"
  by (induction a b rule: lcs_len.induct) auto

lemma subseq_tl: "subseq zs (x # a) \<Longrightarrow> subseq (tl zs) a"
  by (cases zs) (auto dest: subseq_Cons' split: if_splits)

lemma subseq_butlast: "subseq zs (a @ [x]) \<Longrightarrow> subseq (butlast zs) a"
proof -
  assume "subseq zs (a @ [x])"
  then obtain us vs where zs: "zs = us @ vs" and us: "subseq us a" and vs: "subseq vs [x]"
    by (auto simp: subseq_append_iff)
  from vs have "vs = [] \<or> vs = [x]" by (cases vs) (auto split: if_splits)
  moreover have "subseq (butlast us) a"
    using us by (metis append_butlast_last_id butlast.simps(1) subseq_order.trans list_emb_prefix subseq_order.order_refl)
  ultimately show ?thesis using zs us by auto
qed

lemma lcs_len_upper: "subseq zs a \<Longrightarrow> subseq zs b \<Longrightarrow> length zs \<le> lcs_len a b"
proof (induction a b arbitrary: zs rule: lcs_len.induct)
  case (3 x a y b)
  show ?case
  proof (cases zs)
    case Nil
    then show ?thesis by simp
  next
    case (Cons z zs')
    show ?thesis
    proof (cases "x = y")
      case True
      then have "length zs' \<le> lcs_len a b"
        using "3.IH"(1) "3.prems" Cons subseq_tl by (metis list.sel(3))
      then show ?thesis using Cons True by simp
    next
      case False
      then have "subseq zs a \<or> subseq zs b"
        using "3.prems" Cons by (auto split: if_splits)
      then show ?thesis using "3.IH"(2,3)[OF False] "3.prems" False by (auto simp: le_max_iff_disj)
    qed
  qed
qed (auto)

section \<open>The table holds the lengths\<close>

text \<open>Rows from \<open>i\<close> on are finished, and in row \<open>i\<close> the columns from \<open>j\<close> on.\<close>

definition filled :: "string list \<Rightarrow> string list \<Rightarrow> int list \<Rightarrow> nat \<Rightarrow> nat \<Rightarrow> bool" where
  "filled a b tbl i j \<longleftrightarrow>
     length tbl = (length a + 1) * (length b + 1) \<and>
     (\<forall>i' j'. i' \<le> length a \<longrightarrow> j' \<le> length b \<longrightarrow>
        i < i' \<or> (i = i' \<and> j \<le> j') \<or> i' = length a \<or> j' = length b \<longrightarrow>
        tbl_at (length b) tbl i' j' = int (lcs_len (drop i' a) (drop j' b)))"

lemma cell_bound:
  assumes "i \<le> length a" "j \<le> length b"
  shows "i * (length b + 1) + j < (length a + 1) * (length b + 1)"
proof -
  have "i * (length b + 1) \<le> length a * (length b + 1)" using assms(1) by (rule mult_right_mono) simp
  then show ?thesis using assms(2) by (simp add: algebra_simps)
qed

lemma cell_inj:
  fixes i j i' j' m :: nat
  assumes "j \<le> m" "j' \<le> m" "i * (m + 1) + j = i' * (m + 1) + j'"
  shows "i = i' \<and> j = j'"
proof -
  have quot: "(c * k + d) div k = c \<and> (c * k + d) mod k = d" if "d < k" for c d k :: nat
    using that by (simp add: div_mult_self3)
  show ?thesis
    using quot[of j "m + 1" i] quot[of j' "m + 1" i'] assms by (metis less_Suc_eq_le Suc_eq_plus1)
qed

lemma tbl_at_update:
  assumes "j \<le> m" "j' \<le> m" "i * (m + 1) + j < length tbl"
  shows "tbl_at m (tbl[i * (m + 1) + j := v]) i' j' = (if i = i' \<and> j = j' then v else tbl_at m tbl i' j')"
  using assms cell_inj[of j m j' i i'] by (auto simp: tbl_at_def nth_list_update)

lemma int32_id: "0 \<le> i \<Longrightarrow> i < 2147483648 \<Longrightarrow> int32 i = i"
  by (simp add: int32_def)

lemma tbl_cell_lcs:
  assumes fill: "filled a b tbl i (Suc j)" and i: "i < length a" and j: "j < length b"
    and small: "length a < 2147483648"
  shows "tbl_cell a b tbl i j = int (lcs_len (drop i a) (drop j b))"
proof -
  have at: "tbl_at (length b) tbl (Suc i) (Suc j) = int (lcs_len (drop (Suc i) a) (drop (Suc j) b))"
    "tbl_at (length b) tbl (Suc i) j = int (lcs_len (drop (Suc i) a) (drop j b))"
    "tbl_at (length b) tbl i (Suc j) = int (lcs_len (drop i a) (drop (Suc j) b))"
    using fill i j unfolding filled_def by (auto simp: Suc_le_eq)
  have "drop i a = a ! i # drop (Suc i) a" "drop j b = b ! j # drop (Suc j) b"
    using i j by (simp_all add: Cons_nth_drop_Suc)
  then have rec: "lcs_len (drop i a) (drop j b) =
      (if a ! i = b ! j then Suc (lcs_len (drop (Suc i) a) (drop (Suc j) b))
       else max (lcs_len (drop (Suc i) a) (drop j b)) (lcs_len (drop i a) (drop (Suc j) b)))"
    by (metis lcs_len.simps(3))
  have "lcs_len (drop (Suc i) a) (drop (Suc j) b) \<le> length a - Suc i"
    using lcs_len_le[of "drop (Suc i) a"] by simp
  then have "int (lcs_len (drop (Suc i) a) (drop (Suc j) b)) + 1 < 2147483648"
    using small i by linarith
  then show ?thesis using rec by (simp add: tbl_cell_def at Let_def int32_id)
qed

lemma fill_row_filled:
  assumes "filled a b tbl i j" and "i < length a" and "j \<le> length b" and "length a < 2147483648"
  shows "filled a b (fill_row a b i j tbl) i 0"
  using assms
proof (induction j arbitrary: tbl)
  case 0
  then show ?case by simp
next
  case (Suc j)
  let ?tbl = "tbl[i * (length b + 1) + j := tbl_cell a b tbl i j]"
  have bound: "i * (length b + 1) + j < length tbl"
    using Suc.prems cell_bound[of i a j b] by (simp add: filled_def)
  have cell: "tbl_cell a b tbl i j = int (lcs_len (drop i a) (drop j b))"
    using tbl_cell_lcs Suc.prems by simp
  have "filled a b ?tbl i j"
    unfolding filled_def
  proof (intro conjI allI impI)
    show "length ?tbl = (length a + 1) * (length b + 1)" using Suc.prems by (simp add: filled_def)
    fix i' j'
    assume le: "i' \<le> length a" "j' \<le> length b"
      and todo: "i < i' \<or> i = i' \<and> j \<le> j' \<or> i' = length a \<or> j' = length b"
    have upd: "tbl_at (length b) ?tbl i' j' =
        (if i = i' \<and> j = j' then tbl_cell a b tbl i j else tbl_at (length b) tbl i' j')"
      using le bound Suc.prems(3) by (intro tbl_at_update) simp_all
    show "tbl_at (length b) ?tbl i' j' = int (lcs_len (drop i' a) (drop j' b))"
    proof (cases "i = i' \<and> j = j'")
      case True
      then show ?thesis using upd cell by simp
    next
      case False
      then have "i < i' \<or> i = i' \<and> Suc j \<le> j' \<or> i' = length a \<or> j' = length b"
        using todo by auto
      moreover have "filled a b tbl i (Suc j)" by (rule Suc.prems(1))
      ultimately have "tbl_at (length b) tbl i' j' = int (lcs_len (drop i' a) (drop j' b))"
        using le unfolding filled_def by blast
      then show ?thesis unfolding upd if_not_P[OF False] .
    qed
  qed
  then show ?case using Suc.IH Suc.prems by simp
qed

lemma filled_next_row: "filled a b tbl (Suc i) 0 \<Longrightarrow> filled a b tbl i (length b)"
  unfolding filled_def by (metis Suc_leI le_neq_implies_less less_eq_nat.simps(1) order_antisym)

lemma fill_table_filled:
  "filled a b tbl i 0 \<Longrightarrow> i \<le> length a \<Longrightarrow> length a < 2147483648 \<Longrightarrow> filled a b (fill_table a b i tbl) 0 0"
proof (induction i arbitrary: tbl)
  case 0
  then show ?case by simp
next
  case (Suc i)
  then show ?case using fill_row_filled[OF filled_next_row] by simp
qed

lemma lcs_table_correct:
  assumes "length a < 2147483648" "i \<le> length a" "j \<le> length b"
  shows "tbl_at (length b) (lcs_table a b) i j = int (lcs_len (drop i a) (drop j b))"
proof -
  let ?t = "replicate ((length a + 1) * (length b + 1)) (0::int)"
  have "filled a b ?t (length a) 0"
    unfolding filled_def tbl_at_def using cell_bound[of _ a _ b]
    by (auto simp del: replicate.simps add_mult_distrib)
  then have "filled a b (lcs_table a b) 0 0"
    unfolding lcs_table_def using fill_table_filled assms(1) by blast
  then show ?thesis using assms(2,3) unfolding filled_def by (metis le0 le_eq_less_or_eq)
qed

lemma walk_optimal:
  assumes "\<And>i j. i \<le> length a \<Longrightarrow> j \<le> length b \<Longrightarrow>
      tbl_at (length b) tbl i j = int (lcs_len (drop i a) (drop j b))"
    and "i \<le> length a" and "j \<le> length b"
  shows "length (same_lines (walk a b tbl i j)) = lcs_len (drop i a) (drop j b)"
  using assms
proof (induction a b tbl i j rule: walk.induct)
  case (1 a b tbl i j)
  note tbl = "1.prems"(1)
  show ?case
  proof (cases "i < length a \<and> j < length b")
    case True
    then have da: "drop i a = a ! i # drop (Suc i) a" and db: "drop j b = b ! j # drop (Suc j) b"
      by (simp_all add: Cons_nth_drop_Suc)
    have at: "tbl_at (length b) tbl (Suc i) j = int (lcs_len (drop (Suc i) a) (drop j b))"
      "tbl_at (length b) tbl i (Suc j) = int (lcs_len (drop i a) (drop (Suc j) b))"
      using tbl True by simp_all
    have rec: "lcs_len (drop i a) (drop j b) =
      (if a ! i = b ! j then Suc (lcs_len (drop (Suc i) a) (drop (Suc j) b))
       else max (lcs_len (drop (Suc i) a) (drop j b)) (lcs_len (drop i a) (drop (Suc j) b)))"
      by (metis da db lcs_len.simps(3))
    show ?thesis
      unfolding rec using "1.IH" True tbl
      by (subst walk.simps) (simp add: at max_def)
  next
    case False
    then have "drop i a = [] \<or> drop j b = []" by auto
    then show ?thesis using False by (subst walk.simps) auto
  qed
qed

lemma lcsDiff_optimal:
  "length a < 2147483648 \<Longrightarrow> length (same_lines (lcsDiff a b)) = lcs_len a b"
  unfolding lcsDiff_def using walk_optimal[of a b "lcs_table a b" 0 0] lcs_table_correct by simp


section \<open>Trimming loses no common line\<close>

lemma trim_head_bound:
  "trim_head a b = (h, a', b') \<Longrightarrow> subseq zs a \<Longrightarrow> subseq zs b \<Longrightarrow>
   \<exists>zs'. subseq zs' a' \<and> subseq zs' b' \<and> length zs \<le> length (same_lines h) + length zs'"
proof (induction a b arbitrary: h zs rule: trim_head.induct)
  case (1 x a y b)
  show ?case
  proof (cases "x = y")
    case True
    obtain h0 where rec: "trim_head a b = (h0, a', b')" and h: "h = Op (CHR '' '') x # h0"
      using "1.prems"(1) True by (auto split: prod.splits)
    have "subseq (tl zs) a" "subseq (tl zs) b" using "1.prems"(2,3) by (auto intro: subseq_tl)
    then obtain zs' where "subseq zs' a'" "subseq zs' b'"
      "length (tl zs) \<le> length (same_lines h0) + length zs'"
      using "1.IH"[OF True rec] by blast
    then show ?thesis using h by (intro exI[of _ zs']) auto
  next
    case False
    then show ?thesis using "1.prems" by auto
  qed
qed (auto simp del: list_emb_Nil2)

lemma trim_tail_bound:
  "trim_tail a b = (t, a', b') \<Longrightarrow> subseq zs a \<Longrightarrow> subseq zs b \<Longrightarrow>
   \<exists>zs'. subseq zs' a' \<and> subseq zs' b' \<and> length zs \<le> length (same_lines t) + length zs'"
proof (induction a b arbitrary: t zs rule: trim_tail.induct)
  case (1 a b)
  show ?case
  proof (cases "a \<noteq> [] \<and> b \<noteq> [] \<and> last a = last b")
    case True
    obtain t0 where rec: "trim_tail (butlast a) (butlast b) = (t0, a', b')"
        and t: "t = Op (CHR '' '') (last a) # t0"
      using "1.prems"(1) True by (auto simp: trim_tail.simps[of a b] split: prod.splits)
    have "subseq zs (butlast a @ [last a])" "subseq zs (butlast b @ [last b])"
      using "1.prems"(2,3) True by (metis append_butlast_last_id)+
    then have "subseq (butlast zs) (butlast a)" "subseq (butlast zs) (butlast b)"
      by (auto intro: subseq_butlast)
    then obtain zs' where "subseq zs' a'" "subseq zs' b'"
      "length (butlast zs) \<le> length (same_lines t0) + length zs'"
      using "1.IH"[OF True rec] by blast
    then show ?thesis using t by (intro exI[of _ zs']) auto
  next
    case False
    then show ?thesis using "1.prems" by (auto simp: trim_tail.simps[of a b])
  qed
qed

lemma diff_mid_optimal:
  assumes "length a * length b \<le> maxDiffCells" and "subseq zs a" and "subseq zs b"
  shows "length zs \<le> length (same_lines (diff_mid a b))"
proof (cases "a = [] \<or> b = []")
  case True
  then have "zs = []" using assms(2,3) by (auto dest: list_emb_Nil2)
  then show ?thesis by simp
next
  case False
  have "length a * 1 \<le> length a * length b" using False by (intro mult_left_mono) (auto simp: Suc_le_eq)
  moreover have "maxDiffCells < 2147483648" by (simp add: maxDiffCells_def push_bit_eq_mult)
  ultimately have "length a < 2147483648" using assms(1) by linarith
  then show ?thesis
    using lcsDiff_optimal lcs_len_upper[OF assms(2,3)] assms(1) False by (simp add: diff_mid_def)
qed

lemma diffLines_optimal:
  assumes head: "trim_head a b = (h, a1, b1)" and tail: "trim_tail a1 b1 = (t, a2, b2)"
    and cells: "length a2 * length b2 \<le> maxDiffCells"
    and zs: "subseq zs a" "subseq zs b"
  shows "length zs \<le> length (same_lines (diffLines a b))"
proof -
  obtain z1 where z1: "subseq z1 a1" "subseq z1 b1" and l1: "length zs \<le> length (same_lines h) + length z1"
    using trim_head_bound[OF head zs] by blast
  obtain z2 where z2: "subseq z2 a2" "subseq z2 b2" and l2: "length z1 \<le> length (same_lines t) + length z2"
    using trim_tail_bound[OF tail z1] by blast
  have "length z2 \<le> length (same_lines (diff_mid a2 b2))" by (rule diff_mid_optimal[OF cells z2])
  then show ?thesis using l1 l2 by (simp add: diffLines_def head tail)
qed

lemma same_lines_common: "subseq (same_lines ops) (old_lines ops) \<and> subseq (same_lines ops) (new_lines ops)"
proof (induction ops)
  case Nil
  then show ?case by simp
next
  case (Cons x ops)
  then show ?case by (auto intro: subseq_order.order_trans[OF _ list_emb_Cons[OF subseq_order.order_refl]])
qed

section \<open>Which lines a hunk shows\<close>

lemma fold_mark_length [simp]: "length (fold (\<lambda>k ks. ks[nat k := True]) js keep) = length keep"
  by (induction js arbitrary: keep) auto

lemma fold_mark_nth:
  "x < length keep \<Longrightarrow>
   fold (\<lambda>k ks. ks[nat k := True]) js keep ! x \<longleftrightarrow> keep ! x \<or> (\<exists>k\<in>set js. nat k = x)"
proof (induction js arbitrary: keep)
  case Nil
  then show ?case by simp
next
  case (Cons j js)
  then show ?case by (cases "nat j = x") auto
qed

lemma keep_around_length [simp]: "length (keep_around ctx n i keep) = length keep"
  by (simp add: keep_around_def)

text \<open>The number of lines and the context together stay within an \<open>int\<close>.\<close>

definition ctx_fits :: "int \<Rightarrow> nat \<Rightarrow> bool" where
  "ctx_fits ctx n \<longleftrightarrow> 0 \<le> ctx \<and> ctx + int n \<le> max_int64"

lemma ctx_fits_int64:
  assumes "ctx_fits ctx n" and "i < n"
  shows "int64 (int i - ctx) = int i - ctx" "int64 (int i + ctx) = int i + ctx"
  using assms by (auto simp: ctx_fits_def min_int64_def max_int64_def intro!: int64_id)

lemma keep_around_nth:
  assumes "x < length keep" and "length keep = n" and "ctx_fits ctx n" and "i < n"
  shows "keep_around ctx n i keep ! x \<longleftrightarrow> keep ! x \<or> \<bar>int i - int x\<bar> \<le> ctx"
proof -
  note fits = ctx_fits_int64[OF assms(3,4)]
  have "(\<exists>k\<in>set [max 0 (int i - ctx) .. min (int n - 1) (int i + ctx)]. nat k = x) \<longleftrightarrow>
      \<bar>int i - int x\<bar> \<le> ctx"
  proof
    assume "\<bar>int i - int x\<bar> \<le> ctx"
    then show "\<exists>k\<in>set [max 0 (int i - ctx) .. min (int n - 1) (int i + ctx)]. nat k = x"
      using assms by (intro bexI[of _ "int x"]) auto
  qed auto
  then show ?thesis using assms unfolding keep_around_def fits by (simp add: fold_mark_nth)
qed

lemma keep_fold_length:
  "length (fold (\<lambda>i keep. if P i then keep else keep_around ctx n i keep) is keep) = length keep"
  by (induction "is" arbitrary: keep) auto

lemma keep_fold_nth:
  "length keep = n \<Longrightarrow> x < n \<Longrightarrow> ctx_fits ctx n \<Longrightarrow> \<forall>i\<in>set is. i < n \<Longrightarrow>
   fold (\<lambda>i keep. if P i then keep else keep_around ctx n i keep) is keep ! x \<longleftrightarrow>
   keep ! x \<or> (\<exists>i\<in>set is. \<not> P i \<and> \<bar>int i - int x\<bar> \<le> ctx)"
  by (induction "is" arbitrary: keep) (auto simp: keep_around_nth)

lemma keep_flags_length [simp]: "length (keep_flags ops ctx) = length ops"
  by (simp add: keep_flags_def keep_fold_length)

lemma keep_flags_nth:
  "x < length ops \<Longrightarrow> ctx_fits ctx (length ops) \<Longrightarrow>
   keep_flags ops ctx ! x \<longleftrightarrow>
   (\<exists>i<length ops. line_kind (ops ! i) \<noteq> CHR '' '' \<and> \<bar>int i - int x\<bar> \<le> ctx)"
  unfolding keep_flags_def by (subst keep_fold_nth) auto

text \<open>Without a changed line nothing is marked, whatever the context.\<close>

lemma keep_flags_same:
  assumes "list_all (\<lambda>x. line_kind x = CHR '' '') ops"
  shows "keep_flags ops ctx = replicate (length ops) False"
proof -
  have "fold (\<lambda>i keep. if line_kind (ops ! i) = CHR '' '' then keep else keep_around ctx (length ops) i keep) is k = k"
    if "\<forall>i\<in>set is. i < length ops" for "is" k
    using that assms by (induction "is" arbitrary: k) (auto simp: list_all_length)
  then show ?thesis by (simp add: keep_flags_def)
qed

lemma unkept_same:
  assumes "ctx_fits ctx (length ops)" and "(x, False) \<in> set (zip ops (keep_flags ops ctx))"
  shows "line_kind x = CHR '' ''"
proof -
  obtain k where k: "k < length ops" "x = ops ! k" "\<not> keep_flags ops ctx ! k"
    using assms(2) by (auto simp: in_set_zip)
  then show ?thesis using keep_flags_nth[of k ops ctx] assms(1) by (force simp: ctx_fits_def)
qed

section \<open>Applying the hunks\<close>

text \<open>
  A patch applied the way \<open>patch\<close> does: the lines before a hunk's place are copied, the lines
  the hunk keeps or removes must be there, and the positions and counts of both headers must be
  those of the lines.
\<close>

fun apply_hunks :: "int \<Rightarrow> int \<Rightarrow> hunk list \<Rightarrow> string list \<Rightarrow> string list option" where
  "apply_hunks aPos bPos [] a = Some a"
| "apply_hunks aPos bPos (h # hs) a =
     (let skip = nat (aStart h - aPos); old = old_lines (hunk_body h); new = new_lines (hunk_body h) in
      if aPos \<le> aStart h \<and> bStart h - bPos = aStart h - aPos \<and>
         aCount h = int (length old) \<and> bCount h = int (length new) \<and>
         skip \<le> length a \<and> take (length old) (drop skip a) = old
      then map_option (\<lambda>r. take skip a @ new @ r)
             (apply_hunks (aStart h + aCount h) (bStart h + bCount h) hs (drop (skip + length old) a))
      else None)"

lemma a_count_old: "kinds_ok run \<Longrightarrow> a_count run = int (length (old_lines run))"
  by (induction run) (auto simp: a_count_def)

lemma b_count_new: "kinds_ok run \<Longrightarrow> b_count run = int (length (new_lines run))"
  by (induction run) (auto simp: b_count_def)

lemma map_fst_split: "map fst (takeWhile P xs) @ map fst (dropWhile P xs) = map fst xs"
  by (metis map_append takeWhile_dropWhile_id)

lemma kinds_ok_split:
  "kinds_ok (map fst xs) \<Longrightarrow>
   kinds_ok (map fst (takeWhile P xs)) \<and> kinds_ok (map fst (dropWhile P xs))"
  by (metis map_fst_split views_append(4))

lemma apply_hunk_loop:
  assumes "kinds_ok (map fst xs)" and "\<forall>x. (x, False) \<in> set xs \<longrightarrow> line_kind x = CHR '' ''"
  shows "apply_hunks al bl (hunk_loop xs (al + int (length ps)) (bl + int (length ps)))
           (ps @ old_lines (map fst xs)) = Some (ps @ new_lines (map fst xs))"
  using assms
proof (induction xs "al + int (length ps)" "bl + int (length ps)" arbitrary: al bl ps
    rule: hunk_loop.induct)
  case 1
  then show ?case by simp
next
  case (2 x rest)
  have kind: "line_kind x = CHR '' ''" using "2.prems"(2) by simp
  then have count: "a_count [x] = 1" "b_count [x] = 1" by (simp_all add: a_count_def b_count_def)
  have "apply_hunks al bl
      (hunk_loop rest (al + int (length (ps @ [line_text x]))) (bl + int (length (ps @ [line_text x]))))
      ((ps @ [line_text x]) @ old_lines (map fst rest)) = Some ((ps @ [line_text x]) @ new_lines (map fst rest))"
    using "2.prems" by (intro "2.hyps") (auto simp: count)
  then show ?case using kind count by (simp add: add.assoc add.commute[of 1])
next
  case (3 x rest)
  define run where "run = x # map fst (takeWhile snd rest)"
  define tail where "tail = dropWhile snd rest"
  have ok: "kinds_ok run" "kinds_ok (map fst tail)"
    using "3.prems"(1) kinds_ok_split[of rest snd] by (auto simp: run_def tail_def)
  have all: "map fst ((x, True) # rest) = run @ map fst tail"
    by (simp add: run_def tail_def map_fst_split)
  have counts: "a_count run = int (length (old_lines run))" "b_count run = int (length (new_lines run))"
    using a_count_old b_count_new ok by auto
  have IH: "apply_hunks (al + int (length ps) + a_count run) (bl + int (length ps) + b_count run)
      (hunk_loop tail (al + int (length ps) + a_count run) (bl + int (length ps) + b_count run))
      (old_lines (map fst tail)) = Some (new_lines (map fst tail))"
    using "3.hyps"[of run "al + int (length ps) + a_count run" "[]" "bl + int (length ps) + b_count run"]
      ok(2) "3.prems"(2) by (auto simp: run_def tail_def dest: set_dropWhileD)
  show ?case
    unfolding all views_append using IH counts
    by (simp add: Let_def run_def[symmetric] tail_def[symmetric])
qed

lemma apply_hunk_list: "kinds_ok ops \<Longrightarrow> ctx_fits (max ctx 0) (length ops) \<Longrightarrow>
    apply_hunks 1 1 (hunk_list ops ctx) (old_lines ops) = Some (new_lines ops)"
  using apply_hunk_loop[of "zip ops (keep_flags ops (max ctx 0))" 1 1 "[]"] unkept_same[of "max ctx 0" ops]
  by (auto simp: hunk_list_def)

lemma hunk_loop_none: "list_all (\<lambda>x. \<not> snd x) xs \<Longrightarrow> hunk_loop xs al bl = []"
  by (induction xs al bl rule: hunk_loop.induct) auto

lemma trim_head_same: "trim_head a a = (map (Op (CHR '' '')) a, [], [])"
  by (induction a) auto

lemma diffLines_same: "diffLines a a = map (Op (CHR '' '')) a"
  by (simp add: diffLines_def trim_head_same trim_tail.simps diff_mid_def)

lemma hunk_list_same: "hunk_list (diffLines a a) ctx = []"
proof -
  have "keep_flags (diffLines a a) (max ctx 0) = replicate (length a) False"
    by (subst keep_flags_same) (simp_all add: diffLines_same list_all_iff)
  then have "list_all (\<lambda>x. \<not> snd x) (zip (diffLines a a) (keep_flags (diffLines a a) (max ctx 0)))"
    by (auto simp: list_all_iff in_set_zip diffLines_same)
  then show ?thesis by (simp add: hunk_list_def hunk_loop_none)
qed

text \<open>The size of a diff: at most as many marked lines as both texts have bytes, and two.\<close>

definition diff_fits :: "string \<Rightarrow> string \<Rightarrow> int \<Rightarrow> bool" where
  "diff_fits s t ctx \<longleftrightarrow> max ctx 0 + int (length s) + int (length t) + 2 \<le> max_int64"

lemma length_Split: "length (Split c s) \<le> length s + 1"
  by (induction s) (auto split: list.splits)

lemma length_splitLines: "length (splitLines s) \<le> length s + 1"
proof -
  have "length (TrimSuffix s [NL]) \<le> length s" by (simp add: TrimSuffix_def)
  then show ?thesis using length_Split[of NL "TrimSuffix s [NL]"] by (simp add: splitLines_def)
qed

lemma length_ops: "kinds_ok ops \<Longrightarrow> length ops \<le> length (old_lines ops) + length (new_lines ops)"
  by (induction ops) auto

lemma length_diffLines: "length (diffLines a b) \<le> length a + length b"
  using length_ops[of "diffLines a b"] diffLines_views[of a b] by simp

lemma diff_fits_ctx: "diff_fits s t ctx \<Longrightarrow> ctx_fits (max ctx 0) (length (diffLines (splitLines s) (splitLines t)))"
  using length_diffLines[of "splitLines s" "splitLines t"] length_splitLines[of s] length_splitLines[of t]
  by (simp add: diff_fits_def ctx_fits_def)

lemma hunk_list_patch:
  assumes "diff_fits s t ctx"
  shows "apply_hunks 1 1 (hunk_list (diffLines (splitLines s) (splitLines t)) ctx) (splitLines s) = Some (splitLines t)"
  using apply_hunk_list[OF _ diff_fits_ctx[OF assms]] diffLines_views[of "splitLines s" "splitLines t"] by simp

lemma UnifiedDiff_same: "splitLines s = splitLines t \<Longrightarrow> UnifiedDiff s t la lb ctx = []"
  by (simp add: UnifiedDiff_def hunks_def Let_def hunk_list_same)

lemma UnifiedDiff_empty:
  assumes "diff_fits s t ctx"
  shows "UnifiedDiff s t la lb ctx = [] \<longleftrightarrow> splitLines s = splitLines t"
proof
  assume "UnifiedDiff s t la lb ctx = []"
  then have "hunk_list (diffLines (splitLines s) (splitLines t)) ctx = []"
    by (auto simp: UnifiedDiff_def hunks_def Let_def split: if_splits)
  then show "splitLines s = splitLines t" using hunk_list_patch[OF assms] by simp
qed (rule UnifiedDiff_same)

section \<open>Reading the printed diff\<close>

text \<open>
  A reader of the printed text, the way \<open>patch\<close> reads it: two lines with the labels, then hunks.
  A header gives both ranges; a range is a start with a count, where the count 1 may be left
  out and an empty range names the line before it. The counts say how many lines of either
  side follow, each with its mark.
\<close>

definition read_line :: "string \<Rightarrow> (string \<times> string) option" where
  "read_line s = (case Cut NL s of (l, rest, ok) \<Rightarrow> if ok then Some (l, rest) else None)"

definition read_number :: "string \<Rightarrow> int option" where
  "read_number s = (if s = [] then None else map_option int (digits_acc 0 s))"

definition read_span :: "string \<Rightarrow> (int \<times> int) option" where
  "read_span s =
     (case Cut CHR '','' s of (a, b, ok) \<Rightarrow>
        (case read_number a of None \<Rightarrow> None
         | Some n \<Rightarrow> if \<not> ok then Some (n, 1)
             else map_option (\<lambda>c. (if c = 0 then n + 1 else n, c)) (read_number b)))"

definition read_header :: "string \<Rightarrow> ((int \<times> int) \<times> int \<times> int) option" where
  "read_header l =
     (case Split CHR '' '' l of
        [u, m # a, p # b, v] \<Rightarrow>
          if u = ''@@'' \<and> v = ''@@'' \<and> m = CHR ''-'' \<and> p = CHR ''+'' then
            (case (read_span a, read_span b) of (Some x, Some y) \<Rightarrow> Some (x, y) | _ \<Rightarrow> None)
          else None
      | _ \<Rightarrow> None)"

function read_body :: "nat \<Rightarrow> nat \<Rightarrow> string \<Rightarrow> (diff_op list \<times> string) option" where
  "read_body na nb s =
     (if na = 0 \<and> nb = 0 then Some ([], s)
      else (case read_line s of
          None \<Rightarrow> None
        | Some (l, rest) \<Rightarrow>
            (case l of
               [] \<Rightarrow> None
             | k # x \<Rightarrow>
                 if k = CHR '' '' \<and> 0 < na \<and> 0 < nb then
                   map_option (apfst (Cons (Op k x))) (read_body (na - 1) (nb - 1) rest)
                 else if k = CHR ''-'' \<and> 0 < na then
                   map_option (apfst (Cons (Op k x))) (read_body (na - 1) nb rest)
                 else if k = CHR ''+'' \<and> 0 < nb then
                   map_option (apfst (Cons (Op k x))) (read_body na (nb - 1) rest)
                 else None)))"
  by pat_completeness auto
termination
  by (relation "measure (\<lambda>(na, nb, s). na + nb)") auto

declare read_body.simps [simp del]

text \<open>As many hunks as there are, with fuel for the number of bytes: a hunk has at least one.\<close>

fun read_hunks :: "nat \<Rightarrow> string \<Rightarrow> hunk list option" where
  "read_hunks 0 s = (if s = [] then Some [] else None)"
| "read_hunks (Suc f) s =
     (if s = [] then Some []
      else (case read_line s of
          None \<Rightarrow> None
        | Some (l, rest) \<Rightarrow>
            (case read_header l of
               None \<Rightarrow> None
             | Some ((a, na), b, nb) \<Rightarrow>
                 (case read_body (nat na) (nat nb) rest of
                    None \<Rightarrow> None
                  | Some (body, rest') \<Rightarrow>
                      map_option (Cons \<lparr>aStart = a, bStart = b, aCount = na, bCount = nb, hunk_body = body\<rparr>)
                        (read_hunks f rest')))))"

definition read_patch :: "string \<Rightarrow> (string \<times> string \<times> hunk list) option" where
  "read_patch s =
     (case read_line s of
        None \<Rightarrow> None
      | Some (l1, s1) \<Rightarrow>
          (case read_line s1 of
             None \<Rightarrow> None
           | Some (l2, s2) \<Rightarrow>
               if prefix ''--- '' l1 \<and> prefix ''+++ '' l2 then
                 map_option (\<lambda>hs. (drop 4 l1, drop 4 l2, hs)) (read_hunks (length s2) s2)
               else None))"

lemma read_line_append: "NL \<notin> set l \<Longrightarrow> read_line (l @ NL # rest) = Some (l, rest)"
  by (simp add: read_line_def)

lemma read_number_str: "0 \<le> i \<Longrightarrow> read_number (int_str i) = Some i"
  by (simp add: read_number_def int_str_def)

lemma int_str_free:
  assumes "0 \<le> i"
  shows "CHR '','' \<notin> set (int_str i)" "CHR '' '' \<notin> set (int_str i)" "NL \<notin> set (int_str i)"
  using assms nat_str_notin by (simp_all add: int_str_def NL_def)

lemma read_span_span: "1 \<le> a \<Longrightarrow> 0 \<le> c \<Longrightarrow> read_span (span a c) = Some (a, c)"
proof -
  assume a: "1 \<le> a" and c: "0 \<le> c"
  have z: "'',0'' = CHR '','' # int_str 0" by code_simp
  consider "c = 0" | "c = 1" | "c \<noteq> 0" "c \<noteq> 1" by blast
  then show ?thesis
  proof cases
    case 1
    have "Cut CHR '','' (int_str (a - 1) @ CHR '','' # int_str 0) = (int_str (a - 1), int_str 0, True)"
      using a int_str_free(1) by (intro Cut_append) simp
    then show ?thesis using a 1 by (simp add: read_span_def span_def z read_number_str del: append_Cons)
  next
    case 2
    then show ?thesis using a int_str_free(1)[of a] by (simp add: read_span_def span_def read_number_str)
  next
    case 3
    have "Cut CHR '','' (int_str a @ CHR '','' # int_str c) = (int_str a, int_str c, True)"
      using a int_str_free(1) by (intro Cut_append) simp
    then show ?thesis using a c 3 by (simp add: read_span_def span_def read_number_str)
  qed
qed

lemma span_free: "1 \<le> a \<Longrightarrow> 0 \<le> c \<Longrightarrow> CHR '' '' \<notin> set (span a c) \<and> NL \<notin> set (span a c)"
  using int_str_free[of a] int_str_free[of "a - 1"] int_str_free[of c] by (auto simp: span_def NL_def)

definition hunk_header :: "hunk \<Rightarrow> string" where
  "hunk_header h = ''@@ -'' @ span (aStart h) (aCount h) @ '' +'' @ span (bStart h) (bCount h) @ '' @@''"

definition hunk_ok :: "hunk \<Rightarrow> bool" where
  "hunk_ok h \<longleftrightarrow> 1 \<le> aStart h \<and> 1 \<le> bStart h \<and> kinds_ok (hunk_body h) \<and>
     aCount h = a_count (hunk_body h) \<and> bCount h = b_count (hunk_body h) \<and>
     (\<forall>x\<in>set (hunk_body h). NL \<notin> set (line_text x))"

lemma counts_nonneg: "0 \<le> a_count run" "0 \<le> b_count run"
  by (simp_all add: a_count_def b_count_def)

lemma read_header_hunk:
  assumes "hunk_ok h"
  shows "read_header (hunk_header h) = Some ((aStart h, aCount h), bStart h, bCount h)" "NL \<notin> set (hunk_header h)"
proof -
  let ?a = "span (aStart h) (aCount h)" and ?b = "span (bStart h) (bCount h)"
  have a: "CHR '' '' \<notin> set ?a \<and> NL \<notin> set ?a" "read_span ?a = Some (aStart h, aCount h)"
    and b: "CHR '' '' \<notin> set ?b \<and> NL \<notin> set ?b" "read_span ?b = Some (bStart h, bCount h)"
    using assms counts_nonneg by (auto simp: hunk_ok_def intro!: span_free read_span_span)
  have "Split CHR '' '' (hunk_header h) = [''@@'', CHR ''-'' # ?a, CHR ''+'' # ?b, ''@@'']"
    using Split_append[of "CHR '' ''" "CHR ''-'' # ?a"] Split_append[of "CHR '' ''" "CHR ''+'' # ?b"] a b
    by (simp add: hunk_header_def)
  then show "read_header (hunk_header h) = Some ((aStart h, aCount h), bStart h, bCount h)"
    using a b by (simp add: read_header_def)
  show "NL \<notin> set (hunk_header h)" using a b by (auto simp: hunk_header_def NL_def)
qed

lemma read_body_lines:
  "kinds_ok run \<Longrightarrow> \<forall>x\<in>set run. NL \<notin> set (line_text x) \<Longrightarrow>
   read_body (nat (a_count run)) (nat (b_count run))
     (concat (map (\<lambda>x. line_kind x # line_text x @ [NL]) run) @ rest) = Some (run, rest)"
proof (induction run)
  case Nil
  then show ?case by (simp add: read_body.simps a_count_def b_count_def)
next
  case (Cons x run)
  obtain k l where x: "x = Op k l" by (cases x)
  have k: "k = CHR '' '' \<or> k = CHR ''-'' \<or> k = CHR ''+''" using Cons.prems by (auto simp: x)
  have nl: "NL \<notin> set l" using Cons.prems by (simp add: x)
  have line: "read_line (c # l @ NL # s) = Some (c # l, s)" if "c \<noteq> NL" for c s
    using read_line_append[of "c # l"] nl that by simp
  have marks: "CHR '' '' \<noteq> NL" "CHR ''-'' \<noteq> NL" "CHR ''+'' \<noteq> NL" by (simp_all add: NL_def)
  let ?na = "nat (a_count run)" and ?nb = "nat (b_count run)"
    and ?s = "concat (map (\<lambda>x. line_kind x # line_text x @ [NL]) run) @ rest"
  have n: "nat (a_count (x # run)) = (if k = CHR ''+'' then ?na else Suc ?na)"
    "nat (b_count (x # run)) = (if k = CHR ''-'' then ?nb else Suc ?nb)"
    using k by (auto simp: x a_count_def b_count_def)
  have IH: "read_body ?na ?nb ?s = Some (run, rest)" using Cons by simp
  have "read_body (if k = CHR ''+'' then ?na else Suc ?na) (if k = CHR ''-'' then ?nb else Suc ?nb) (k # l @ NL # ?s) =
      Some (Op k l # run, rest)"
    using k IH by (elim disjE; subst read_body.simps; simp add: line marks)
  moreover have "concat (map (\<lambda>x. line_kind x # line_text x @ [NL]) (x # run)) @ rest = k # l @ NL # ?s"
    by (simp add: x)
  ultimately show ?case by (simp only: n) (simp only: x)
qed

lemma read_hunks_text:
  assumes "list_all hunk_ok hs" and "length hs \<le> f"
  shows "read_hunks f (concat (map hunk_text hs)) = Some hs"
  using assms
proof (induction hs arbitrary: f)
  case Nil
  then show ?case by (cases f) auto
next
  case (Cons h hs)
  obtain g where f: "f = Suc g" "length hs \<le> g" using Cons.prems(2) by (cases f) auto
  let ?body = "concat (map (\<lambda>x. line_kind x # line_text x @ [NL]) (hunk_body h))"
  have t: "concat (map hunk_text (h # hs)) = hunk_header h @ NL # ?body @ concat (map hunk_text hs)"
    by (simp add: hunk_text_def hunk_header_def)
  have ok: "hunk_ok h" using Cons.prems by simp
  note hd = read_header_hunk[OF ok]
  have body: "read_body (nat (aCount h)) (nat (bCount h)) (?body @ concat (map hunk_text hs)) =
      Some (hunk_body h, concat (map hunk_text hs))"
    using read_body_lines[of "hunk_body h"] ok by (simp add: hunk_ok_def)
  have IH: "read_hunks g (concat (map hunk_text hs)) = Some hs"
    by (rule Cons.IH) (use Cons.prems f in auto)
  show ?case
    unfolding t f(1) by (simp add: read_line_append[OF hd(2)] hd(1) body IH)
qed

lemma hunk_loop_ok:
  assumes "1 \<le> al" "1 \<le> bl" "kinds_ok (map fst xs)" "\<forall>x\<in>fst ` set xs. NL \<notin> set (line_text x)"
  shows "list_all hunk_ok (hunk_loop xs al bl)"
  using assms
proof (induction xs al bl rule: hunk_loop.induct)
  case (2 x rest al bl)
  then show ?case using counts_nonneg[of "[x]"] by simp
next
  case (3 x rest al bl)
  define run where "run = x # map fst (takeWhile snd rest)"
  have ok: "kinds_ok run" "kinds_ok (map fst (dropWhile snd rest))"
    using "3.prems"(3) kinds_ok_split[of rest snd] by (auto simp: run_def)
  have nl: "\<forall>y\<in>set run. NL \<notin> set (line_text y)" "\<forall>y\<in>fst ` set (dropWhile snd rest). NL \<notin> set (line_text y)"
    using "3.prems"(4) by (auto simp: run_def dest!: set_takeWhileD set_dropWhileD)
  have "list_all hunk_ok (hunk_loop (dropWhile snd rest) (al + a_count run) (bl + b_count run))"
    by (rule "3.IH"[OF run_def]) (use "3.prems"(1,2) counts_nonneg[of run] ok nl in simp_all)
  moreover have "hunk_ok \<lparr>aStart = al, bStart = bl, aCount = a_count run, bCount = b_count run, hunk_body = run\<rparr>"
    using "3.prems"(1,2) ok nl by (simp add: hunk_ok_def)
  ultimately show ?case by (simp add: run_def[symmetric] Let_def)
qed simp

lemma splitLines_free: "l \<in> set (splitLines s) \<Longrightarrow> NL \<notin> set l"
  using Split_free by (auto simp: splitLines_def split: if_splits)

lemma ops_text: "kinds_ok ops \<Longrightarrow> x \<in> set ops \<Longrightarrow> line_text x \<in> set (old_lines ops) \<union> set (new_lines ops)"
  by (auto simp: view_defs list_all_iff)

lemma hunk_list_ok: "list_all hunk_ok (hunk_list (diffLines (splitLines s) (splitLines t)) ctx)"
proof -
  let ?ops = "diffLines (splitLines s) (splitLines t)"
  have "kinds_ok ?ops" using diffLines_views by blast
  then have "NL \<notin> set (line_text x)" if "x \<in> set ?ops" for x
    using ops_text[of ?ops x] that diffLines_views[of "splitLines s" "splitLines t"] splitLines_free by auto
  then show ?thesis
    using diffLines_views[of "splitLines s" "splitLines t"]
    by (auto simp: hunk_list_def in_set_zip intro!: hunk_loop_ok)
qed

lemma length_hunk_texts: "length hs \<le> length (concat (map hunk_text hs))"
  by (induction hs) (auto simp: hunk_text_def)

lemma read_patch_UnifiedDiff:
  assumes "NL \<notin> set la" and "NL \<notin> set lb" and "UnifiedDiff s t la lb ctx \<noteq> []"
  shows "read_patch (UnifiedDiff s t la lb ctx) =
    Some (la, lb, hunk_list (diffLines (splitLines s) (splitLines t)) ctx)"
proof -
  let ?hs = "hunk_list (diffLines (splitLines s) (splitLines t)) ctx"
  have u: "UnifiedDiff s t la lb ctx = (''--- '' @ la) @ NL # (''+++ '' @ lb) @ NL # concat (map hunk_text ?hs)"
    using assms(3) by (auto simp: UnifiedDiff_def hunks_def Let_def split: if_splits)
  have nl: "NL \<notin> set (''--- '' @ la)" "NL \<notin> set (''+++ '' @ lb)" using assms(1,2) by (auto simp: NL_def)
  show ?thesis
    unfolding u read_patch_def read_line_append[OF nl(1)]
    using read_line_append[OF nl(2)] read_hunks_text[OF hunk_list_ok length_hunk_texts] by simp
qed

section \<open>Properties\<close>

text \<open>
  C25. What \<open>lsctl diff\<close>, \<open>set --dry-run\<close> and the UI print is a patch. The text is empty exactly
  when the two sides have the same lines, which is so for texts that differ only in the final
  newline. Otherwise a reader finds in it the two labels (which are one line each) and hunks
  whose headers and marked lines, applied to the old lines with the positions and counts of
  both sides checked, give exactly the new lines. This holds for every number of context lines
  that together with the lengths of the texts fits into an \<open>int\<close>, as \<open>DiffContext\<close>, the only
  one used, does for all texts below the limit.
\<close>

theorem diff_is_a_patch:
  assumes "diff_fits s t ctx" and "NL \<notin> set la" and "NL \<notin> set lb"
  shows "(UnifiedDiff s t la lb ctx = [] \<longleftrightarrow> splitLines s = splitLines t) \<and>
    (splitLines s = splitLines t \<or>
      (\<exists>hs. read_patch (UnifiedDiff s t la lb ctx) = Some (la, lb, hs) \<and>
        apply_hunks 1 1 hs (splitLines s) = Some (splitLines t)))"
  using read_patch_UnifiedDiff[OF assms(2,3)] UnifiedDiff_empty[OF assms(1)] hunk_list_patch[OF assms(1)] by blast

theorem diff_is_a_patch_witness:
  "UnifiedDiff (''a'' @ [NL]) ''a'' ''k'' ''k@new'' 3 = [] \<and>
   (\<exists>hs. read_patch (UnifiedDiff (''a'' @ [NL]) ''b'' ''k'' ''k@new'' 3) = Some (''k'', ''k@new'', hs) \<and>
     apply_hunks 1 1 hs [''a''] = Some [''b''])"
proof -
  have "splitLines (''a'' @ [NL]) = [''a'']" "splitLines ''a'' = [''a'']" "splitLines ''b'' = [''b'']"
    by (simp_all add: splitLines_def NL_def TrimSuffix_def suffix_def)
  moreover have "diff_fits (''a'' @ [NL]) ''a'' 3" "diff_fits (''a'' @ [NL]) ''b'' 3"
    by (simp_all add: diff_fits_def max_int64_def)
  moreover have "NL \<notin> set ''k''" "NL \<notin> set ''k@new''" by (simp_all add: NL_def)
  ultimately show ?thesis
    using diff_is_a_patch[of "''a'' @ [NL]" "''a''" 3 "''k''" "''k@new''"]
      diff_is_a_patch[of "''a'' @ [NL]" "''b''" 3 "''k''" "''k@new''"] by simp
qed

text \<open>
  C26. within the size limit the diff is a shortest one: the lines it shows as unchanged are a
  common subsequence of the two sides, and no common subsequence is longer. The 32-bit table
  cells never overflow there.
\<close>

theorem diff_is_minimal:
  assumes "trim_head a b = (h, a1, b1)" and "trim_tail a1 b1 = (t, a2, b2)"
    and "length a2 * length b2 \<le> maxDiffCells"
  shows "subseq (same_lines (diffLines a b)) a \<and> subseq (same_lines (diffLines a b)) b \<and>
    (\<forall>zs. subseq zs a \<and> subseq zs b \<longrightarrow> length zs \<le> length (same_lines (diffLines a b)))"
  using diffLines_optimal[OF assms] same_lines_common[of "diffLines a b"] diffLines_views[of a b]
  by auto

theorem diff_is_minimal_witness:
  "length [''h'', ''y'', ''t''] \<le>
   length (same_lines (diffLines [''h'', ''x'', ''y'', ''t''] [''h'', ''y'', ''z'', ''t'']))"
proof -
  have "trim_head [''h'', ''x'', ''y'', ''t''] [''h'', ''y'', ''z'', ''t''] =
      ([Op (CHR '' '') ''h''], [''x'', ''y'', ''t''], [''y'', ''z'', ''t''])"
    by simp
  moreover have "trim_tail [''x'', ''y'', ''t''] [''y'', ''z'', ''t''] =
      ([Op (CHR '' '') ''t''], [''x'', ''y''], [''y'', ''z''])"
    by (simp add: trim_tail.simps)
  moreover have "length [''x'', ''y''] * length [''y'', ''z''] \<le> maxDiffCells"
    by (simp add: maxDiffCells_def push_bit_eq_mult)
  moreover have "subseq [''h'', ''y'', ''t''] [''h'', ''x'', ''y'', ''t'']"
    "subseq [''h'', ''y'', ''t''] [''h'', ''y'', ''z'', ''t'']" by simp_all
  ultimately show ?thesis using diff_is_minimal by blast
qed

end
