(* ===== verification/Lsctl_Command_Props.thy ===== *)
theory Lsctl_Command_Props
  imports Lsctl_Command Lsctl_Contract Lsctl_Diff_Props
begin

text \<open>
  What the commands of \<open>lsctl\<close> promise: the same output and exit code through either backend, dry
  runs that write nothing, write commands that leave standard output empty, and values that
  are printed as they were set.
\<close>

section \<open>The two backends as records\<close>

definition db_be :: "dbenv \<Rightarrow> (string \<Rightarrow> string list) \<Rightarrow> Dialect \<Rightarrow> string \<Rightarrow> db backend" where
  "db_be e sqls dia desc =
     \<lparr>beGet = (\<lambda>k d. (db_get e k d, d)), beList = (\<lambda>ps d. (db_list e dia ps d, d)),
      beSet = db_set e dia, beDelete = db_delete e dia, beHistory = (\<lambda>k n d. (db_history e k n d, d)),
      beRollback = db_rollback e dia, beMigrate = db_migrate e sqls dia, beDescribe = desc\<rparr>"

definition http_be :: "timecodec \<Rightarrow> 's net \<Rightarrow> string \<Rightarrow> 's backend" where
  "http_be tm net base =
     \<lparr>beGet = http_get tm net, beList = http_list net, beSet = http_set net, beDelete = http_delete net,
      beHistory = http_history tm net, beRollback = http_rollback net, beMigrate = http_migrate,
      beDescribe = base\<rparr>"

section \<open>Running a command\<close>

definition io0 :: io where "io0 = \<lparr>stdout = [], stderr = []\<rparr>"

text \<open>What a user sees: the exit code and the output.\<close>

definition seen :: "(cmd_error + unit) \<times> 's \<times> io \<Rightarrow> nat \<times> io" where
  "seen r = (exit_status (fst r), snd (snd r))"

text \<open>
  Two computations look the same from two states; \<open>alike\<close> relates their results: the same value
  and output, or errors with the same exit code.
\<close>

definition same_error :: "cmd_error \<Rightarrow> cmd_error \<Rightarrow> bool" where
  "same_error a b \<longleftrightarrow> is_not_found a = is_not_found b"

definition alike :: "(cmd_error + 'a) \<times> 's \<times> io \<Rightarrow> (cmd_error + 'a) \<times> 's \<times> io \<Rightarrow> bool" where
  "alike a b \<longleftrightarrow> snd (snd a) = snd (snd b) \<and>
     (case (fst a, fst b) of
        (Inr x, Inr y) \<Rightarrow> x = y \<and> fst (snd a) = fst (snd b)
      | (Inl x, Inl y) \<Rightarrow> same_error x y
      | _ \<Rightarrow> False)"

lemma alike_seen: "alike a b \<Longrightarrow> seen a = seen b"
  by (auto simp: alike_def seen_def exit_status_def same_error_def split: sum.splits)

lemma alike_refl [simp]: "alike a a"
  by (auto simp: alike_def same_error_def split: sum.splits)

lemma alike_andThen:
  assumes "alike (m st) (m' st')"
    and "\<And>x u. m st = (Inr x, u) \<Longrightarrow> m' st' = (Inr x, u) \<Longrightarrow> alike (f x u) (f' x u)"
  shows "alike (andThen m f st) (andThen m' f' st')"
proof -
  obtain a s o1 where m: "m st = (a, s, o1)" by (cases "m st") auto
  obtain b s' o2 where m': "m' st' = (b, s', o2)" by (cases "m' st'") auto
  show ?thesis
    using assms m m' by (cases a; cases b) (auto simp: alike_def andThen_def)
qed

text \<open>A call of operations with the same outcome that lead to the same state.\<close>

lemma alike_call:
  assumes "outcome (fst (g s)) = outcome (fst (h s))" and "\<And>x. fst (h s) = Inr x \<Longrightarrow> snd (g s) = snd (h s)"
  shows "alike (call g (s, out)) (call h (s, out))"
proof -
  obtain a u where g: "g s = (a, u)" by (cases "g s")
  obtain b v where h: "h s = (b, v)" by (cases "h s")
  show ?thesis
    using assms by (cases a; cases b)
      (auto simp: g h call_def alike_def same_error_def is_not_found_def outcome_def split: if_splits)
qed

lemma same_write_call:
  "same_write (g d) (h d) \<Longrightarrow> alike (call g (d, out)) (call h (d, out))"
  by (rule alike_call) (auto simp: same_write_def)

section \<open>Both backends, one behaviour\<close>

lemma http_be_get:
  assumes "http_ok tm e c d" and "plain_key k"
  shows "alike (call (beGet (http_be tm (serve tm ne dia w e) base) k) (d, out))
    (call (beGet (db_be e sqls dia desc) k) (d, out))"
  using get_agrees[OF http_okD(2,3)[OF assms(1)] assms(2), of ne dia w]
  by (intro alike_call) (auto simp: http_be_def db_be_def)

lemma http_be_history:
  assumes "http_ok tm e c d" and "plain_key k" and "n \<noteq> 0" "n \<le> max_int64"
  shows "alike (call (beHistory (http_be tm (serve tm ne dia w e) base) k n) (d, out))
    (call (beHistory (db_be e sqls dia desc) k n) (d, out))"
  using history_agrees[OF http_okD(1,2,3)[OF assms(1)] assms(2-), of ne dia w]
  by (intro alike_call) (auto simp: http_be_def db_be_def)

text \<open>Reading leaves the database alone, so a second call finds it as the first did.\<close>

lemma db_be_reads:
  "call (beGet (db_be e sqls dia desc) k) (d, out) = (Inr x, u) \<Longrightarrow> u = (d, out)"
  "call (beHistory (db_be e sqls dia desc) k n) (d, out) = (Inr hs, u) \<Longrightarrow> u = (d, out)"
  by (auto simp: call_def db_be_def split: sum.splits)

lemma findVersion_alike:
  assumes "http_ok tm e c d" and "plain_key k"
  shows "alike (findVersion (http_be tm (serve tm ne dia w e) base) k v (d, out))
    (findVersion (db_be e sqls dia desc) k v (d, out))"
  unfolding findVersion_def
  by (rule alike_andThen, rule http_be_history[OF assms]) (auto simp: max_int64_def split: option.splits)

lemma findVersion_reads:
  "findVersion (db_be e sqls dia desc) k v (d, out) = (Inr h, u) \<Longrightarrow> u = (d, out)"
  by (auto simp: findVersion_def elim!: andThen_InrE dest!: db_be_reads split: option.splits)

lemma getCmd_alike:
  assumes "http_ok tm e c d" and "plain_key k"
  shows "alike (getCmd re r (http_be tm (serve tm ne dia w e) base) k v (d, out))
    (getCmd re r (db_be e sqls dia desc) k v (d, out))"
proof (cases "0 < v")
  case True
  show ?thesis
    unfolding getCmd_def if_P[OF True] by (rule alike_andThen, rule findVersion_alike[OF assms]) simp
next
  case False
  show ?thesis
    unfolding getCmd_def if_not_P[OF False] by (rule alike_andThen, rule http_be_get[OF assms]) simp
qed

lemma historyCmd_alike:
  assumes "http_ok tm e c d" and "plain_key k" and "n \<le> max_int64"
  shows "alike (historyCmd re r (http_be tm (serve tm ne dia w e) base) k n (d, out))
    (historyCmd re r (db_be e sqls dia desc) k n (d, out))"
  unfolding historyCmd_def
  by (rule alike_andThen, rule http_be_history[OF assms(1,2)]) (use assms(3) in \<open>auto simp: max_int64_def\<close>)

lemma diff_right_alike:
  assumes "http_ok tm e c d" and "plain_key k"
  shows "alike (diff_right (http_be tm (serve tm ne dia w e) base) k a2 (d, out))
    (diff_right (db_be e sqls dia desc) k a2 (d, out))"
proof (cases a2)
  case None
  then show ?thesis
    unfolding diff_right_def by simp (rule alike_andThen, rule http_be_get[OF assms], simp)
next
  case (Some a)
  show ?thesis
    unfolding diff_right_def Some option.case
  proof (rule alike_andThen)
    fix v u
    assume "lift_sum (parseVersion a) (d, out) = (Inr v, u)"
    then have u: "u = (d, out)" by (auto simp: lift_sum_def split: sum.splits)
    show "alike (andThen (findVersion (http_be tm (serve tm ne dia w e) base) k v) (\<lambda>h. ret (aValue h, at_version k v)) u)
        (andThen (findVersion (db_be e sqls dia desc) k v) (\<lambda>h. ret (aValue h, at_version k v)) u)"
      unfolding u by (rule alike_andThen, rule findVersion_alike[OF assms]) simp
  qed simp
qed

lemma diffCmd_alike:
  assumes "http_ok tm e c d" and "plain_key k"
  shows "alike (diffCmd r (http_be tm (serve tm ne dia w e) base) k a1 a2 (d, out))
    (diffCmd r (db_be e sqls dia desc) k a1 a2 (d, out))"
  unfolding diffCmd_def
proof (rule alike_andThen)
  fix v u
  assume "lift_sum (parseVersion a1) (d, out) = (Inr v, u)"
  then have u: "u = (d, out)" by (auto simp: lift_sum_def split: sum.splits)
  let ?print = "\<lambda>be left. andThen (diff_right be k a2) (\<lambda>right. diff_print r k v left right)"
  show "alike (andThen (findVersion (http_be tm (serve tm ne dia w e) base) k v) (?print (http_be tm (serve tm ne dia w e) base)) u)
     (andThen (findVersion (db_be e sqls dia desc) k v) (?print (db_be e sqls dia desc)) u)"
    unfolding u
  proof (rule alike_andThen, rule findVersion_alike[OF assms])
    fix left u'
    assume "findVersion (db_be e sqls dia desc) k v (d, out) = (Inr left, u')"
    then have u': "u' = (d, out)" by (rule findVersion_reads)
    show "alike (?print (http_be tm (serve tm ne dia w e) base) left u') (?print (db_be e sqls dia desc) left u')"
      unfolding u' by (rule alike_andThen, rule diff_right_alike[OF assms]) simp
  qed
qed simp

lemma write_alike:
  assumes "http_ok tm e (change r comment) d" and "plain_key k"
  shows "alike (rmCmd r (http_be tm (serve tm ne dia w e) base) comment k (d, out))
      (rmCmd r (db_be e sqls dia desc) comment k (d, out))"
    "target \<le> max_int64 \<Longrightarrow> alike (rollbackCmd r (http_be tm (serve tm ne dia w e) base) target comment k (d, out))
      (rollbackCmd r (db_be e sqls dia desc) target comment k (d, out))"
    "alike (andThen (call (beSet (http_be tm (serve tm ne dia w e) base) k v f (change r comment))) g (d, out))
      (andThen (call (beSet (db_be e sqls dia desc) k v f (change r comment))) g (d, out))"
proof -
  note D = http_okD[OF assms(1)]
  have del: "alike (call (beDelete (http_be tm (serve tm ne dia w e) base) k (change r comment)) (d, out))
      (call (beDelete (db_be e sqls dia desc) k (change r comment)) (d, out))"
    unfolding http_be_def db_be_def by simp (rule same_write_call, rule delete_agrees[OF D(3) assms(2) D(4)])
  show "alike (rmCmd r (http_be tm (serve tm ne dia w e) base) comment k (d, out))
      (rmCmd r (db_be e sqls dia desc) comment k (d, out))"
    unfolding rmCmd_def by (rule alike_andThen, rule del) simp
  show "alike (rollbackCmd r (http_be tm (serve tm ne dia w e) base) target comment k (d, out))
      (rollbackCmd r (db_be e sqls dia desc) target comment k (d, out))" if "target \<le> max_int64"
  proof (cases "target \<le> 0")
    case False
    then have "alike (call (beRollback (http_be tm (serve tm ne dia w e) base) k target (change r comment)) (d, out))
        (call (beRollback (db_be e sqls dia desc) k target (change r comment)) (d, out))"
      unfolding http_be_def db_be_def
      by simp (rule same_write_call, rule rollback_agrees[OF D(3) assms(2) D(4) _ that], simp)
    then show ?thesis unfolding rollbackCmd_def if_not_P[OF False] by (rule alike_andThen) simp
  qed (simp add: rollbackCmd_def)
  have "alike (call (beSet (http_be tm (serve tm ne dia w e) base) k v f (change r comment)) (d, out))
      (call (beSet (db_be e sqls dia desc) k v f (change r comment)) (d, out))"
    unfolding http_be_def db_be_def by simp (rule same_write_call, rule set_agrees[OF D(1,3) assms(2) D(4)])
  then show "alike (andThen (call (beSet (http_be tm (serve tm ne dia w e) base) k v f (change r comment))) g (d, out))
      (andThen (call (beSet (db_be e sqls dia desc) k v f (change r comment))) g (d, out))" by (rule alike_andThen) simp
qed

lemma previewSet_alike:
  assumes "http_ok tm e c d" and "plain_key k"
  shows "alike (previewSet r (http_be tm (serve tm ne dia w e) base) k v f (d, out))
    (previewSet r (db_be e sqls dia desc) k v f (d, out))"
proof -
  have agree: "outcome (fst (http_get tm (serve tm ne dia w e) k d)) = outcome (db_get e k d)"
    "snd (http_get tm (serve tm ne dia w e) k d) = d"
    using get_agrees[OF http_okD(2,3)[OF assms(1)] assms(2), of ne dia w] by auto
  obtain a where h: "http_get tm (serve tm ne dia w e) k d = (a, d)"
    using agree(2) by (cases "http_get tm (serve tm ne dia w e) k d") auto
  have got: "call_try (beGet (http_be tm (serve tm ne dia w e) base) k) (d, out) = (Inr a, (d, out))"
    "call_try (beGet (db_be e sqls dia desc) k) (d, out) = (Inr (db_get e k d), (d, out))"
    by (simp_all add: call_try_def http_be_def db_be_def h)
  have same: "a = db_get e k d \<or> (\<exists>x y. a = Inl x \<and> db_get e k d = Inl y \<and> x \<noteq> BackendNotFound \<and> y \<noteq> BackendNotFound)"
    using agree(1) h by (auto simp: outcome_def split: sum.splits if_splits)
  then show ?thesis
  proof
    assume "a = db_get e k d"
    then show ?thesis unfolding previewSet_def by (simp add: got)
  next
    assume "\<exists>x y. a = Inl x \<and> db_get e k d = Inl y \<and> x \<noteq> BackendNotFound \<and> y \<noteq> BackendNotFound"
    then show ?thesis
      unfolding previewSet_def by (auto simp: got alike_def same_error_def is_not_found_def)
  qed
qed

lemma setCmd_alike:
  assumes "http_ok tm e (change r comment) d" and "plain_key (args ! 0)"
  shows "alike (setCmd env r (http_be tm (serve tm ne dia w e) base) file f comment dry args (d, out))
    (setCmd env r (db_be e sqls dia desc) file f comment dry args (d, out))"
proof (cases "readValue env file args")
  case (Inl err)
  then show ?thesis by (simp add: setCmd_def Let_def lift_sum_def)
next
  case (Inr vs)
  obtain v src where vs: "vs = (v, src)" by (cases vs)
  let ?f = "if f = [] then inferFormat src v else f"
  show ?thesis
  proof (cases "validFormat ?f \<and> \<not> dry")
    case True
    then show ?thesis
      using write_alike(3)[OF assms, of ne dia w base v ?f "\<lambda>res. reportWrite r ''wrote'' (args ! 0) ?f res" out sqls desc]
      by (simp add: setCmd_def Let_def lift_sum_def Inr vs)
  next
    case False
    then show ?thesis
      using previewSet_alike[OF assms, of r ne dia w base v ?f out sqls desc]
      by (simp add: setCmd_def Let_def lift_sum_def Inr vs)
  qed
qed

lemma listCmd_alike:
  assumes "http_ok tm e c d" and "meta (tabs d) = Some n" "n \<le> max_int64"
    and "wReady w \<Longrightarrow> 0 \<le> wRev w" and "length ps \<le> maxPrefixes"
  shows "alike (listCmd r (http_be tm (serve tm ne dia w e) base) ps (d, out))
    (listCmd r (db_be e sqls dia desc) ps (d, out))"
proof -
  note D = http_okD[OF assms(1)]
  have "alike (call (beList (http_be tm (serve tm ne dia w e) base) ps) (d, out))
      (call (beList (db_be e sqls dia desc) ps) (d, out))"
    using list_agrees[OF D(1,3) assms(2,3,4,5), of tm ne dia] by (intro alike_call) (auto simp: http_be_def db_be_def)
  then show ?thesis unfolding listCmd_def by (rule alike_andThen) simp
qed

section \<open>What commands print\<close>

lemma andThen_stdout:
  assumes "\<And>st. stdout (snd (snd (m st))) = stdout (snd st)"
    and "\<And>x st. stdout (snd (snd (f x st))) = stdout (snd st)"
  shows "stdout (snd (snd (andThen m f st))) = stdout (snd st)"
  using assms(1)[of st] assms(2) by (auto simp: andThen_def split: prod.split sum.split)

lemma quiet [simp]:
  "stdout (snd (snd (call g st))) = stdout (snd st)"
  "stdout (snd (snd (lift_sum x st))) = stdout (snd st)"
  "stdout (snd (snd (print_err i st))) = stdout (snd st)"
  "stdout (snd (snd (EmitJSON print_err j st))) = stdout (snd st)"
  "stdout (snd (snd (reportWrite r a k f res st))) = stdout (snd st)"
  by (auto simp: call_def lift_sum_def print_err_def EmitJSON_def andThen_def reportWrite_def
      split: prod.split sum.split option.split)

lemma suffix_value_text: "suffix [NL] (value_text v) \<and> (value_text v = v \<or> value_text v = v @ [NL])"
  by (auto simp: value_text_def)

lemma inferFormat_valid: "validFormat (inferFormat src v)"
  by (auto simp: inferFormat_def validFormat_def Let_def)

section \<open>Properties\<close>

text \<open>
  A command sees no difference between the two backends: \<open>get\<close>, \<open>history\<close>, \<open>diff\<close>, \<open>set\<close>
  (also as a dry run), \<open>rm\<close>, \<open>rollback\<close> and \<open>list\<close> print the same and exit with the same code
  through the server as on the database, whatever the flags, the version and the limit; code 4
  means that the key or the version is absent.
\<close>

theorem commands_agree:
  assumes "http_ok tm e (change r comment) d" and "plain_key key" and "limit \<le> max_int64" "target \<le> max_int64"
    and "args ! 0 = key" and "meta (tabs d) = Some n" "n \<le> max_int64"
    and "wReady w \<Longrightarrow> 0 \<le> wRev w" and "length ps \<le> maxPrefixes"
    and "h = http_be tm (serve tm ne dia w e) base" and "b = db_be e sqls dia desc"
  shows "seen (getCmd re r h key v (d, io0)) = seen (getCmd re r b key v (d, io0)) \<and>
    seen (historyCmd re r h key limit (d, io0)) = seen (historyCmd re r b key limit (d, io0)) \<and>
    seen (diffCmd r h key a1 a2 (d, io0)) = seen (diffCmd r b key a1 a2 (d, io0)) \<and>
    seen (setCmd env r h file f comment dry args (d, io0)) = seen (setCmd env r b file f comment dry args (d, io0)) \<and>
    seen (rmCmd r h comment key (d, io0)) = seen (rmCmd r b comment key (d, io0)) \<and>
    seen (rollbackCmd r h target comment key (d, io0)) = seen (rollbackCmd r b target comment key (d, io0)) \<and>
    seen (listCmd r h ps (d, io0)) = seen (listCmd r b ps (d, io0))"
  unfolding assms(10,11)
  using getCmd_alike[OF assms(1,2)] historyCmd_alike[OF assms(1-3)] diffCmd_alike[OF assms(1,2)]
    setCmd_alike[OF assms(1), of args] write_alike(1)[OF assms(1,2)] write_alike(2)[OF assms(1,2,4)]
    listCmd_alike[OF assms(1,6-9)] assms(2,5)
  by (intro conjI alike_seen) auto

definition flags0 :: flags where
  "flags0 = \<lparr>flServer = ''http://s'', flDSN = [], flDriver = [], flAuthor = ''ann'', flOutput = []\<rparr>"
definition re0 :: render_env where "re0 = \<lparr>reTime = tm0, reLocal = int_str\<rparr>"

lemma http_ok_db1: "http_ok tm0 env0 (change flags0 []) db1"
proof -
  have "valid_utf8 ''ann''" by (rule valid_utf8_ascii; simp)
  then show ?thesis
    using serving_db1 time_ok_tm0 by (simp add: http_ok_def db_ok_def change_def flags0_def)
qed

lemma plain_key_a: "plain_key ''app:a''"
  by (simp add: plain_key_def)

theorem commands_agree_witness:
  "seen (rmCmd flags0 (http_be tm0 (serve tm0 ne0 MySQL newRevisionWatcher env0) []) [] ''app:a'' (db1, io0)) =
   seen (rmCmd flags0 (db_be env0 (\<lambda>_. []) MySQL ''mysql'') [] ''app:a'' (db1, io0))"
proof -
  have "\<not> wReady newRevisionWatcher" by (simp add: newRevisionWatcher_def)
  then show ?thesis
    using commands_agree[OF http_ok_db1 plain_key_a, of 0 0 "[''app:a'']" 1 newRevisionWatcher "[]"]
    by (simp add: max_int64_def)
qed

text \<open>A document can be written exactly when its texts are valid UTF-8.\<close>

lemma quote_iff: "quote s = None \<longleftrightarrow> \<not> valid_utf8 s"
  by (simp add: valid_utf8_def quote_def)

lemma Marshal_dry_run:
  "Marshal (dry_run_doc key fmt ex ch d) = None \<longleftrightarrow> \<not> (valid_utf8 key \<and> valid_utf8 fmt \<and> valid_utf8 d)"
proof -
  have l: "valid_utf8 ''exists''" "valid_utf8 ''changed''" "valid_utf8 ''diff''" "valid_utf8 ''dry_run''"
    by (rule valid_utf8_ascii; simp)+
  have q: "\<exists>q. quote s = Some q" if "valid_utf8 s" for s using that quote_valid by blast
  note ls = q[OF l(1)] q[OF l(2)] q[OF l(3)] q[OF l(4)] q[OF valid_literal(1)] q[OF valid_literal(3)]
  show ?thesis
    using ls quote_iff[of key] quote_iff[of fmt] quote_iff[of d]
    by (auto simp: Marshal_def dry_run_doc_def split: option.split)
qed

text \<open>
  C30. A dry run writes nothing: whatever backend it is given, \<open>set --dry-run\<close> never calls a
  writing operation (its behaviour does not depend on them), and on a backend that reads
  without side effects it leaves the state as it was. For an existing value with \<open>-o json\<close> its
  receipt is printed exactly when key, format and diff are valid UTF-8, and it says \<open>changed\<close>
  exactly when the lines or the format differ; otherwise the command fails, and what has reached
  standard output is at most the beginning of that document. (The texts are below the size at
  which an \<open>int\<close> overflows.)
\<close>

theorem dry_run_writes_nothing:
  assumes "\<And>k s. snd (beGet be k s) = s" and "diff_fits (dValue c) v DiffContext"
    and "doc = dry_run_doc key fmt True (splitLines (dValue c) \<noteq> splitLines v \<or> dFormat c \<noteq> fmt) d"
    and "d = UnifiedDiff (dValue c) v (key @ ''@current'') (key @ ''@new'') DiffContext"
  shows "fst (snd (setCmd env r be file f comment True args st)) = fst st \<and>
    setCmd env r (be\<lparr>beSet := g1, beDelete := g2, beRollback := g3\<rparr>) file f comment True args st =
      setCmd env r be file f comment True args st \<and>
    (fst (beGet be key (fst st)) = Inr c \<and> flOutput r = OutJSON \<longrightarrow>
      previewSet r be key v fmt st =
        (if valid_utf8 key \<and> valid_utf8 fmt \<and> valid_utf8 d
         then (Inr (), (fst st, (snd st)\<lparr>stdout := stdout (snd st) @ [Document doc]\<rparr>))
         else (Inl EncodeFailed, (fst st, (snd st)\<lparr>stdout := stdout (snd st) @ [CutDocument doc]\<rparr>))))"
proof (intro conjI impI)
  have emit: "fst (snd (EmitJSON print j st)) = fst st" for j and st :: "'a \<times> io"
    by (auto simp: EmitJSON_def print_def andThen_def split: option.split)
  have preview: "fst (snd (previewSet r be k v fmt st)) = fst st" for k v fmt st
  proof -
    obtain a where "beGet be k (fst st) = (a, fst st)" using assms(1)[of k "fst st"] by (metis prod.collapse)
    then show ?thesis
      by (auto simp: previewSet_def andThen_def call_try_def print_def print_err_def emit Let_def split: sum.split)
  qed
  have lift: "snd (lift_sum x st) = st" for x :: "cmd_error + string \<times> string" and st :: "'a \<times> io"
    by (auto simp: lift_sum_def split: sum.split)
  show "fst (snd (setCmd env r be file f comment True args st)) = fst st"
    using preview lift[of "readValue env file args" st]
    by (auto simp: setCmd_def andThen_def Let_def split: prod.split sum.split)
  show "setCmd env r (be\<lparr>beSet := g1, beDelete := g2, beRollback := g3\<rparr>) file f comment True args st =
      setCmd env r be file f comment True args st"
    by (auto simp: setCmd_def previewSet_def Let_def andThen_def lift_sum_def split: prod.split sum.split)
  assume "fst (beGet be key (fst st)) = Inr c \<and> flOutput r = OutJSON"
  then have get: "beGet be key (fst st) = (Inr c, fst st)" and json: "pick r OutTable = OutJSON"
    using assms(1)[of key "fst st"] by (auto simp: prod_eq_iff pick_def cmp_Or_def)
  have "previewSet r be key v fmt st = EmitJSON print doc st"
    using UnifiedDiff_empty[OF assms(2)]
    by (simp add: previewSet_def call_try_def get json Let_def assms(3,4) andThen_def)
  then show "previewSet r be key v fmt st =
      (if valid_utf8 key \<and> valid_utf8 fmt \<and> valid_utf8 d
       then (Inr (), (fst st, (snd st)\<lparr>stdout := stdout (snd st) @ [Document doc]\<rparr>))
       else (Inl EncodeFailed, (fst st, (snd st)\<lparr>stdout := stdout (snd st) @ [CutDocument doc]\<rparr>)))"
    using Marshal_dry_run[of key fmt True "splitLines (dValue c) \<noteq> splitLines v \<or> dFormat c \<noteq> fmt" d, folded assms(3)]
    by (cases "Marshal doc") (auto simp: EmitJSON_def print_def andThen_def)
qed

theorem dry_run_writes_nothing_witness:
  "fst (snd (setCmd \<lparr>stdin = None, files = (\<lambda>_. None)\<rparr> flags0 (db_be env0 (\<lambda>_. []) MySQL ''mysql'') [] [] [] True [''app:a'', ''60s''] (db1, io0))) = db1 \<and>
   fst (previewSet (flags0\<lparr>flOutput := OutJSON\<rparr>) (db_be env0 (\<lambda>_. []) MySQL ''mysql'') ''app:a'' [CHR 0xFF] ''raw'' (db1, io0)) =
     Inl EncodeFailed"
proof -
  let ?be = "db_be env0 (\<lambda>_. []) MySQL ''mysql''" and ?inp = "\<lparr>stdin = None, files = (\<lambda>_. None)\<rparr>"
  let ?d = "UnifiedDiff ''30s'' [CHR 0xFF] ''app:a@current'' ''app:a@new'' DiffContext"
  obtain c where get: "fst (beGet ?be ''app:a'' db1) = Inr c" "dValue c = ''30s''"
    using ready_db1 by (simp add: db_be_def db_get_def Get_no_fault to_detail_def ready_def)
  have fits: "diff_fits (dValue c) [CHR 0xFF] DiffContext"
    by (simp add: get(2) diff_fits_def max_int64_def DiffContext_def)
  have "splitLines ''30s'' = [''30s'']" "splitLines [CHR 0xFF] = [[CHR 0xFF]]"
    by (simp_all add: splitLines_def TrimSuffix_def NL_def suffix_def)
  moreover have "diffLines [''30s''] [[CHR 0xFF]] = [Op CHR ''-'' ''30s'', Op CHR ''+'' [CHR 0xFF]]"
    by (simp add: diffLines_def trim_tail.simps diff_mid_def maxDiffCells_def push_bit_eq_mult lcsDiff_def walk.simps
        lcs_table_def tbl_cell_def tbl_at_def int32_def mark_def Let_def)
  moreover have "int_str 1 = ''1''" by code_simp
  ultimately have d: "?d = ''--- app:a@current'' @ [NL] @ ''+++ app:a@new'' @ [NL] @ ''@@ -1 +1 @@'' @ [NL] @
      ''-30s'' @ [NL] @ ''+'' @ [CHR 0xFF, NL]"
    by (simp add: UnifiedDiff_def hunks_def hunk_list_def keep_flags_def keep_around_def upto.simps int64_def
        DiffContext_def hunk_text_def a_count_def b_count_def span_def Let_def NL_def)
  have "\<not> valid_utf8 ?d"
    unfolding d NL_def by code_simp
  then show ?thesis
    using dry_run_writes_nothing[OF _ fits HOL.refl HOL.refl, of ?be ?inp flags0 "[]" "[]" "[]" "[''app:a'', ''60s'']" "(db1, io0)"]
      dry_run_writes_nothing[OF _ fits HOL.refl HOL.refl, of ?be ?inp "flags0\<lparr>flOutput := OutJSON\<rparr>" "[]" "[]" "[]" "[]" "(db1, io0)" _ _ _ "''app:a''" "''raw''"] get
    by (simp add: db_be_def)
qed

text \<open>
  A preview of the empty value for a key that does not exist says that nothing changes, although the
  write would create the key: both sides have no lines, and the format is compared only where the key
  exists.
\<close>

lemma dry_run_missing_key_unchanged:
  assumes "beGet be key (fst st) = (Inl BackendNotFound, fst st)" and "flOutput r = []"
  shows "previewSet r be key [] fmt st = print_err (note_unchanged key) st"
  using assms by (cases st) (simp add: previewSet_def call_try_def andThen_def UnifiedDiff_same pick_def cmp_Or_def OutTable_def OutJSON_def Let_def)

text \<open>
  Write commands leave standard output empty, with every backend, every output format and
  whether they succeed or fail: receipts and remarks go to standard error. And \<open>set\<close> hands the
  backend only the formats it knows: an inferred format always is one, another is refused
  before the backend is called.
\<close>

theorem write_commands_quiet:
  "stdout (snd (snd (setCmd env r be file f comment False args st))) = stdout (snd st) \<and>
   stdout (snd (snd (rmCmd r be comment key st))) = stdout (snd st) \<and>
   stdout (snd (snd (rollbackCmd r be target comment key st))) = stdout (snd st) \<and>
   stdout (snd (snd (migrateCmd be st))) = stdout (snd st) \<and>
   validFormat (inferFormat src v) \<and>
   setCmd env r (be\<lparr>beSet := \<lambda>k v f. if validFormat f then beSet be k v f else g k v f\<rparr>) file f comment False args st =
     setCmd env r be file f comment False args st"
proof (intro conjI)
  show "stdout (snd (snd (setCmd env r be file f comment False args st))) = stdout (snd st)"
    unfolding setCmd_def Let_def by (rule andThen_stdout) (auto intro!: andThen_stdout split: prod.split)
  show "stdout (snd (snd (rmCmd r be comment key st))) = stdout (snd st)"
    unfolding rmCmd_def by (rule andThen_stdout) (auto intro!: andThen_stdout)
  show "stdout (snd (snd (rollbackCmd r be target comment key st))) = stdout (snd st)"
    unfolding rollbackCmd_def by (auto intro!: andThen_stdout)
  show "stdout (snd (snd (migrateCmd be st))) = stdout (snd st)"
    unfolding migrateCmd_def by (auto intro!: andThen_stdout)
  show "validFormat (inferFormat src v)" by (rule inferFormat_valid)
  show "setCmd env r (be\<lparr>beSet := \<lambda>k v f. if validFormat f then beSet be k v f else g k v f\<rparr>) file f comment False args st =
     setCmd env r be file f comment False args st"
    by (auto simp: setCmd_def Let_def andThen_def call_def lift_sum_def split: prod.split sum.split)
qed

text \<open>
  C32. What \<open>lsctl set\<close> wrote, \<open>lsctl get\<close> prints: after a set that succeeded, through either
  backend, the default output of get is exactly the value, with a final newline added only
  where the value has none, and the exit code is 0.
\<close>

theorem cli_set_then_get:
  assumes "plain_key key" and "valid_utf8 v" and "http_ok tm e (change r comment) d"
    and "flOutput r = [] \<or> flOutput r = OutRaw"
    and "be = http_be tm (serve tm ne dia w e) base \<or> be = db_be e sqls dia desc"
    and "setCmd env r be [] f comment False [key, v] (d, out) = (Inr (), (d', out'))"
  shows "getCmd re r be key 0 (d', io0) = (Inr (), (d', \<lparr>stdout = [Text (value_text v)], stderr = []\<rparr>)) \<and>
    suffix [NL] (value_text v) \<and> (value_text v = v \<or> value_text v = v @ [NL])"
proof -
  have raw: "pick r OutRaw = OutRaw" using assms(4) by (auto simp: pick_def cmp_Or_def)
  obtain fmt res where set: "beSet be key v fmt (change r comment) d = (Inr res, d')"
    using assms(6)
    by (auto simp: setCmd_def readValue_def lift_sum_def Let_def call_def reportWrite_def print_err_def
        EmitJSON_def andThen_def split: if_splits prod.splits sum.splits option.splits)
  have "\<exists>c. beGet be key d' = (Inr c, d') \<and> dValue c = v"
    using assms(5)
  proof
    assume be: "be = http_be tm (serve tm ne dia w e) base"
    have "as_outcome (http_set (serve tm ne dia w e) key v fmt (change r comment) d) = (Finished res, d')"
      using set by (simp add: be http_be_def as_outcome_def)
    from http_backend.put_get[OF assms(3,1,2) this] obtain c where
        ok: "http_ok tm e (change r comment) d'" and "dValue c = v"
          "outcome (fst (http_get tm (serve tm ne dia w e) key d')) = Finished c" by blast
    moreover have "snd (http_get tm (serve tm ne dia w e) key d') = d'"
      using get_agrees[OF http_okD(2,3)[OF ok] assms(1)] by blast
    ultimately show ?thesis by (auto simp: be http_be_def Finished_iff prod_eq_iff)
  next
    assume be: "be = db_be e sqls dia desc"
    have "as_outcome (db_set e dia key v fmt (change r comment) d) = (Finished res, d')"
      using set by (simp add: be db_be_def as_outcome_def)
    from db_backend.put_get[OF http_okD(5)[OF assms(3)] assms(1,2) this]
    show ?thesis by (auto simp: be db_be_def Finished_iff)
  qed
  then have "getCmd re r be key 0 (d', io0) = (Inr (), (d', \<lparr>stdout = [Text (value_text v)], stderr = []\<rparr>))"
    by (auto simp: getCmd_def call_def andThen_def raw writeValue_def print_def io0_def)
  then show ?thesis using suffix_value_text by blast
qed

theorem cli_set_then_get_witness:
  "\<exists>d'. setCmd \<lparr>stdin = None, files = (\<lambda>_. None)\<rparr> flags0 (db_be env0 (\<lambda>_. []) MySQL ''mysql'') [] ''raw'' [] False
        [''app:a'', ''60s''] (db1, io0) = (Inr (), (d', \<lparr>stdout = [], stderr = [line ''wrote app:a: version=2 revision=2'']\<rparr>)) \<and>
     getCmd re0 flags0 (db_be env0 (\<lambda>_. []) MySQL ''mysql'') ''app:a'' 0 (d', io0) =
       (Inr (), (d', \<lparr>stdout = [Text (''60s'' @ [NL])], stderr = []\<rparr>))"
proof -
  let ?be = "db_be env0 (\<lambda>_. []) MySQL ''mysql''"
  let ?inp = "\<lparr>stdin = None, files = (\<lambda>_. None)\<rparr> :: inputs"
  have "ready ''app:a'' (store_change (change flags0 [])) db1"
    using ready_db1 by (simp add: ready_def store_change_def change_def flags0_def ValidateChange_def limit_defs)
  moreover have "ValidateValue (yaml env0) ''60s'' (if ''raw'' = [] then FormatRaw else ''raw'') = None"
    by (simp add: ValidateValue_def limit_defs FormatRaw_def)
  ultimately have "Set env0 MySQL ''app:a'' ''60s'' ''raw'' (store_change (change flags0 [])) db1 =
      (Inr \<lparr>Revision = 2, Version = int (length (history_rows ''app:a'' (tabs db1))) + 1\<rparr>,
       written env0 ''app:a'' OpSet (store_change (change flags0 [])) ''60s'' ''raw'' db1)"
    using set_success[of env0 db1 "''app:a''" _ "''60s''" "''raw''" MySQL] wf_db1 by simp
  moreover have "length (history_rows ''app:a'' (tabs db1)) = 1" by (simp add: db1_def)
  ultimately obtain d' where set: "Set env0 MySQL ''app:a'' ''60s'' ''raw'' (store_change (change flags0 [])) db1 =
      (Inr \<lparr>Revision = 2, Version = 2\<rparr>, d')" by auto
  have "of_char CHR ''2'' = (50::nat)" by simp
  then have "char_of (50::nat) = CHR ''2''" by (metis char_of_char)
  then have two: "int_str 2 = ''2''" by (simp add: int_str_def nat_str.simps[of 2] digit_char_def)
  have run: "setCmd ?inp flags0 ?be [] ''raw'' [] False [''app:a'', ''60s''] (db1, io0) =
      (Inr (), (d', \<lparr>stdout = [], stderr = [line ''wrote app:a: version=2 revision=2'']\<rparr>))"
    by (simp add: setCmd_def readValue_def lift_sum_def call_def db_be_def db_set_def db_result_def set andThen_def
        validFormat_def reportWrite_def write_receipt_def two print_err_def io0_def Let_def)
       (simp add: pick_def cmp_Or_def flags0_def)
  have "valid_utf8 ''60s''" by (rule valid_utf8_ascii; simp)
  from cli_set_then_get[OF plain_key_a this http_ok_db1 _ disjI2[OF HOL.refl] run] show ?thesis
    using run by (simp add: flags0_def value_text_def NL_def suffix_def)
qed

end
