(* ===== verification/Ui_Runs.thy ===== *)
theory Ui_Runs
  imports Ui_Inv Lsctl_Command_Props
begin

text \<open>
  Runs of the interface: the model, the tasks that the runtime has still to run, the messages not
  yet delivered, the temporary files and the world behind the backend. Tasks run and messages
  arrive in any order, other clients write in between, and the user may press any key at any
  time. The editor takes its task when the runtime gets to it; until then the task waits like any
  other, and quitting (the task \<open>Quit\<close> ends a session and is never run here) may come first.
\<close>

section \<open>What most updates leave alone\<close>

text \<open>
  No write is started, the receipts stay, and a pane says that it is loading only while it was
  already, or because a fetch was just issued.
\<close>

definition keys_step :: "Model \<Rightarrow> upd \<Rightarrow> bool" where
  "keys_step m u \<longleftrightarrow>
     (mLoadingKeys (fst u) \<longrightarrow>
        mLoadingKeys m \<and> mKeysSeq (fst u) = mKeysSeq m \<or> (\<exists>ps. FetchKeys (mKeysSeq (fst u)) ps \<in> set (snd u)))"

definition detail_step :: "Model \<Rightarrow> upd \<Rightarrow> bool" where
  "detail_step m u \<longleftrightarrow>
     (mLoadingDetail (fst u) \<longrightarrow>
        mLoadingDetail m \<and> mDetailSeq (fst u) = mDetailSeq m \<or>
        (\<exists>k. FetchDetail (mDetailSeq (fst u)) k \<in> set (snd u)))"

definition quiet_upd :: "Model \<Rightarrow> upd \<Rightarrow> bool" where
  "quiet_upd m u \<longleftrightarrow>
     mAuthor (fst u) = mAuthor m \<and> mWrites (fst u) = mWrites m \<and>
     (\<forall>a p. DoWrite a p \<notin> set (snd u)) \<and> keys_step m u \<and> detail_step m u"

lemmas quiet_defs = quiet_upd_def keys_step_def detail_step_def

lemma quiet_same:
  "mAuthor m' = mAuthor m \<Longrightarrow> mWrites m' = mWrites m \<Longrightarrow> mLoadingKeys m' = mLoadingKeys m \<Longrightarrow>
   mLoadingDetail m' = mLoadingDetail m \<Longrightarrow> mKeysSeq m' = mKeysSeq m \<Longrightarrow> mDetailSeq m' = mDetailSeq m \<Longrightarrow>
   \<forall>a p. DoWrite a p \<notin> set ts \<Longrightarrow> quiet_upd m (m', ts)"
  by (simp add: quiet_defs)

lemma quiet_cong:
  "mAuthor m0 = mAuthor m \<Longrightarrow> mWrites m0 = mWrites m \<Longrightarrow> mLoadingKeys m0 = mLoadingKeys m \<Longrightarrow>
   mLoadingDetail m0 = mLoadingDetail m \<Longrightarrow> mKeysSeq m0 = mKeysSeq m \<Longrightarrow> mDetailSeq m0 = mDetailSeq m \<Longrightarrow>
   quiet_upd m0 u \<Longrightarrow> quiet_upd m u"
  by (simp add: quiet_defs)

lemma quiet_syncDetail: "quiet_upd m (syncDetail env prev m)"
  by (simp add: syncDetail_def loadDetail_def Let_def quiet_defs)

lemma quiet_rebuild: "quiet_upd m (rebuild env m)"
  unfolding rebuild_def Let_def by (rule quiet_cong[OF _ _ _ _ _ _ quiet_syncDetail]) simp_all

lemma quiet_loads: "quiet_upd m (loadKeys m)" "quiet_upd m (loadBoth key m)"
  by (simp_all add: loadBoth_def loadKeys_def loadDetail_def Let_def quiet_defs)

lemma quiet_clampScroll [simp]:
  "mAuthor (clampScroll m) = mAuthor m" "mWrites (clampScroll m) = mWrites m"
  "mLoadingKeys (clampScroll m) = mLoadingKeys m" "mLoadingDetail (clampScroll m) = mLoadingDetail m"
  "mKeysSeq (clampScroll m) = mKeysSeq m" "mDetailSeq (clampScroll m) = mDetailSeq m"
  "mDetailKey (clampScroll m) = mDetailKey m" "mHasDetail (clampScroll m) = mHasDetail m"
  "mDetail (clampScroll m) = mDetail m" "mHistory (clampScroll m) = mHistory m" "mPend (clampScroll m) = mPend m"
  by (simp_all add: clampScroll_def)

lemma overlay_fields [simp]:
  "mAuthor (openOverlay t l m) = mAuthor m" "mWrites (openOverlay t l m) = mWrites m"
  "mLoadingKeys (openOverlay t l m) = mLoadingKeys m" "mLoadingDetail (openOverlay t l m) = mLoadingDetail m"
  "mKeysSeq (openOverlay t l m) = mKeysSeq m" "mDetailSeq (openOverlay t l m) = mDetailSeq m"
  "mDetailKey (openOverlay t l m) = mDetailKey m" "mHasDetail (openOverlay t l m) = mHasDetail m"
  "mDetail (openOverlay t l m) = mDetail m" "mHistory (openOverlay t l m) = mHistory m"
  "mPend (openOverlay t l m) = mPend m"
  "mAuthor (closeOverlay m) = mAuthor m" "mWrites (closeOverlay m) = mWrites m"
  "mLoadingKeys (closeOverlay m) = mLoadingKeys m" "mLoadingDetail (closeOverlay m) = mLoadingDetail m"
  "mKeysSeq (closeOverlay m) = mKeysSeq m" "mDetailSeq (closeOverlay m) = mDetailSeq m"
  "mDetailKey (closeOverlay m) = mDetailKey m" "mHasDetail (closeOverlay m) = mHasDetail m"
  "mDetail (closeOverlay m) = mDetail m" "mHistory (closeOverlay m) = mHistory m" "mPend (closeOverlay m) = None"
  by (simp_all add: openOverlay_def closeOverlay_def)

text \<open>The same over handlers that may not return.\<close>

definition quiet_res :: "Model \<Rightarrow> (upd \<times> tempfiles) option \<Rightarrow> bool" where
  "quiet_res m r \<longleftrightarrow> (\<forall>u fs'. r = Some (u, fs') \<longrightarrow> quiet_upd m u)"

lemma quiet_res_simps [simp]:
  "quiet_res m (Some v) \<longleftrightarrow> quiet_upd m (fst v)"
  "quiet_res m (no_files fs r) \<longleftrightarrow> (\<forall>u. r = Some u \<longrightarrow> quiet_upd m u)"
  by (auto simp: quiet_res_def no_files_def) (metis prod.collapse)+

lemma quiet_res_if: "(c \<Longrightarrow> quiet_res m a) \<Longrightarrow> (\<not> c \<Longrightarrow> quiet_res m b) \<Longrightarrow> quiet_res m (if c then a else b)"
  by simp

lemma quiet_move: "move env d m = Some u \<Longrightarrow> quiet_upd m u"
  by (auto simp: move_def moveKeys_def Let_def quiet_same quiet_cong[OF _ _ _ _ _ _ quiet_syncDetail]
      split: pane.splits option.splits)

lemma quiet_jump: "quiet_upd m (jump env d m)"
  by (auto simp: jump_def quiet_same intro!: quiet_cong[OF _ _ _ _ _ _ quiet_syncDetail] split: pane.split)

lemma quiet_showDiff: "showDiff m = Some u \<Longrightarrow> quiet_upd m u"
  by (auto simp: showDiff_def Let_def quiet_same split: if_splits)

lemma quiet_askRollback: "askRollback m = Some u \<Longrightarrow> quiet_upd m u"
  by (auto simp: askRollback_def Let_def quiet_same split: if_splits)

lemma quiet_startEdit: "quiet_upd m (fst (startEdit env m fs))"
  by (auto simp: startEdit_def Let_def quiet_same split: option.split prod.split sum.split)

lemma quiet_refresh:
  "quiet_upd m (let m1 = m\<lparr>mStatus := t\<rparr>; sel = selectedKey m1 in if sel \<noteq> [] then loadBoth sel m1 else loadKeys m1)"
  by (auto simp: Let_def intro!: quiet_cong[OF _ _ _ _ _ _ quiet_loads(1)] quiet_cong[OF _ _ _ _ _ _ quiet_loads(2)])

lemma quiet_refilter: "quiet_upd m (rebuild env (m\<lparr>mFilter := flt\<rparr>))"
  by (rule quiet_cong[OF _ _ _ _ _ _ quiet_rebuild]) simp_all

lemma quiet_browseKey: "quiet_res m (browseKey env k m fs)"
  unfolding browseKey_def Let_def[of "kString k"]
  by (intro quiet_res_if)
    (simp_all add: quiet_same quiet_move quiet_jump quiet_showDiff quiet_askRollback quiet_startEdit
      quiet_refresh quiet_refilter)

lemma quiet_filterKey: "quiet_upd m (filterKey env k m)"
proof -
  have "quiet_upd m (rebuild env (m\<lparr>mMode := modeBrowse, mFilter := []\<rparr>))"
    by (rule quiet_cong[OF _ _ _ _ _ _ quiet_rebuild]) simp_all
  then show ?thesis by (simp add: filterKey_def Let_def quiet_same quiet_refilter split: key_type.split)
qed

lemma quiet_afterEdit: "quiet_upd m (afterEdit env key edited m)"
  by (auto simp: afterEdit_def Let_def quiet_same split: sum.split)

lemma quiet_on_detail: "quiet_upd m (on_detail env n key r m)"
  by (auto simp: on_detail_def Let_def quiet_defs split: sum.split option.split)

lemma quiet_on_keys: "quiet_upd m (on_keys env n r m)"
proof (cases r)
  case (Inl e)
  then show ?thesis by (simp add: on_keys_def quiet_defs)
next
  case (Inr cs)
  let ?m = "m\<lparr>mLoadingKeys := False, mErrMsg := [], mConfigs := cs\<rparr>"
  obtain m1 ts where reb: "rebuild env ?m = (m1, ts)" by (cases "rebuild env ?m")
  have "quiet_upd m (m1, ts)"
    using quiet_rebuild[of ?m env] by (simp add: reb quiet_defs)
  then show ?thesis by (simp add: on_keys_def Inr reb quiet_defs)
qed

text \<open>The two updates that are not quiet: confirming, and the answer to a write.\<close>

definition confirm :: "Model \<Rightarrow> pending \<Rightarrow> upd" where
  "confirm m p = doWrite p ((closeOverlay m)\<lparr>mStatus := ''Saving'' @ Ellipsis\<rparr>)"

definition confirm_key :: "key_msg \<Rightarrow> bool" where
  "confirm_key k \<longleftrightarrow> kType k \<noteq> KeyCtrlC \<and> (kString k = ''y'' \<or> kString k = ''Y'')"

lemma overlayKey_confirm:
  "kString k = ''y'' \<or> kString k = ''Y'' \<Longrightarrow>
     overlayKey k m = (case mPend m of None \<Rightarrow> (m, []) | Some p \<Rightarrow> confirm m p)"
  by (auto simp: overlayKey_def confirm_def split: option.split)

lemma overlayKey_quiet:
  "\<not> (kString k = ''y'' \<or> kString k = ''Y'') \<Longrightarrow> quiet_upd m (overlayKey k m)"
  by (simp add: overlayKey_def Let_def quiet_same)

lemma Update_cases:
  assumes "Update env x m fs = Some (u, fs')"
  obtains (quiet) "quiet_upd m u" "\<forall>action key res. x \<noteq> WriteMsg action key (Inr res)"
  | (confirmed) k p where "x = KeyMsg k" "confirm_key k" "mMode m = modeOverlay" "mPend m = Some p"
      "u = confirm m p" "fs' = fs"
  | (answered) action key res where "x = WriteMsg action key (Inr res)"
      "u = on_write env action key (Inr res) m" "fs' = fs"
proof (cases x)
  case (KeyMsg k)
  have q: "quiet_upd m u" if no: "\<not> (confirm_key k \<and> mMode m = modeOverlay \<and> mPend m \<noteq> None)"
  proof -
    have "quiet_res m (browseKey env k m fs)" by (rule quiet_browseKey)
    moreover have "quiet_upd m (overlayKey k m)" if "kType k \<noteq> KeyCtrlC" "mMode m = modeOverlay"
      using that no overlayKey_quiet[of k m] overlayKey_confirm[of k m]
      by (cases "kString k = ''y'' \<or> kString k = ''Y''") (auto simp: confirm_key_def quiet_same split: option.split)
    ultimately show ?thesis
      using assms quiet_filterKey[of m env k]
      by (auto simp: Update_def KeyMsg onKey_def quiet_same split: if_splits uiMode.splits)
  qed
  show thesis
  proof (cases "confirm_key k \<and> mMode m = modeOverlay \<and> mPend m \<noteq> None")
    case True
    then obtain p where p: "mPend m = Some p" by auto
    then have "Update env x m fs = Some (confirm m p, fs)"
      using True by (auto simp: Update_def KeyMsg onKey_def confirm_key_def overlayKey_confirm)
    then show thesis using that(2)[OF KeyMsg] True p assms by simp
  next
    case False
    then show thesis using that(1) q KeyMsg by simp
  qed
next
  case (WriteMsg action key r)
  show thesis
  proof (cases r)
    case (Inl e)
    then show thesis
      using that(1) assms WriteMsg by (auto simp: Update_def no_files_def on_write_def quiet_same)
  next
    case (Inr res)
    then show thesis using that(3)[of action key res] assms WriteMsg by (auto simp: Update_def no_files_def)
  qed
qed (use that(1) assms in \<open>auto simp: Update_def no_files_def quiet_on_keys quiet_on_detail quiet_afterEdit quiet_same\<close>)

lemma on_write_quiet_but_receipt:
  "mAuthor (fst (on_write env action key (Inr res) m)) = mAuthor m"
  "mWrites (fst (on_write env action key (Inr res) m)) = mWrites m @ [write_line action key res]"
  "\<forall>a p. DoWrite a p \<notin> set (snd (on_write env action key (Inr res) m))"
  "keys_step m (on_write env action key (Inr res) m)" "detail_step m (on_write env action key (Inr res) m)"
  by (simp_all add: on_write_def Let_def loadBoth_def loadKeys_def loadDetail_def keys_step_def detail_step_def)

lemma confirm_facts:
  "mAuthor (fst (confirm m p)) = mAuthor m" "mWrites (fst (confirm m p)) = mWrites m"
  "snd (confirm m p) = [DoWrite (mAuthor m) p]" "mPend (fst (confirm m p)) = None"
  "mMode (fst (confirm m p)) = modeBrowse" "keys_step m (confirm m p)" "detail_step m (confirm m p)"
  by (simp_all add: confirm_def doWrite_def closeOverlay_def keys_step_def detail_step_def)

lemma quietD:
  assumes "quiet_upd m u"
  shows "mAuthor (fst u) = mAuthor m" "mWrites (fst u) = mWrites m" "DoWrite a p \<notin> set (snd u)"
    "keys_step m u" "detail_step m u"
  using assms by (simp_all add: quiet_upd_def)

lemma Update_loads:
  assumes "Update env x m fs = Some (u, fs')"
  shows "keys_step m u \<and> detail_step m u \<and> mAuthor (fst u) = mAuthor m"
proof (rule Update_cases[OF assms])
  assume "quiet_upd m u"
  then show ?thesis using quietD by blast
qed (simp_all only: confirm_facts on_write_quiet_but_receipt simp_thms)

lemma Update_writes:
  assumes "Update env x m fs = Some (u, fs')" and "DoWrite a p \<in> set (snd u)"
  shows "\<exists>k. x = KeyMsg k \<and> confirm_key k \<and> mMode m = modeOverlay \<and> mPend m = Some p \<and> a = mAuthor m \<and>
    snd u = [DoWrite a p] \<and> mPend (fst u) = None \<and> mMode (fst u) = modeBrowse"
proof (rule Update_cases[OF assms(1)])
  assume "quiet_upd m u"
  then show ?thesis using quietD(3) assms(2) by blast
next
  fix k p'
  assume *: "x = KeyMsg k" "confirm_key k" "mMode m = modeOverlay" "mPend m = Some p'" "u = confirm m p'"
  moreover have "a = mAuthor m \<and> p' = p" using assms(2) by (simp add: *(5) confirm_facts)
  ultimately show ?thesis by (simp add: confirm_facts)
next
  fix action key res
  assume "u = on_write env action key (Inr res) m"
  then show ?thesis using assms(2) on_write_quiet_but_receipt(3) by blast
qed

text \<open>What a message adds to the receipts: the line of a write that succeeded.\<close>

fun receipt :: "msg \<Rightarrow> string list" where
  "receipt (WriteMsg action key (Inr res)) = [write_line action key res]"
| "receipt _ = []"

lemma Update_receipts:
  assumes "Update env x m fs = Some (u, fs')"
  shows "mWrites (fst u) = mWrites m @ receipt x"
proof (rule Update_cases[OF assms])
  assume q: "quiet_upd m u" "\<forall>action key res. x \<noteq> WriteMsg action key (Inr res)"
  from q(2) have "receipt x = []" by (cases x rule: receipt.cases) auto
  then show ?thesis using quietD(2)[OF q(1)] by simp
qed (simp_all add: on_write_quiet_but_receipt confirm_facts)

section \<open>Steps and runs\<close>

record 's ui_state =
  uModel :: Model
  uTasks :: "task list"
  uInbox :: "msg list"
  uFiles :: tempfiles
  uWorld :: 's

datatype ui_event = Input msg | Deliver msg | Ran task | Edited string | Elsewhere

text \<open>What the terminal sends, and which tasks call the backend.\<close>

fun is_input :: "msg \<Rightarrow> bool" where
  "is_input (WindowSizeMsg w h) \<longleftrightarrow> True"
| "is_input (KeyMsg k) \<longleftrightarrow> True"
| "is_input OtherMsg \<longleftrightarrow> True"
| "is_input _ \<longleftrightarrow> False"

fun calls_backend :: "task \<Rightarrow> bool" where
  "calls_backend (RunEditor ed path key format) \<longleftrightarrow> False"
| "calls_backend Quit \<longleftrightarrow> False"
| "calls_backend _ \<longleftrightarrow> True"

text \<open>
  \<open>bes\<close> are the ways the backend may answer (it may fail differently at each call) and \<open>ok\<close> the
  worlds that other clients leave behind. The editor may leave any content, or no file.
\<close>

inductive ui_step :: "'s backend set \<Rightarrow> ('s \<Rightarrow> bool) \<Rightarrow> 's ui_state \<Rightarrow> ui_event \<Rightarrow> 's ui_state \<Rightarrow> bool"
  for bes ok where
  input: "is_input x \<Longrightarrow> Update env x (uModel st) (uFiles st) = Some ((m, ts), fs) \<Longrightarrow>
    ui_step bes ok st (Input x) (st\<lparr>uModel := m, uTasks := uTasks st @ ts, uFiles := fs\<rparr>)"
| deliver: "uInbox st = us @ x # vs \<Longrightarrow> Update env x (uModel st) (uFiles st) = Some ((m, ts), fs) \<Longrightarrow>
    ui_step bes ok st (Deliver x) (st\<lparr>uModel := m, uTasks := uTasks st @ ts, uInbox := us @ vs, uFiles := fs\<rparr>)"
| ran: "uTasks st = us @ t # vs \<Longrightarrow> calls_backend t \<Longrightarrow> be \<in> bes \<Longrightarrow>
    run_task be t (uWorld st) = ((ts, xs), w) \<Longrightarrow>
    ui_step bes ok st (Ran t) (st\<lparr>uTasks := us @ vs @ ts, uInbox := uInbox st @ xs, uWorld := w\<rparr>)"
| edited: "uTasks st = us @ RunEditor ed path key format # vs \<Longrightarrow>
    edit_done run_ok remove_ok path key format (put_file path content (uFiles st)) = (x, fs) \<Longrightarrow>
    ui_step bes ok st (Edited path) (st\<lparr>uTasks := us @ vs, uInbox := uInbox st @ [x], uFiles := fs\<rparr>)"
| elsewhere: "ok w \<Longrightarrow> ui_step bes ok st Elsewhere (st\<lparr>uWorld := w\<rparr>)"

definition ui_start :: "int \<Rightarrow> string \<Rightarrow> string list \<Rightarrow> 's \<Rightarrow> 's ui_state" where
  "ui_start zero author pfxs w =
     (case Init (NewModel zero author pfxs) of (m, ts) \<Rightarrow>
        \<lparr>uModel = m, uTasks = ts, uInbox = [], uFiles = \<lparr>tfContent = (\<lambda>_. None), tfRefused = {}\<rparr>, uWorld = w\<rparr>)"

inductive ui_run :: "'s backend set \<Rightarrow> ('s \<Rightarrow> bool) \<Rightarrow> 's ui_state \<Rightarrow> ui_event list \<Rightarrow> 's ui_state \<Rightarrow> bool"
  for bes ok st0 where
  start: "ui_run bes ok st0 [] st0"
| more: "ui_run bes ok st0 tr st \<Longrightarrow> ui_step bes ok st ev st' \<Longrightarrow> ui_run bes ok st0 (tr @ [ev]) st'"

inductive_cases ui_stepE: "ui_step bes ok st ev st'"

section \<open>What every run keeps\<close>

text \<open>An answer in flight with the current number is for the current key.\<close>

fun aged_task :: "Model \<Rightarrow> task \<Rightarrow> bool" where
  "aged_task m (FetchDetail n k) \<longleftrightarrow> n \<le> mDetailSeq m \<and> (n = mDetailSeq m \<longrightarrow> k = mDetailKey m)"
| "aged_task m (FetchHistory n k d) \<longleftrightarrow> n \<le> mDetailSeq m \<and> (n = mDetailSeq m \<longrightarrow> k = mDetailKey m)"
| "aged_task m (DoWrite a p) \<longleftrightarrow> a = mAuthor m"
| "aged_task m _ \<longleftrightarrow> True"

fun aged_msg :: "Model \<Rightarrow> msg \<Rightarrow> bool" where
  "aged_msg m (DetailMsg n k r) \<longleftrightarrow> n \<le> mDetailSeq m \<and> (n = mDetailSeq m \<longrightarrow> k = mDetailKey m)"
| "aged_msg m _ \<longleftrightarrow> True"

definition keys_pending :: "'s ui_state \<Rightarrow> nat \<Rightarrow> bool" where
  "keys_pending st n \<longleftrightarrow>
     (\<exists>ps. FetchKeys n ps \<in> set (uTasks st)) \<or> (\<exists>r. KeysMsg n r \<in> set (uInbox st))"

definition detail_pending :: "'s ui_state \<Rightarrow> nat \<Rightarrow> bool" where
  "detail_pending st n \<longleftrightarrow>
     (\<exists>k. FetchDetail n k \<in> set (uTasks st)) \<or> (\<exists>k d. FetchHistory n k d \<in> set (uTasks st)) \<or>
     (\<exists>k r. DetailMsg n k r \<in> set (uInbox st))"

definition waits_ok :: "'s ui_state \<Rightarrow> bool" where
  "waits_ok st \<longleftrightarrow>
     (mLoadingKeys (uModel st) \<longrightarrow> keys_pending st (mKeysSeq (uModel st))) \<and>
     (mLoadingDetail (uModel st) \<longrightarrow> detail_pending st (mDetailSeq (uModel st)))"

text \<open>A temporary file is there only until its editor is done, unless its removal was refused.\<close>

definition temp_ok :: "'s ui_state \<Rightarrow> bool" where
  "temp_ok st \<longleftrightarrow>
     (\<forall>path. tfContent (uFiles st) path \<noteq> None \<longrightarrow>
        (\<exists>ed key format. RunEditor ed path key format \<in> set (uTasks st)) \<or> path \<in> tfRefused (uFiles st))"

definition state_ok :: "'s ui_state \<Rightarrow> bool" where
  "state_ok st \<longleftrightarrow>
     core (uModel st) \<and> (\<forall>t\<in>set (uTasks st). aged_task (uModel st) t) \<and>
     (\<forall>x\<in>set (uInbox st). aged_msg (uModel st) x) \<and> waits_ok st \<and> temp_ok st"

lemma aged_task_later:
  "aged_task m t \<Longrightarrow> detail_later m m' \<Longrightarrow> mAuthor m' = mAuthor m \<Longrightarrow> aged_task m' t"
  by (cases t) (auto simp: detail_later_def)

lemma aged_msg_later: "aged_msg m x \<Longrightarrow> detail_later m m' \<Longrightarrow> aged_msg m' x"
  by (cases x) (auto simp: detail_later_def)

lemma aged_fresh:
  "fresh_task m t \<Longrightarrow> (\<And>a p. t = DoWrite a p \<Longrightarrow> a = mAuthor m) \<Longrightarrow> aged_task m t"
  by (cases t) auto

lemma ui_start_ok: "state_ok (ui_start zero author pfxs w)"
proof -
  have "core (fst (loadKeys (NewModel zero author pfxs)))"
    using loadKeys_good[OF core_fresh_init] by (simp add: good_upd_def)
  then show ?thesis
    by (simp add: state_ok_def ui_start_def Init_def loadKeys_def Let_def waits_ok_def keys_pending_def temp_ok_def NewModel_def)
qed

text \<open>Only starting the editor adds a file, and its task comes with it.\<close>

definition kept_files :: "tempfiles \<Rightarrow> task list \<Rightarrow> tempfiles \<Rightarrow> bool" where
  "kept_files fs ts fs' \<longleftrightarrow> tfRefused fs \<subseteq> tfRefused fs' \<and>
     (\<forall>path. tfContent fs' path \<noteq> None \<longrightarrow>
        tfContent fs path \<noteq> None \<or> (\<exists>ed key format. RunEditor ed path key format \<in> set ts) \<or>
        path \<in> tfRefused fs')"

lemma kept_files_refl: "kept_files fs ts fs"
  by (simp add: kept_files_def)

lemma startEdit_files:
  assumes "startEdit env m fs = ((m', ts), fs')"
  shows "kept_files fs ts fs'"
  using assms
  by (auto simp: startEdit_def writeTemp_def Let_def kept_files_def put_file_def remove_file_def
      split: if_splits option.splits)

lemma Update_files:
  assumes "Update env x m fs = Some ((m', ts), fs')"
  shows "kept_files fs ts fs'"
proof (cases "\<exists>k. x = KeyMsg k \<and> kType k \<noteq> KeyCtrlC \<and> mMode m = modeBrowse \<and> kString k = ''e''")
  case True
  then have "startEdit env m fs = ((m', ts), fs')"
    using assms by (auto simp: Update_def onKey_def browseKey_def)
  then show ?thesis by (rule startEdit_files)
next
  case False
  then have "fs' = fs"
    using assms by (auto simp: Update_def onKey_def browseKey_def no_files_def Let_def split: msg.splits if_splits uiMode.splits)
  then show ?thesis by (simp add: kept_files_refl)
qed

lemma temp_ok_kept:
  assumes "temp_ok st" and "kept_files (uFiles st) ts fs"
  shows "temp_ok (st\<lparr>uModel := m, uTasks := uTasks st @ ts, uInbox := inbox, uFiles := fs\<rparr>)"
  unfolding temp_ok_def
proof (intro allI impI)
  fix path assume "tfContent (uFiles (st\<lparr>uModel := m, uTasks := uTasks st @ ts, uInbox := inbox, uFiles := fs\<rparr>)) path \<noteq> None"
  then consider "tfContent (uFiles st) path \<noteq> None" | ed key format where "RunEditor ed path key format \<in> set ts"
    | "path \<in> tfRefused fs"
    using assms(2) by (auto simp: kept_files_def)
  then show "(\<exists>ed key format. RunEditor ed path key format \<in>
      set (uTasks (st\<lparr>uModel := m, uTasks := uTasks st @ ts, uInbox := inbox, uFiles := fs\<rparr>))) \<or>
    path \<in> tfRefused (uFiles (st\<lparr>uModel := m, uTasks := uTasks st @ ts, uInbox := inbox, uFiles := fs\<rparr>))"
  proof cases
    case 1
    then have "(\<exists>ed key format. RunEditor ed path key format \<in> set (uTasks st)) \<or> path \<in> tfRefused (uFiles st)"
      using assms(1) by (simp add: temp_ok_def)
    then show ?thesis using assms(2) by (auto simp: kept_files_def)
  qed auto
qed

lemma loading_kept:
  "mLoadingKeys (fst (rebuild env m)) = mLoadingKeys m"
  by (simp add: rebuild_def syncDetail_def loadDetail_def Let_def)

lemma on_keys_done: "\<not> mLoadingKeys (fst (on_keys env (mKeysSeq m) r m))"
  using loading_kept[of env "m\<lparr>mLoadingKeys := False, mErrMsg := [], mConfigs := cs\<rparr>" for cs]
  by (auto simp: on_keys_def split: sum.split prod.split) (metis fst_conv Model.select_convs Model.update_convs)+

lemma on_detail_done: "\<not> mLoadingDetail (fst (on_detail env (mDetailSeq m) (mDetailKey m) r m))"
  by (simp add: on_detail_def Let_def split: sum.split option.split)

text \<open>Delivering or entering a message keeps the state in order.\<close>

lemma update_state_ok:
  assumes ok: "state_ok st" and upd: "Update env x (uModel st) (uFiles st) = Some ((m, ts), fs)"
    and inbox: "set inbox \<subseteq> set (uInbox st)" "\<forall>y\<in>set (uInbox st). y \<in> set inbox \<or> y = x"
    and x: "x \<in> set (uInbox st) \<or> is_input x"
  shows "state_ok (st\<lparr>uModel := m, uTasks := uTasks st @ ts, uInbox := inbox, uFiles := fs\<rparr>)"
proof -
  let ?m = "uModel st" and ?st = "st\<lparr>uModel := m, uTasks := uTasks st @ ts, uInbox := inbox, uFiles := fs\<rparr>"
  have core: "core ?m" using ok by (simp add: state_ok_def)
  have good: "core m" "detail_later ?m m" "\<forall>t\<in>set ts. fresh_task m t"
    using Update_good[OF core, of env x "uFiles st"] upd by (auto simp: good_upd_def)
  have load: "keys_step ?m (m, ts)" "detail_step ?m (m, ts)" "mAuthor m = mAuthor ?m"
    using Update_loads[OF upd] by auto
  have tasks: "\<forall>t\<in>set (uTasks ?st). aged_task m t"
  proof
    fix t assume "t \<in> set (uTasks ?st)"
    then consider "t \<in> set (uTasks st)" | "t \<in> set ts" by auto
    then show "aged_task m t"
    proof cases
      case 1
      then show ?thesis using ok aged_task_later good(2) load(3) by (auto simp: state_ok_def)
    next
      case 2
      have "a = mAuthor m" if "t = DoWrite a p" for a p
        using Update_writes[OF upd, of a p] 2 that load(3) by auto
      then show ?thesis using aged_fresh good(3) 2 by blast
    qed
  qed
  have msgs: "\<forall>y\<in>set (uInbox ?st). aged_msg m y"
    using ok inbox(1) by (auto simp: state_ok_def intro!: aged_msg_later[OF _ good(2)])
  have keys: "keys_pending ?st (mKeysSeq m)" if l: "mLoadingKeys m"
  proof -
    consider (old) "mLoadingKeys ?m" "mKeysSeq m = mKeysSeq ?m" | (new) ps where "FetchKeys (mKeysSeq m) ps \<in> set ts"
      using load(1) l by (auto simp: keys_step_def)
    then show ?thesis
    proof cases
      case old
      then consider ps where "FetchKeys (mKeysSeq ?m) ps \<in> set (uTasks st)"
        | r where "KeysMsg (mKeysSeq ?m) r \<in> set (uInbox st)"
        using ok by (auto simp: state_ok_def waits_ok_def keys_pending_def)
      then show ?thesis
      proof cases
        case (2 r)
        have "x \<noteq> KeysMsg (mKeysSeq ?m) r"
          using on_keys_done[of env ?m r] upd l by (auto simp: Update_def no_files_def)
        then show ?thesis using 2 inbox(2) old(2) by (auto simp: keys_pending_def)
      qed (use old(2) in \<open>auto simp: keys_pending_def\<close>)
    qed (auto simp: keys_pending_def)
  qed
  have detail: "detail_pending ?st (mDetailSeq m)" if l: "mLoadingDetail m"
  proof -
    consider (old) "mLoadingDetail ?m" "mDetailSeq m = mDetailSeq ?m" | (new) k where "FetchDetail (mDetailSeq m) k \<in> set ts"
      using load(2) l by (auto simp: detail_step_def)
    then show ?thesis
    proof cases
      case old
      then consider k where "FetchDetail (mDetailSeq ?m) k \<in> set (uTasks st)"
        | k d where "FetchHistory (mDetailSeq ?m) k d \<in> set (uTasks st)"
        | k r where "DetailMsg (mDetailSeq ?m) k r \<in> set (uInbox st)"
        using ok by (auto simp: state_ok_def waits_ok_def detail_pending_def)
      then show ?thesis
      proof cases
        case (3 k r)
        then have "k = mDetailKey ?m" using ok by (fastforce simp: state_ok_def)
        then have "x \<noteq> DetailMsg (mDetailSeq ?m) k r"
          using on_detail_done[of env ?m r] upd l by (auto simp: Update_def no_files_def)
        then show ?thesis using 3 inbox(2) old(2) by (auto simp: detail_pending_def)
      qed (use old(2) in \<open>auto simp: detail_pending_def\<close>)
    qed (auto simp: detail_pending_def)
  qed
  have "temp_ok ?st"
    using ok temp_ok_kept[OF _ Update_files[OF upd]] by (simp add: state_ok_def)
  then show ?thesis
    using good(1) tasks msgs keys detail by (simp add: state_ok_def waits_ok_def)
qed

lemma run_task_aged:
  assumes "run_task be t w = ((ts, xs), w')" and "aged_task m t" and "calls_backend t"
  shows "(\<forall>t'\<in>set ts. aged_task m t') \<and> (\<forall>x\<in>set xs. aged_msg m x)"
  using assms by (cases t) (auto split: prod.splits sum.splits)

lemma run_task_answers:
  assumes "run_task be t w = ((ts, xs), w')"
  shows "t = FetchKeys n ps \<Longrightarrow> \<exists>r. KeysMsg n r \<in> set xs"
    "t = FetchDetail n k \<Longrightarrow> (\<exists>d. FetchHistory n k d \<in> set ts) \<or> (\<exists>r. DetailMsg n k r \<in> set xs)"
    "t = FetchHistory n k d \<Longrightarrow> \<exists>r. DetailMsg n k r \<in> set xs"
  using assms by (auto split: prod.splits sum.splits)

lemma run_state_ok:
  assumes ok: "state_ok st" and tasks: "uTasks st = us @ t # vs" and c: "calls_backend t"
    and run: "run_task be t w = ((ts, xs), w')"
  shows "state_ok (st\<lparr>uTasks := us @ vs @ ts, uInbox := uInbox st @ xs, uWorld := w'\<rparr>)"
proof -
  let ?st = "st\<lparr>uTasks := us @ vs @ ts, uInbox := uInbox st @ xs, uWorld := w'\<rparr>"
  have aged: "(\<forall>t'\<in>set ts. aged_task (uModel st) t') \<and> (\<forall>x\<in>set xs. aged_msg (uModel st) x)"
    using run_task_aged[OF run _ c] ok tasks by (auto simp: state_ok_def)
  have "keys_pending ?st n" if "keys_pending st n" for n
  proof (cases "\<exists>ps. t = FetchKeys n ps")
    case True
    then show ?thesis using run_task_answers(1)[OF run] by (auto simp: keys_pending_def)
  next
    case False
    then show ?thesis using that tasks by (auto simp: keys_pending_def)
  qed
  moreover have "detail_pending ?st n" if "detail_pending st n" for n
  proof (cases "\<exists>k. t = FetchDetail n k \<or> (\<exists>d. t = FetchHistory n k d)")
    case True
    then show ?thesis
      using run_task_answers(2,3)[OF run] unfolding detail_pending_def by simp blast
  next
    case False
    then show ?thesis using that tasks by (auto simp: detail_pending_def)
  qed
  ultimately have "waits_ok ?st" using ok by (simp add: state_ok_def waits_ok_def)
  moreover have "temp_ok ?st"
  proof -
    have "RunEditor ed path key format \<in> set us \<union> set vs" if "RunEditor ed path key format \<in> set (uTasks st)"
      for ed path key format using that tasks c by auto
    moreover have "temp_ok st" using ok by (simp add: state_ok_def)
    ultimately show ?thesis unfolding temp_ok_def by simp blast
  qed
  ultimately show ?thesis using ok aged tasks by (auto simp: state_ok_def)
qed

lemma edit_state_ok:
  assumes ok: "state_ok st" and tasks: "uTasks st = us @ RunEditor ed path key format # vs"
    and ed: "edit_done run_ok remove_ok path key format (put_file path content (uFiles st)) = (x, fs)"
  shows "state_ok (st\<lparr>uTasks := us @ vs, uInbox := uInbox st @ [x], uFiles := fs\<rparr>)"
proof -
  let ?st = "st\<lparr>uTasks := us @ vs, uInbox := uInbox st @ [x], uFiles := fs\<rparr>"
  have x: "\<exists>r. x = EditedMsg key r" and fs: "fs = remove_file remove_ok path (put_file path content (uFiles st))"
    using ed by (auto simp: edit_done_def split: if_splits option.splits)
  have "temp_ok ?st"
    unfolding temp_ok_def
  proof (intro allI impI)
    fix q assume q: "tfContent (uFiles ?st) q \<noteq> None"
    show "(\<exists>ed key format. RunEditor ed q key format \<in> set (uTasks ?st)) \<or> q \<in> tfRefused (uFiles ?st)"
    proof (cases "q = path")
      case True
      then show ?thesis using q by (simp add: fs remove_file_def put_file_def split: if_splits)
    next
      case False
      then have "tfContent (uFiles st) q \<noteq> None" using q by (simp add: fs remove_file_def put_file_def split: if_splits)
      then have "(\<exists>ed key format. RunEditor ed q key format \<in> set (uTasks st)) \<or> q \<in> tfRefused (uFiles st)"
        using ok by (simp add: state_ok_def temp_ok_def)
      then show ?thesis using False tasks by (auto simp: fs remove_file_def put_file_def)
    qed
  qed
  moreover have "waits_ok ?st"
    using ok tasks unfolding state_ok_def waits_ok_def keys_pending_def detail_pending_def by fastforce
  ultimately show ?thesis using ok tasks x by (auto simp: state_ok_def)
qed

lemma step_state_ok:
  assumes "ui_step bes ok st ev st'" and "state_ok st"
  shows "state_ok st'"
  using assms(1)
proof cases
  case (input x env m ts fs)
  then show ?thesis using update_state_ok[OF assms(2), of env x m ts fs "uInbox st"] by simp
next
  case (deliver us x vs env m ts fs)
  then show ?thesis using update_state_ok[OF assms(2), of env x m ts fs "us @ vs"] by auto
next
  case (ran us t vs be ts xs w)
  then show ?thesis using run_state_ok[OF assms(2)] by simp
next
  case (edited us ed path key format vs run_ok remove_ok content x fs)
  then show ?thesis using edit_state_ok[OF assms(2)] by simp
next
  case (elsewhere w)
  then show ?thesis
    using assms(2) by (simp add: state_ok_def waits_ok_def keys_pending_def detail_pending_def temp_ok_def)
qed

lemma run_state_in_order: "ui_run bes ok (ui_start zero author pfxs w) tr st \<Longrightarrow> state_ok st"
  by (induction rule: ui_run.induct) (auto intro: ui_start_ok step_state_ok)

end
