(* ===== verification/Ui_Contract.thy ===== *)
theory Ui_Contract
  imports Ui_Runs
begin

text \<open>
  What the interface relies on of its backend, as the locale \<open>ui_backend\<close>: a value comes with the
  key it was asked for and in a known format, versions count from one, reading changes nothing.
  Inside it: the detail shown belongs to the selected key, and what can be confirmed are commands
  that \<open>lsctl\<close> accepts. The locale is interpreted on the database backend, whatever faults its
  calls meet.
\<close>

section \<open>Lawful models, tasks and messages\<close>

definition pend_law :: "pending \<Rightarrow> bool" where
  "pend_law p \<longleftrightarrow> ValidateKey (pKey p) = None \<and>
     (p = pend_set (pKey p) (pValue p) (pFormat p) \<and> validFormat (pFormat p) \<or>
      p = pend_rollback (pKey p) (pVersion p) \<and> 0 < pVersion p)"

definition model_law :: "Model \<Rightarrow> bool" where
  "model_law m \<longleftrightarrow>
     (mHasDetail m \<longrightarrow> dKey (mDetail m) = mDetailKey m \<and> ValidateKey (mDetailKey m) = None \<and>
        validFormat (dFormat (mDetail m)) \<and>
        (\<forall>h\<in>set (mHistory m). 0 < aVersion h)) \<and>
     (\<forall>p. mPend m = Some p \<longrightarrow> pend_law p)"

fun task_law :: "task \<Rightarrow> bool" where
  "task_law (FetchHistory n k d) \<longleftrightarrow> dKey d = k \<and> ValidateKey k = None \<and> validFormat (dFormat d)"
| "task_law (DoWrite a p) \<longleftrightarrow> pend_law p"
| "task_law (RunEditor ed path key format) \<longleftrightarrow> validFormat format"
| "task_law _ \<longleftrightarrow> True"

fun msg_law :: "msg \<Rightarrow> bool" where
  "msg_law (DetailMsg n k (Inr (d, hs, e))) \<longleftrightarrow>
     dKey d = k \<and> ValidateKey k = None \<and> validFormat (dFormat d) \<and> (\<forall>h\<in>set hs. 0 < aVersion h)"
| "msg_law (EditedMsg key (Inr (format, val))) \<longleftrightarrow> validFormat format"
| "msg_law _ \<longleftrightarrow> True"

definition law_upd :: "upd \<Rightarrow> bool" where
  "law_upd u \<longleftrightarrow> model_law (fst u) \<and> (\<forall>t\<in>set (snd u). task_law t)"

definition law_res :: "(upd \<times> tempfiles) option \<Rightarrow> bool" where
  "law_res r \<longleftrightarrow> (\<forall>u fs'. r = Some (u, fs') \<longrightarrow> law_upd u)"

lemma law_res_simps [simp]:
  "law_res (Some v) \<longleftrightarrow> law_upd (fst v)"
  "law_res (no_files fs r) \<longleftrightarrow> (\<forall>u. r = Some u \<longrightarrow> law_upd u)"
  by (auto simp: law_res_def no_files_def) (metis prod.collapse)+

lemma law_res_if: "(c \<Longrightarrow> law_res a) \<Longrightarrow> (\<not> c \<Longrightarrow> law_res b) \<Longrightarrow> law_res (if c then a else b)"
  by simp

lemma law_upd_if: "(c \<Longrightarrow> law_upd a) \<Longrightarrow> (\<not> c \<Longrightarrow> law_upd b) \<Longrightarrow> law_upd (if c then a else b)"
  by simp

lemma law_same:
  "model_law m \<Longrightarrow> mHasDetail m' = mHasDetail m \<Longrightarrow> mDetail m' = mDetail m \<Longrightarrow> mDetailKey m' = mDetailKey m \<Longrightarrow>
   mHistory m' = mHistory m \<Longrightarrow> mPend m' = mPend m \<or> mPend m' = None \<Longrightarrow> \<forall>t\<in>set ts. task_law t \<Longrightarrow>
   law_upd (m', ts)"
  by (auto simp: law_upd_def model_law_def)

lemma law_model:
  "model_law m \<Longrightarrow> mHasDetail m' = mHasDetail m \<Longrightarrow> mDetail m' = mDetail m \<Longrightarrow> mDetailKey m' = mDetailKey m \<Longrightarrow>
   mHistory m' = mHistory m \<Longrightarrow> mPend m' = mPend m \<Longrightarrow> model_law m'"
  by (simp add: model_law_def)

lemma law_syncDetail: "model_law m \<Longrightarrow> law_upd (syncDetail env prev m)"
  by (simp add: syncDetail_def loadDetail_def Let_def law_upd_def model_law_def)

lemma law_rebuild: "model_law m \<Longrightarrow> law_upd (rebuild env m)"
  unfolding rebuild_def Let_def by (rule law_syncDetail, rule law_model) simp_all

lemma law_loadKeys: "model_law m \<Longrightarrow> law_upd (loadKeys m)"
  by (simp add: loadKeys_def Let_def law_same)

lemma law_loadBoth: "model_law m \<Longrightarrow> mDetailKey m = key \<Longrightarrow> law_upd (loadBoth key m)"
  by (simp add: loadBoth_def loadKeys_def loadDetail_def Let_def law_same)

lemma law_reload:
  "model_law m \<Longrightarrow> mDetailKey m = selectedKey m \<Longrightarrow>
     law_upd (if key = selectedKey m then loadBoth key m else loadKeys m)"
  "model_law m \<Longrightarrow> mDetailKey m = selectedKey m \<Longrightarrow>
     law_upd (let sel = selectedKey m in if sel \<noteq> [] then loadBoth sel m else loadKeys m)"
  using law_loadBoth[of m "selectedKey m"] law_loadKeys[of m] by (simp_all add: Let_def)

lemma law_move: "model_law m \<Longrightarrow> move env d m = Some u \<Longrightarrow> law_upd u"
  by (auto simp: move_def moveKeys_def Let_def law_same intro!: law_syncDetail law_model[of m]
      split: pane.splits option.splits)

lemma law_jump: "model_law m \<Longrightarrow> law_upd (jump env d m)"
  by (auto simp: jump_def law_same intro!: law_syncDetail law_model[of m] split: pane.split)

lemma law_openOverlay:
  "model_law m \<Longrightarrow> \<forall>p. pend = Some p \<longrightarrow> pend_law p \<Longrightarrow> law_upd (openOverlay t l (m\<lparr>mPend := pend\<rparr>), [])"
  by (simp add: law_upd_def model_law_def)

lemma law_showDiff: "model_law m \<Longrightarrow> showDiff m = Some u \<Longrightarrow> law_upd u"
  by (auto simp: showDiff_def Let_def law_same split: if_splits)

lemma law_askRollback:
  assumes "model_law m" and "askRollback m = Some u"
  shows "law_upd u"
proof (cases "mHasDetail m \<and> mHistory m \<noteq> []")
  case True
  then obtain h where h: "history_at_cursor m = Some h" using assms(2) by (auto simp: askRollback_def)
  then have "h \<in> set (mHistory m)" by (auto simp: history_at_cursor_def split: if_splits)
  then have "pend_law (pend_rollback (dKey (mDetail m)) (aVersion h))"
    using assms(1) True by (auto simp: model_law_def pend_law_def pend_rollback_def)
  then show ?thesis
    using assms True h by (auto simp: askRollback_def Let_def law_same law_openOverlay split: if_splits)
next
  case False
  then show ?thesis using assms by (auto simp: askRollback_def law_same)
qed

lemma law_startEdit: "model_law m \<Longrightarrow> law_upd (fst (startEdit env m fs))"
  by (auto simp: startEdit_def Let_def law_same law_upd_def model_law_def split: option.split prod.split sum.split)

lemma law_afterEdit:
  assumes "model_law m" and "msg_law (EditedMsg key edited)"
  shows "law_upd (afterEdit env key edited m)"
proof (cases edited)
  case (Inl e)
  then show ?thesis using assms by (simp add: afterEdit_def law_same)
next
  case (Inr fv)
  obtain format val where fv: "fv = (format, val)" by (cases fv)
  show ?thesis
  proof (cases "\<not> mHasDetail m \<or> key \<noteq> dKey (mDetail m)")
    case True
    then show ?thesis using assms(1) by (simp add: afterEdit_def Inr fv law_same)
  next
    case False
    then have "pend_law (pend_set key val format)"
      using assms by (simp add: Inr fv pend_law_def pend_set_def model_law_def)
    then show ?thesis
      unfolding afterEdit_def Inr fv sum.case prod.case if_not_P[OF False] Let_def
      by (intro law_upd_if) (simp_all add: law_same[OF assms(1)] law_openOverlay[OF assms(1)])
  qed
qed

lemma law_browseKey:
  assumes "model_law m" and "mDetailKey m = selectedKey m"
  shows "law_res (browseKey env k m fs)"
proof -
  have refresh: "law_upd (let m1 = m\<lparr>mStatus := t\<rparr>; sel = selectedKey m1 in
      if sel \<noteq> [] then loadBoth sel m1 else loadKeys m1)" for t
    using law_reload(2)[of "m\<lparr>mStatus := t\<rparr>"] law_model[OF assms(1), of "m\<lparr>mStatus := t\<rparr>"] assms(2)
    unfolding Let_def[of "m\<lparr>mStatus := t\<rparr>"] by (simp add: selectedKey_def)
  have refilter: "law_upd (rebuild env (m\<lparr>mFilter := flt\<rparr>))" for flt
    by (rule law_rebuild, rule law_model[OF assms(1)]) simp_all
  show ?thesis
    unfolding browseKey_def Let_def[of "kString k"]
    by (intro law_res_if)
      (simp_all add: assms law_same[OF assms(1)] law_move[OF assms(1)] law_jump law_showDiff[OF assms(1)]
        law_askRollback[OF assms(1)] law_startEdit
        refresh refilter)
qed

lemma law_filterKey:
  assumes "model_law m"
  shows "law_upd (filterKey env k m)"
proof -
  have "law_upd (rebuild env (m\<lparr>mMode := modeBrowse, mFilter := []\<rparr>))" "law_upd (rebuild env (m\<lparr>mFilter := flt\<rparr>))" for flt
    by (rule law_rebuild, rule law_model[OF assms], simp_all)+
  then show ?thesis by (simp add: filterKey_def Let_def law_same[OF assms] split: key_type.split)
qed

lemma law_overlayKey:
  assumes "model_law m"
  shows "law_upd (overlayKey k m)"
  unfolding overlayKey_def Let_def
proof (intro law_upd_if)
  show "law_upd (case mPend m of None \<Rightarrow> (m, [])
      | Some p \<Rightarrow> doWrite p ((closeOverlay m)\<lparr>mStatus := ''Saving'' @ Ellipsis\<rparr>))"
  proof (cases "mPend m")
    case (Some p)
    then have "pend_law p" using assms by (simp add: model_law_def)
    then show ?thesis by (simp add: Some doWrite_def law_same[OF assms])
  qed (simp add: law_same[OF assms])
qed (rule law_same[OF assms]; simp)+

lemma law_on_keys:
  assumes "model_law m"
  shows "law_upd (on_keys env n r m)"
proof (cases r)
  case (Inr cs)
  let ?m = "m\<lparr>mLoadingKeys := False, mErrMsg := [], mConfigs := cs\<rparr>"
  obtain m1 ts where reb: "rebuild env ?m = (m1, ts)" by (cases "rebuild env ?m")
  have "model_law ?m" by (rule law_model[OF assms]) simp_all
  then have u: "model_law m1" "\<forall>t\<in>set ts. task_law t"
    using law_rebuild[of ?m env] by (simp_all add: reb law_upd_def)
  have "law_upd (if mStatus m1 = Loading \<or> mStatus m1 = Refreshing then m1\<lparr>mStatus := []\<rparr> else m1, ts)"
    by (rule law_same[OF u(1)]) (simp_all add: u(2))
  then show ?thesis
    unfolding on_keys_def Inr reb sum.case prod.case
    by (intro law_upd_if) (simp_all add: law_same[OF assms])
qed (simp add: on_keys_def law_same[OF assms])

lemma law_on_detail:
  assumes "model_law m" and "msg_law (DetailMsg n key r)"
  shows "law_upd (on_detail env n key r m)"
proof (cases "n \<noteq> mDetailSeq m \<or> key \<noteq> mDetailKey m")
  case True
  then show ?thesis by (simp add: on_detail_def law_same[OF assms(1)])
next
  case False
  show ?thesis
  proof (cases r)
    case (Inl e)
    then show ?thesis using assms(1) False by (simp add: on_detail_def law_upd_def model_law_def)
  next
    case (Inr dhe)
    obtain d hs e where dhe: "dhe = (d, hs, e)" by (cases dhe)
    show ?thesis
      using assms False by (cases e) (simp_all add: on_detail_def Inr dhe law_upd_def model_law_def)
  qed
qed

lemma law_on_write:
  assumes "model_law m" and "mDetailKey m = selectedKey m"
  shows "law_upd (on_write env action key r m)"
proof (cases r)
  case (Inl e)
  then show ?thesis using assms by (simp add: on_write_def law_same)
next
  case (Inr res)
  let ?l = "write_line action key res"
  let ?m = "m\<lparr>mErrMsg := [], mStatus := ?l, mWrites := mWrites m @ [?l]\<rparr>"
  have "law_upd (if key = selectedKey ?m then loadBoth key ?m else loadKeys ?m)"
  proof (rule law_reload(1))
    show "model_law ?m" by (rule law_model[OF assms(1)]) simp_all
    show "mDetailKey ?m = selectedKey ?m" using assms(2) by (simp add: selectedKey_def)
  qed
  then show ?thesis by (simp only: on_write_def Inr sum.case Let_def)
qed

lemma Update_law:
  assumes "core m" and "model_law m" and "msg_law x"
  shows "law_res (Update env x m fs)"
proof -
  note sel = coreD(4)[OF assms(1)]
  show ?thesis
  proof (cases x)
    case (KeyMsg k)
    then show ?thesis
      using law_browseKey[OF assms(2) sel] law_filterKey[OF assms(2)] law_overlayKey[OF assms(2)]
      by (simp add: Update_def onKey_def law_same[OF assms(2)] split: uiMode.split)
  qed (use assms in \<open>simp_all add: Update_def law_on_keys law_on_detail law_on_write sel law_afterEdit law_same[OF assms(2)]\<close>)
qed

section \<open>The equivalent command of a confirmed write\<close>

text \<open>
  The command of a pending write with a comment of its own, and its words. The interface keeps the words
  without a comment as the equivalent command (\<open>pEquiv\<close>); the write it makes carries \<open>pComment\<close>.
\<close>

definition equivalent_cmd :: "inputs \<Rightarrow> flags \<Rightarrow> 's backend \<Rightarrow> string \<Rightarrow> pending \<Rightarrow> ('s, unit) cmd" where
  "equivalent_cmd inp r be comment p =
     (case pKind p of
        pendSet \<Rightarrow> setCmd inp r be [] (pFormat p) comment False [pKey p, pValue p]
      | pendRollback \<Rightarrow> rollbackCmd r be (pVersion p) comment (pKey p))"

definition comment_args :: "string \<Rightarrow> string list" where
  "comment_args comment = (if comment = [] then [] else [''-m'', comment])"

definition equiv_args :: "string \<Rightarrow> pending \<Rightarrow> string list" where
  "equiv_args comment p =
     (case pKind p of
        pendSet \<Rightarrow> [''lsctl'', ''set'', pKey p, pValue p, ''--format'', pFormat p]
      | pendRollback \<Rightarrow> [''lsctl'', ''rollback'', pKey p, ''--to'', int_str (pVersion p)]) @ comment_args comment"

text \<open>Reporting a write leaves the world alone; as JSON it may still fail.\<close>

lemma reportWrite_state:
  "fst (snd (reportWrite r action key format res (w, out))) = w"
  "pick r OutTable \<noteq> OutJSON \<Longrightarrow> fst (reportWrite r action key format res (w, out)) = Inr ()"
  by (auto simp: reportWrite_def print_err_def EmitJSON_def andThen_def throw_def split: option.split)

lemma call_report:
  "fst (snd (andThen (call f) (\<lambda>res. reportWrite r action key format res) (w, out))) = snd (f w) \<and>
   (pick r OutTable \<noteq> OutJSON \<longrightarrow>
     isl (fst (andThen (call f) (\<lambda>res. reportWrite r action key format res) (w, out))) = isl (fst (f w)))"
proof (cases "f w")
  case (Pair x w')
  then show ?thesis
    by (cases x) (simp_all add: call_def andThen_def reportWrite_state)
qed

text \<open>The interface's write and its equivalent command do the same to the world.\<close>

lemma equivalent_cmd_effect:
  assumes "pend_law p" and "flAuthor r = author"
  shows "fst (snd (equivalent_cmd inp r be (pComment p) p (w, out))) = snd (run_write be author p w) \<and>
    (pick r OutTable \<noteq> OutJSON \<longrightarrow>
      isl (fst (equivalent_cmd inp r be (pComment p) p (w, out))) = isl (fst (run_write be author p w)))"
proof -
  consider "p = pend_set (pKey p) (pValue p) (pFormat p)" "validFormat (pFormat p)"
    | "p = pend_rollback (pKey p) (pVersion p)" "0 < pVersion p"
    using assms(1) by (auto simp: pend_law_def)
  then show ?thesis
  proof cases
    case 1
    have k: "pKind p = pendSet" by (subst 1(1)) (simp add: pend_set_def)
    have ne: "pFormat p \<noteq> []" using 1(2) by (auto simp: validFormat_def)
    have rv: "readValue inp [] [pKey p, pValue p] = Inr (pValue p, [])" by (simp add: readValue_def)
    have "equivalent_cmd inp r be (pComment p) p (w, out) =
      andThen (call (beSet be (pKey p) (pValue p) (pFormat p) (write_change author p)))
        (\<lambda>res. reportWrite r ''wrote'' (pKey p) (pFormat p) res) (w, out)"
      using 1(2) ne assms(2)
      by (simp add: equivalent_cmd_def k setCmd_def rv lift_sum_def Let_def andThen_def change_def write_change_def)
    then show ?thesis using call_report by (simp add: run_write_def k)
  next
    case 2
    have k: "pKind p = pendRollback" by (subst 2(1)) (simp add: pend_rollback_def)
    have "equivalent_cmd inp r be (pComment p) p (w, out) =
      andThen (call (beRollback be (pKey p) (pVersion p) (write_change author p)))
        (\<lambda>res. reportWrite r (''rolled back to v'' @ int_str (pVersion p)) (pKey p) [] res) (w, out)"
      using 2(2) assms(2) by (simp add: equivalent_cmd_def k rollbackCmd_def change_def write_change_def)
    then show ?thesis using call_report by (simp add: run_write_def k)
  qed
qed

section \<open>The contract\<close>

definition lawful :: "('s \<Rightarrow> bool) \<Rightarrow> 's ui_state \<Rightarrow> bool" where
  "lawful ok st \<longleftrightarrow>
     ok (uWorld st) \<and> model_law (uModel st) \<and> (\<forall>t\<in>set (uTasks st). task_law t) \<and>
     (\<forall>x\<in>set (uInbox st). msg_law x)"

text \<open>
  The abstract machine the interface refines: a world that changes by \<open>lsctl\<close> commands and by what other
  clients do, nothing else.
\<close>

datatype cli_event = Command pending | Other

inductive cli_run :: "'s backend set \<Rightarrow> ('s \<Rightarrow> bool) \<Rightarrow> string \<Rightarrow> 's \<Rightarrow> cli_event list \<Rightarrow> 's \<Rightarrow> bool"
  for bes ok author w0 where
  idle: "cli_run bes ok author w0 [] w0"
| command: "cli_run bes ok author w0 es w \<Longrightarrow> be \<in> bes \<Longrightarrow>
    (\<And>inp r out. flAuthor r = author \<Longrightarrow> fst (snd (equivalent_cmd inp r be (pComment p) p (w, out))) = w') \<Longrightarrow>
    cli_run bes ok author w0 (es @ [Command p]) w'"
| other: "cli_run bes ok author w0 es w \<Longrightarrow> ok w' \<Longrightarrow> cli_run bes ok author w0 (es @ [Other]) w'"

fun cli_events :: "ui_event list \<Rightarrow> cli_event list" where
  "cli_events [] = []"
| "cli_events (Ran (DoWrite a p) # tr) = Command p # cli_events tr"
| "cli_events (Elsewhere # tr) = Other # cli_events tr"
| "cli_events (_ # tr) = cli_events tr"

lemma cli_events_append: "cli_events (xs @ ys) = cli_events xs @ cli_events ys"
  by (induction xs rule: cli_events.induct) auto

lemma run_author: "ui_run bes ok (ui_start zero author pfxs w) tr st \<Longrightarrow> mAuthor (uModel st) = author"
proof (induction rule: ui_run.induct)
  case start
  then show ?case by (simp add: ui_start_def Init_def loadKeys_def Let_def NewModel_def)
next
  case (more tr st ev st')
  from more.hyps(2) show ?case
  proof cases
    case (input x env m ts fs)
    then show ?thesis using more.IH Update_loads[of env x "uModel st" "uFiles st" "(m, ts)" fs] by simp
  next
    case (deliver us x vs env m ts fs)
    then show ?thesis using more.IH Update_loads[of env x "uModel st" "uFiles st" "(m, ts)" fs] by simp
  qed (use more.IH in simp_all)
qed

locale ui_backend =
  fixes bes :: "'s backend set" and ok :: "'s \<Rightarrow> bool"
  assumes get_law: "be \<in> bes \<Longrightarrow> ok w \<Longrightarrow> fst (beGet be k w) = Inr d \<Longrightarrow>
      dKey d = k \<and> ValidateKey k = None \<and> validFormat (dFormat d)"
    and history_law: "be \<in> bes \<Longrightarrow> ok w \<Longrightarrow> fst (beHistory be k n w) = Inr hs \<Longrightarrow> h \<in> set hs \<Longrightarrow> 0 < aVersion h"
    and reads: "be \<in> bes \<Longrightarrow> snd (beGet be k w) = w" "be \<in> bes \<Longrightarrow> snd (beHistory be k n w) = w"
      "be \<in> bes \<Longrightarrow> snd (beList be ps w) = w"
    and writes: "be \<in> bes \<Longrightarrow> ok w \<Longrightarrow> ok (snd (beSet be k v f c w))"
      "be \<in> bes \<Longrightarrow> ok w \<Longrightarrow> ok (snd (beRollback be k n c w))"
begin

lemma run_write_ok: "be \<in> bes \<Longrightarrow> ok w \<Longrightarrow> ok (snd (run_write be author p w))"
  by (simp add: run_write_def writes split: pendKind.split)

lemma run_task_lawful:
  assumes "be \<in> bes" and "ok w" and "task_law t" and "run_task be t w = ((ts, xs), w')"
  shows "ok w' \<and> (\<forall>t'\<in>set ts. task_law t') \<and> (\<forall>x\<in>set xs. msg_law x)"
  using assms
proof (cases t)
  case (FetchKeys n ps)
  then show ?thesis using assms reads(3)[OF assms(1), of ps w] by (auto split: prod.splits)
next
  case (FetchDetail n k)
  then show ?thesis
    using assms reads(1)[OF assms(1), of k w] get_law[OF assms(1,2), of k]
    by (auto split: prod.splits sum.splits)
next
  case (FetchHistory n k d)
  then show ?thesis
    using assms reads(2)[OF assms(1), of k uiHistoryLimit w] history_law[OF assms(1,2), of k uiHistoryLimit]
    by (auto split: prod.splits sum.splits)
next
  case (DoWrite a p)
  then show ?thesis using assms run_write_ok[OF assms(1,2), of a p] by (auto split: prod.splits)
qed auto

lemma step_lawful:
  assumes "ui_step bes ok st ev st'" and "state_ok st" and "lawful ok st"
  shows "lawful ok st'"
  using assms(1)
proof cases
  case (input x env m ts fs)
  have "msg_law x" using input(3) by (cases x) auto
  then have "law_upd (m, ts)"
    using Update_law[of "uModel st" x env "uFiles st"] assms(2,3) input(4) by (simp add: state_ok_def lawful_def)
  then show ?thesis using input assms(3) by (auto simp: lawful_def law_upd_def)
next
  case (deliver us x vs env m ts fs)
  have "msg_law x" using assms(3) deliver(3) by (simp add: lawful_def)
  then have "law_upd (m, ts)"
    using Update_law[of "uModel st" x env "uFiles st"] assms(2,3) deliver(4) by (simp add: state_ok_def lawful_def)
  then show ?thesis using deliver assms(3) by (auto simp: lawful_def law_upd_def)
next
  case (ran us t vs be ts xs w)
  then show ?thesis using run_task_lawful[of be "uWorld st" t ts xs w] assms(3) by (auto simp: lawful_def)
next
  case (edited us ed path key format vs run_ok remove_ok content x fs)
  then have "validFormat format" using assms(3) by (simp add: lawful_def)
  then have "msg_law x" using edited by (auto simp: edit_done_def split: if_splits option.splits)
  then show ?thesis using edited assms(3) by (auto simp: lawful_def)
next
  case (elsewhere w)
  then show ?thesis using assms(3) by (simp add: lawful_def)
qed

lemma run_lawful:
  assumes "ui_run bes ok (ui_start zero author pfxs w) tr st" and "ok w"
  shows "lawful ok st"
  using assms(1)
proof (induction rule: ui_run.induct)
  case start
  then show ?case using assms(2) by (simp add: lawful_def ui_start_def Init_def loadKeys_def Let_def model_law_def NewModel_def)
next
  case (more tr st ev st')
  show ?case by (rule step_lawful[OF more.hyps(2) run_state_in_order[OF more.hyps(1)] more.IH])
qed

lemma run_refines:
  assumes "ui_run bes ok (ui_start zero author pfxs w) tr st" and "ok w"
  shows "cli_run bes ok author w (cli_events tr) (uWorld st)"
  using assms(1)
proof (induction rule: ui_run.induct)
  case start
  have "uWorld (ui_start zero author pfxs w) = w" by (simp add: ui_start_def Init_def loadKeys_def Let_def)
  then show ?case by (simp add: cli_run.idle)
next
  case (more tr st ev st')
  have law: "lawful ok st" by (rule run_lawful[OF more.hyps(1) assms(2)])
  have ord: "state_ok st" by (rule run_state_in_order[OF more.hyps(1)])
  have author: "mAuthor (uModel st) = author" by (rule run_author[OF more.hyps(1)])
  from more.hyps(2) show ?case
  proof cases
    case (ran us t vs be ts xs w')
    show ?thesis
    proof (cases "\<exists>a p. t = DoWrite a p")
      case True
      then obtain a p where t: "t = DoWrite a p" by blast
      have "a = author" and p: "pend_law p"
        using ord law ran(3) author by (auto simp: state_ok_def lawful_def t)
      then have w': "w' = snd (run_write be author p (uWorld st))"
        using ran(6) by (auto simp: t split: prod.splits)
      have "cli_run bes ok author w (cli_events tr @ [Command p]) w'"
        by (rule cli_run.command[OF more.IH ran(5)]) (simp add: equivalent_cmd_effect[OF p] w')
      then show ?thesis using ran by (simp add: cli_events_append t)
    next
      case False
      then have "w' = uWorld st"
        using ran(4,6) reads[OF ran(5)] by (cases t) (auto split: prod.splits sum.splits, (metis snd_conv)+)
      moreover have "cli_events [Ran t] = []" using False ran(4) by (cases t) auto
      ultimately show ?thesis using more.IH ran by (simp add: cli_events_append)
    qed
  next
    case (elsewhere w')
    then show ?thesis using cli_run.other[OF more.IH, of w'] by (simp add: cli_events_append)
  qed (use more.IH in \<open>simp_all add: cli_events_append\<close>)
qed

lemma run_detail:
  assumes "ui_run bes ok (ui_start zero author pfxs w) tr st" and "ok w" and "mHasDetail (uModel st)"
  shows "dKey (mDetail (uModel st)) = selectedKey (uModel st)"
  using run_lawful[OF assms(1,2)] run_state_in_order[OF assms(1)] assms(3)
  by (simp add: lawful_def model_law_def state_ok_def coreD(4))

lemma run_pending:
  assumes "ui_run bes ok (ui_start zero author pfxs w) tr st" and "ok w" and "mPend (uModel st) = Some p"
  shows "pend_law p"
  using run_lawful[OF assms(1,2)] assms(3) by (simp add: lawful_def model_law_def)

end

section \<open>The database backend keeps it\<close>

text \<open>The database backend under any faults, with the validation of YAML fixed.\<close>

definition db_bes :: "(string \<Rightarrow> string option) \<Rightarrow> Dialect \<Rightarrow> string \<Rightarrow> db backend set" where
  "db_bes y dia desc = {be. \<exists>e sqls. yaml e = y \<and> be = db_be e sqls dia desc}"

lemma Get_found:
  assumes "wf_db y d" and "fst (Get e key d) = Inr c"
  shows "cKey c = key \<and> ValidateKey key = None \<and> ValidateValue y (cValue c) (cFormat c) = None"
proof -
  have "config_row key (tabs d) = Some c"
    using assms(2) by (auto simp: Get_def getConfig_def query_def run_def andThen_def check_def throw_def ret_def
        split: option.splits sum.splits prod.splits if_splits)
  then have "cKey c = key" "c \<in> set (config (tabs d))" using config_row_key by blast+
  then show ?thesis using wf_dbD(2)[OF assms(1)] by (auto simp: config_ok_def)
qed

lemma History_found:
  assumes "wf_db y d" and "fst (History e key n d) = Inr hs" and "h \<in> set hs"
  shows "0 < hVersion h"
proof -
  have "hs = select_history key n (tabs d)"
    using assms(2) by (auto simp: History_def query_def run_def andThen_def check_def split: option.splits sum.splits prod.splits if_splits)
  then have "h \<in> set (history_rows key (tabs d))"
    using assms(3) by (auto simp: select_history_def Let_def split: if_splits dest: in_set_takeD)
  moreover have "map hVersion (history_rows key (tabs d)) = map int [1..<length (history_rows key (tabs d)) + 1]"
    using wf_dbD(4)[OF assms(1)] by (simp add: versions_ok_def)
  ultimately have "hVersion h \<in> set (map int [1..<length (history_rows key (tabs d)) + 1])"
    by (metis image_eqI set_map)
  then show ?thesis by auto
qed

lemma valid_format_iff: "ValidateValue y v f = None \<Longrightarrow> validFormat f"
  using ValidateValue_format[of y v f] by (auto simp: validFormat_def format_defs)

interpretation db_ui: ui_backend "db_bes y dia desc" "wf_db y"
proof
  fix be w k d
  assume be: "be \<in> db_bes y dia desc" and wf: "wf_db y w"
  then obtain e sqls where e: "yaml e = y" "be = db_be e sqls dia desc" by (auto simp: db_bes_def)
  show "dKey d = k \<and> ValidateKey k = None \<and> validFormat (dFormat d)" if "fst (beGet be k w) = Inr d"
    using that Get_found[OF wf, of e k] valid_format_iff
    by (auto simp: e db_be_def db_get_def to_detail_def map_sum_def split: sum.splits)
  show "0 < aVersion h" if "fst (beHistory be k n w) = Inr hs" "h \<in> set hs" for n hs h
    using that History_found[OF wf, of e k n]
    by (auto simp: e db_be_def db_history_def to_api_history_def split: sum.splits if_splits)
  show "wf_db y (snd (beSet be k v f c w))" for v f c
    using wf_db_write[of e w] wf e by (simp add: db_be_def db_set_def db_result_def Set_def)
  show "wf_db y (snd (beRollback be k n c w))" for n c
    using wf_db_write[of e w] wf e by (simp add: db_be_def db_rollback_def db_result_def Rollback_def)
next
  fix be w k n ps
  assume "be \<in> db_bes y dia desc"
  then show "snd (beGet be k w) = w" "snd (beHistory be k n w) = w" "snd (beList be ps w) = w"
    by (auto simp: db_bes_def db_be_def)
qed

end
