(* ===== verification/Ui_Shown.thy ===== *)
theory Ui_Shown
  imports Ui_Contract
begin

text \<open>
  Where what the interface shows comes from. One message replaces the detail shown only by the answer
  it carries, and opens the overlay of a pending write only over the detail shown at that moment: with
  the diff against the text that came back from the editor, or against the version under the cursor.
  Along a run, every answer is what the backend gave for its key: the value first, then the history.
\<close>

section \<open>What one message changes\<close>

definition detail_kept :: "Model \<Rightarrow> Model \<Rightarrow> bool" where
  "detail_kept m m' \<longleftrightarrow>
     (mHasDetail m' \<longrightarrow> mHasDetail m \<and> mDetail m' = mDetail m \<and> mHistory m' = mHistory m \<and>
        mDetailKey m' = mDetailKey m)"

definition overlay_kept :: "Model \<Rightarrow> Model \<Rightarrow> bool" where
  "overlay_kept m m' \<longleftrightarrow>
     (mPend m' \<noteq> None \<longrightarrow> mPend m' = mPend m \<and> mOverlayTitle m' = mOverlayTitle m \<and>
        mOverlayLines m' = mOverlayLines m)"

text \<open>
  The overlay of a pending write, over the model in which it was opened: the diff from the value shown
  to the new one, or a line that names the change of format when only that differs.
\<close>

definition set_preview :: "Model \<Rightarrow> pending \<Rightarrow> string \<Rightarrow> uiLine list \<Rightarrow> bool" where
  "set_preview m p title shown_lines \<longleftrightarrow>
     mHasDetail m \<and> pKey p = dKey (mDetail m) \<and> p = pend_set (pKey p) (pValue p) (pFormat p) \<and>
     title = ''Save '' @ pKey p \<and>
     (let d = UnifiedDiff (dValue (mDetail m)) (pValue p) (current_label (pKey p)) (pKey p @ ''@edited'') DiffContext
      in d \<noteq> [] \<and> shown_lines = diffLinesStyled d)"

definition rollback_preview :: "Model \<Rightarrow> pending \<Rightarrow> string \<Rightarrow> uiLine list \<Rightarrow> bool" where
  "rollback_preview m p title shown_lines \<longleftrightarrow>
     mHasDetail m \<and> pKey p = dKey (mDetail m) \<and> p = pend_rollback (pKey p) (pVersion p) \<and>
     title = ''Roll back '' @ pKey p @ '' to v'' @ int_str (pVersion p) \<and>
     (\<exists>h. history_at_cursor m = Some h \<and> aVersion h = pVersion p \<and>
       (let d = UnifiedDiff (dValue (mDetail m)) (aValue h) (current_label (pKey p)) (at_version (pKey p) (aVersion h)) DiffContext
        in (d \<noteq> [] \<or> dFormat (mDetail m) \<noteq> aFormat h) \<and>
           shown_lines = diffLinesStyled (if d = [] then format_only (dFormat (mDetail m)) (aFormat h) else d)))"

definition opens :: "msg \<Rightarrow> Model \<Rightarrow> pending \<Rightarrow> string \<Rightarrow> uiLine list \<Rightarrow> bool" where
  "opens x m p title shown_lines \<longleftrightarrow>
     x = EditedMsg (pKey p) (Inr (pFormat p, pValue p)) \<and> set_preview m p title shown_lines \<or>
     (\<exists>k. x = KeyMsg k \<and> kString k = ''enter'') \<and> mMode m = modeBrowse \<and> mFocus m = paneHistory \<and>
       rollback_preview m p title shown_lines"

definition shown_step :: "msg \<Rightarrow> Model \<Rightarrow> upd \<Rightarrow> bool" where
  "shown_step x m u \<longleftrightarrow>
     (detail_kept m (fst u) \<or>
        (\<exists>n e. x = DetailMsg n (mDetailKey (fst u)) (Inr (mDetail (fst u), mHistory (fst u), e)))) \<and>
     (overlay_kept m (fst u) \<or>
        (\<exists>p. mPend (fst u) = Some p \<and> opens x m p (mOverlayTitle (fst u)) (mOverlayLines (fst u))))"

definition calm :: "Model \<Rightarrow> upd \<Rightarrow> bool" where
  "calm m u \<longleftrightarrow> detail_kept m (fst u) \<and> overlay_kept m (fst u)"

lemmas calm_defs = calm_def detail_kept_def overlay_kept_def

lemma calm_step: "calm m u \<Longrightarrow> shown_step x m u"
  by (simp add: calm_def shown_step_def)

lemma calm_same:
  "mHasDetail m' = mHasDetail m \<Longrightarrow> mDetail m' = mDetail m \<Longrightarrow> mHistory m' = mHistory m \<Longrightarrow>
   mDetailKey m' = mDetailKey m \<Longrightarrow> mPend m' = mPend m \<and> mOverlayTitle m' = mOverlayTitle m \<and>
   mOverlayLines m' = mOverlayLines m \<or> mPend m' = None \<Longrightarrow> calm m (m', ts)"
  by (auto simp: calm_defs)

lemma calm_cong:
  "mHasDetail m0 = mHasDetail m \<Longrightarrow> mDetail m0 = mDetail m \<Longrightarrow> mHistory m0 = mHistory m \<Longrightarrow>
   mDetailKey m0 = mDetailKey m \<Longrightarrow> mPend m0 = mPend m \<Longrightarrow> mOverlayTitle m0 = mOverlayTitle m \<Longrightarrow>
   mOverlayLines m0 = mOverlayLines m \<Longrightarrow> calm m0 u \<Longrightarrow> calm m u"
  by (simp add: calm_defs)

lemma calm_if: "(c \<Longrightarrow> calm m a) \<Longrightarrow> (\<not> c \<Longrightarrow> calm m b) \<Longrightarrow> calm m (if c then a else b)"
  by simp

lemma calm_syncDetail: "calm m (syncDetail env prev m)"
  by (simp add: syncDetail_def loadDetail_def Let_def calm_defs)

lemma calm_rebuild: "calm m (rebuild env m)"
  unfolding rebuild_def Let_def by (rule calm_cong[OF _ _ _ _ _ _ _ calm_syncDetail]) simp_all

lemma calm_loads: "calm m (loadKeys m)" "mDetailKey m = key \<Longrightarrow> calm m (loadBoth key m)"
  by (simp_all add: loadBoth_def loadKeys_def loadDetail_def Let_def calm_defs)

lemma calm_reload:
  assumes "mDetailKey m = selectedKey m"
  shows "calm m (if key = selectedKey m then loadBoth key m else loadKeys m)"
    "calm m (let m1 = m\<lparr>mStatus := t\<rparr>; sel = selectedKey m1 in if sel \<noteq> [] then loadBoth sel m1 else loadKeys m1)"
proof -
  show "calm m (if key = selectedKey m then loadBoth key m else loadKeys m)"
    using calm_loads(1)[of m] calm_loads(2)[of m "selectedKey m"] assms by simp
  have "selectedKey (m\<lparr>mStatus := t\<rparr>) = selectedKey m" by (simp add: selectedKey_def)
  then show "calm m (let m1 = m\<lparr>mStatus := t\<rparr>; sel = selectedKey m1 in if sel \<noteq> [] then loadBoth sel m1 else loadKeys m1)"
    using assms by (auto simp: Let_def intro!: calm_cong[OF _ _ _ _ _ _ _ calm_loads(1)]
        calm_cong[OF _ _ _ _ _ _ _ calm_loads(2)])
qed

lemma overlay_unscrolled [simp]:
  "mOverlayTitle (clampScroll m) = mOverlayTitle m" "mOverlayLines (clampScroll m) = mOverlayLines m"
  by (simp_all add: clampScroll_def)

lemma calm_move: "move env d m = Some u \<Longrightarrow> calm m u"
  by (auto simp: move_def moveKeys_def Let_def calm_same calm_cong[OF _ _ _ _ _ _ _ calm_syncDetail]
      split: pane.splits option.splits)

lemma calm_jump: "calm m (jump env d m)"
  by (auto simp: jump_def calm_same intro!: calm_cong[OF _ _ _ _ _ _ _ calm_syncDetail] split: pane.split)

lemma calm_refilter: "calm m (rebuild env (m\<lparr>mFilter := flt\<rparr>))"
  by (rule calm_cong[OF _ _ _ _ _ _ _ calm_rebuild]) simp_all

lemma calm_showDiff: "mPend m = None \<Longrightarrow> showDiff m = Some u \<Longrightarrow> calm m u"
  by (auto simp: showDiff_def Let_def calm_same split: if_splits)

lemma calm_startEdit: "calm m (fst (startEdit env m fs))"
  by (auto simp: startEdit_def Let_def calm_same split: option.split prod.split sum.split)

lemma calm_filterKey: "calm m (filterKey env k m)"
proof -
  have "calm m (rebuild env (m\<lparr>mMode := modeBrowse, mFilter := []\<rparr>))"
    by (rule calm_cong[OF _ _ _ _ _ _ _ calm_rebuild]) simp_all
  then show ?thesis by (simp add: filterKey_def Let_def calm_same calm_refilter split: key_type.split)
qed

lemma calm_overlayKey: "calm m (overlayKey k m)"
  by (auto simp: overlayKey_def Let_def calm_same doWrite_def split: option.split)

lemma calm_on_keys: "calm m (on_keys env n r m)"
proof (cases r)
  case (Inl e)
  then show ?thesis by (simp add: on_keys_def calm_same)
next
  case (Inr cs)
  let ?m = "m\<lparr>mLoadingKeys := False, mErrMsg := [], mConfigs := cs\<rparr>"
  obtain m1 ts where reb: "rebuild env ?m = (m1, ts)" by (cases "rebuild env ?m")
  have "calm m (m1, ts)" using calm_rebuild[of ?m env] by (simp add: reb calm_defs)
  then show ?thesis by (simp add: on_keys_def Inr reb calm_defs)
qed

lemma calm_on_write:
  assumes "mDetailKey m = selectedKey m"
  shows "calm m (on_write env action key r m)"
proof (cases r)
  case (Inr res)
  let ?l = "write_line action key res"
  let ?m = "m\<lparr>mErrMsg := [], mStatus := ?l, mWrites := mWrites m @ [?l]\<rparr>"
  have "mDetailKey ?m = selectedKey ?m" using assms by (simp add: selectedKey_def)
  from calm_reload(1)[OF this] show ?thesis
    unfolding on_write_def Inr sum.case Let_def by (rule calm_cong[rotated 7]) simp_all
qed (simp add: on_write_def calm_same)

text \<open>The two ways to a pending write.\<close>

lemma askRollback_step:
  assumes "askRollback m = Some u" and "mMode m = modeBrowse" "mFocus m = paneHistory" and "kString k = ''enter''"
  shows "shown_step (KeyMsg k) m u"
proof (cases "mHasDetail m \<and> mHistory m \<noteq> []")
  case True
  then obtain h where h: "history_at_cursor m = Some h" using assms(1) by (auto simp: askRollback_def)
  let ?key = "dKey (mDetail m)"
  define d where "d = UnifiedDiff (dValue (mDetail m)) (aValue h) (current_label ?key)
    (at_version ?key (aVersion h)) DiffContext"
  show ?thesis
  proof (cases "d = [] \<and> dFormat (mDetail m) = aFormat h")
    case True
    with \<open>mHasDetail m \<and> mHistory m \<noteq> []\<close> h assms(1) show ?thesis
      by (auto simp: askRollback_def Let_def d_def intro!: calm_step calm_same)
  next
    case False
    let ?p = "pend_rollback ?key (aVersion h)"
    let ?lines = "diffLinesStyled (if d = [] then format_only (dFormat (mDetail m)) (aFormat h) else d)"
    let ?title = "''Roll back '' @ ?key @ '' to v'' @ int_str (aVersion h)"
    have u: "u = (openOverlay ?title ?lines (m\<lparr>mPend := Some ?p\<rparr>), [])"
      using True h False assms(1) by (auto simp: askRollback_def Let_def d_def[symmetric])
    have "rollback_preview m ?p ?title ?lines"
      unfolding rollback_preview_def using True h False
      by (auto simp: pend_rollback_def d_def[symmetric])
    then have "opens (KeyMsg k) m ?p ?title ?lines" using assms(2-4) by (simp add: opens_def)
    moreover have "detail_kept m (fst u)" by (simp add: u detail_kept_def)
    moreover have "mOverlayTitle (fst u) = ?title" "mOverlayLines (fst u) = ?lines" "mPend (fst u) = Some ?p"
      by (simp_all add: u openOverlay_def)
    ultimately show ?thesis unfolding shown_step_def by metis
  qed
next
  case False
  then show ?thesis using assms(1) by (auto simp: askRollback_def intro!: calm_step calm_same)
qed

lemma afterEdit_step: "shown_step (EditedMsg key edited) m (afterEdit env key edited m)"
proof (cases edited)
  case (Inl err)
  then show ?thesis by (simp add: afterEdit_def calm_step calm_same)
next
  case (Inr fv)
  obtain format val where fv: "fv = (format, val)" by (cases fv)
  define d where "d = UnifiedDiff (dValue (mDetail m)) val (current_label key) (key @ ''@edited'') DiffContext"
  show ?thesis
  proof (cases "\<not> mHasDetail m \<or> key \<noteq> dKey (mDetail m) \<or> d = []")
    case True
    then show ?thesis by (auto simp: afterEdit_def Inr fv Let_def d_def intro!: calm_step calm_same)
  next
    case False
    let ?p = "pend_set key val format"
    have u: "afterEdit env key edited m = (openOverlay (''Save '' @ key) (diffLinesStyled d) (m\<lparr>mPend := Some ?p\<rparr>), [])"
      using False by (simp add: afterEdit_def Inr fv Let_def d_def)
    have "set_preview m ?p (''Save '' @ key) (diffLinesStyled d)"
      using False unfolding set_preview_def d_def by (simp add: pend_set_def)
    then have "opens (EditedMsg key edited) m ?p (''Save '' @ key) (diffLinesStyled d)"
      unfolding opens_def Inr fv by (simp add: pend_set_def)
    then show ?thesis unfolding shown_step_def u by (simp add: detail_kept_def) (simp add: openOverlay_def)
  qed
qed

definition shown_res :: "msg \<Rightarrow> Model \<Rightarrow> (upd \<times> tempfiles) option \<Rightarrow> bool" where
  "shown_res x m r \<longleftrightarrow> (\<forall>u fs'. r = Some (u, fs') \<longrightarrow> shown_step x m u)"

lemma shown_res_simps [simp]:
  "shown_res x m (Some v) \<longleftrightarrow> shown_step x m (fst v)"
  "shown_res x m (no_files fs r) \<longleftrightarrow> (\<forall>u. r = Some u \<longrightarrow> shown_step x m u)"
  by (auto simp: shown_res_def no_files_def) (metis prod.collapse)+

lemma shown_res_if: "(c \<Longrightarrow> shown_res x m a) \<Longrightarrow> (\<not> c \<Longrightarrow> shown_res x m b) \<Longrightarrow> shown_res x m (if c then a else b)"
  by simp

lemma browseKey_step:
  assumes "core m" and "mMode m = modeBrowse"
  shows "shown_res (KeyMsg k) m (browseKey env k m fs)"
proof -
  have pend: "mPend m = None" using no_pend_outside_overlay[OF assms(1)] assms(2) by simp
  have ovl: "calm m (openOverlay title lines m, [])" for title lines by (simp add: calm_same pend)
  note facts = calm_move calm_jump calm_startEdit calm_refilter calm_reload(2)[OF coreD(4)[OF assms(1)]]
    calm_showDiff[OF pend] ovl calm_same
  show ?thesis
    unfolding browseKey_def Let_def[of "kString k"]
    by (intro shown_res_if)
      (simp_all add: calm_step facts askRollback_step[OF _ assms(2)])
qed

lemma on_detail_step: "shown_step (DetailMsg n key r) m (on_detail env n key r m)"
proof (cases "n \<noteq> mDetailSeq m \<or> key \<noteq> mDetailKey m")
  case True
  then show ?thesis by (simp add: on_detail_def calm_step calm_same)
next
  case False
  then show ?thesis
    by (auto simp: on_detail_def Let_def shown_step_def detail_kept_def overlay_kept_def split: sum.split option.split)
qed

lemma Update_step:
  assumes "core m"
  shows "shown_res x m (Update env x m fs)"
proof -
  note key = coreD(4)[OF assms]
  show ?thesis
  proof (cases x)
    case (KeyMsg k)
    then show ?thesis
      using browseKey_step[OF assms] calm_filterKey[of m env k] calm_overlayKey[of m k]
      by (simp add: Update_def onKey_def calm_step calm_same split: uiMode.split)
  qed (simp_all add: Update_def calm_step calm_same calm_on_keys calm_on_write[OF key] on_detail_step afterEdit_step)
qed

section \<open>Along a run\<close>

text \<open>
  A value that some call of \<open>Get\<close> gave for a key; with the history that a later call gave for the same key
  (none, when that call failed).
\<close>

definition value_read ::
    "'s backend set \<Rightarrow> ('s \<Rightarrow> bool) \<Rightarrow> 's ui_state \<Rightarrow> ui_event list \<Rightarrow> string \<Rightarrow> ConfigDetail \<Rightarrow> bool" where
  "value_read bes ok st0 tr key d \<longleftrightarrow>
     (\<exists>tr1 tr2 st1 be. tr = tr1 @ tr2 \<and> ui_run bes ok st0 tr1 st1 \<and> be \<in> bes \<and>
        fst (beGet be key (uWorld st1)) = Inr d)"

definition fetched ::
    "'s backend set \<Rightarrow> ('s \<Rightarrow> bool) \<Rightarrow> 's ui_state \<Rightarrow> ui_event list \<Rightarrow> string \<Rightarrow> ConfigDetail \<Rightarrow>
     ApiHistory list \<Rightarrow> bool" where
  "fetched bes ok st0 tr key d h \<longleftrightarrow>
     (\<exists>tr1 tr2 st1 be. tr = tr1 @ tr2 \<and> value_read bes ok st0 tr1 key d \<and> ui_run bes ok st0 tr1 st1 \<and> be \<in> bes \<and>
        h = (case fst (beHistory be key uiHistoryLimit (uWorld st1)) of Inr hs \<Rightarrow> hs | Inl _ \<Rightarrow> []))"

text \<open>An overlay of a pending write that the run has opened, over what was fetched for the key then selected.\<close>

definition offered ::
    "'s backend set \<Rightarrow> ('s \<Rightarrow> bool) \<Rightarrow> 's ui_state \<Rightarrow> ui_event list \<Rightarrow> pending \<Rightarrow> string \<Rightarrow> uiLine list \<Rightarrow> bool" where
  "offered bes ok st0 tr p title shown_lines \<longleftrightarrow>
     (\<exists>tr1 ev tr2 st1 x. tr = tr1 @ ev # tr2 \<and> ui_run bes ok st0 tr1 st1 \<and> (ev = Input x \<or> ev = Deliver x) \<and>
        opens x (uModel st1) p title shown_lines \<and>
        fetched bes ok st0 tr1 (selectedKey (uModel st1)) (mDetail (uModel st1)) (mHistory (uModel st1)))"

lemma later:
  "value_read bes ok st0 tr key d \<Longrightarrow> value_read bes ok st0 (tr @ evs) key d"
  "fetched bes ok st0 tr key d h \<Longrightarrow> fetched bes ok st0 (tr @ evs) key d h"
  "offered bes ok st0 tr p title shown_lines \<Longrightarrow> offered bes ok st0 (tr @ evs) p title shown_lines"
  unfolding value_read_def fetched_def offered_def by (metis append.assoc append_Cons)+

definition sourced :: "'s backend set \<Rightarrow> ('s \<Rightarrow> bool) \<Rightarrow> 's ui_state \<Rightarrow> ui_event list \<Rightarrow> 's ui_state \<Rightarrow> bool" where
  "sourced bes ok st0 tr st \<longleftrightarrow>
     (\<forall>n k d. FetchHistory n k d \<in> set (uTasks st) \<longrightarrow> value_read bes ok st0 tr k d) \<and>
     (\<forall>n k d h e. DetailMsg n k (Inr (d, h, e)) \<in> set (uInbox st) \<longrightarrow> fetched bes ok st0 tr k d h) \<and>
     (mHasDetail (uModel st) \<longrightarrow>
        fetched bes ok st0 tr (mDetailKey (uModel st)) (mDetail (uModel st)) (mHistory (uModel st))) \<and>
     (\<forall>p. mPend (uModel st) = Some p \<longrightarrow>
        offered bes ok st0 tr p (mOverlayTitle (uModel st)) (mOverlayLines (uModel st)))"

lemma sourced_later: "sourced bes ok st0 tr st \<Longrightarrow> sourced bes ok st0 (tr @ evs) st"
  unfolding sourced_def using later by meson

lemma update_sourced:
  assumes run: "ui_run bes ok st0 tr st" and core: "core (uModel st)" and src: "sourced bes ok st0 tr st"
    and upd: "Update env x (uModel st) (uFiles st) = Some ((m, ts), fs)"
    and x: "x \<in> set (uInbox st) \<or> is_input x" and ev: "ev = Input x \<or> ev = Deliver x"
    and inbox: "set inbox \<subseteq> set (uInbox st)"
  shows "sourced bes ok st0 (tr @ [ev]) (st\<lparr>uModel := m, uTasks := uTasks st @ ts, uInbox := inbox, uFiles := fs\<rparr>)"
proof -
  have step: "shown_step x (uModel st) (m, ts)"
    using Update_step[OF core, of x env "uFiles st"] upd by (simp add: shown_res_def)
  have ts: "FetchHistory n k d \<notin> set ts" for n k d
    using Update_good[OF core, of env x "uFiles st"] upd by (auto simp: good_upd_def)
  note old = sourced_later[OF src, of "[ev]", unfolded sourced_def]
  have det: "fetched bes ok st0 (tr @ [ev]) (mDetailKey m) (mDetail m) (mHistory m)" if has: "mHasDetail m"
  proof -
    consider "detail_kept (uModel st) m" | n e where "x = DetailMsg n (mDetailKey m) (Inr (mDetail m, mHistory m, e))"
      using step by (auto simp: shown_step_def)
    then show ?thesis
    proof cases
      case 1
      then show ?thesis using old has by (simp add: detail_kept_def)
    next
      case (2 n e)
      then have "x \<in> set (uInbox st)" using x by auto
      then show ?thesis using old 2 by blast
    qed
  qed
  have pend: "offered bes ok st0 (tr @ [ev]) p (mOverlayTitle m) (mOverlayLines m)" if p: "mPend m = Some p" for p
  proof (cases "overlay_kept (uModel st) m")
    case True
    then show ?thesis using old p by (simp add: overlay_kept_def)
  next
    case False
    then have o: "opens x (uModel st) p (mOverlayTitle m) (mOverlayLines m)" using step p by (simp add: shown_step_def)
    then have "mHasDetail (uModel st)" by (auto simp: opens_def set_preview_def rollback_preview_def)
    then have "fetched bes ok st0 tr (selectedKey (uModel st)) (mDetail (uModel st)) (mHistory (uModel st))"
      using src by (simp add: sourced_def coreD(4)[OF core])
    then show ?thesis unfolding offered_def using run o ev by blast
  qed
  have msgs: "fetched bes ok st0 (tr @ [ev]) k d h" if "DetailMsg n k (Inr (d, h, e)) \<in> set inbox" for n k d h e
    using old inbox that by blast
  show ?thesis unfolding sourced_def using old ts det pend msgs by simp
qed

lemma run_sourced:
  "ui_run bes ok (ui_start zero author pfxs w) tr st \<Longrightarrow> sourced bes ok (ui_start zero author pfxs w) tr st"
proof (induction rule: ui_run.induct)
  case start
  then show ?case by (simp add: sourced_def ui_start_def Init_def loadKeys_def Let_def NewModel_def)
next
  case (more tr st ev st')
  let ?st0 = "ui_start zero author pfxs w"
  have core: "core (uModel st)" using run_state_in_order[OF more.hyps(1)] by (simp add: state_ok_def)
  note old = sourced_later[OF more.IH, of "[ev]", unfolded sourced_def]
  from more.hyps(2) show ?case
  proof cases
    case (input x env m ts fs)
    then show ?thesis
      using update_sourced[OF more.hyps(1) core more.IH input(4), of ev "uInbox st"] by simp
  next
    case (deliver us x vs env m ts fs)
    then show ?thesis
      using update_sourced[OF more.hyps(1) core more.IH deliver(4), of ev "us @ vs"] by auto
  next
    case (ran us t vs be ts xs w')
    have tasks: "value_read bes ok ?st0 (tr @ [ev]) k d" if "FetchHistory n k d \<in> set ts" for n k d
    proof -
      have "fst (beGet be k (uWorld st)) = Inr d" using ran(6) that ran(4)
        by (cases t) (auto split: prod.splits sum.splits)
      then show ?thesis unfolding value_read_def using more.hyps(1) ran(5) by blast
    qed
    have msgs: "fetched bes ok ?st0 (tr @ [ev]) k d h" if "DetailMsg n k (Inr (d, h, e)) \<in> set xs" for n k d h e
    proof -
      have "t = FetchHistory n k d"
        "h = (case fst (beHistory be k uiHistoryLimit (uWorld st)) of Inr hs \<Rightarrow> hs | Inl _ \<Rightarrow> [])"
        using ran(6) that ran(4) by (cases t; auto split: prod.splits sum.splits)+
      then show ?thesis
        unfolding fetched_def using more.IH more.hyps(1) ran(3,5) by (auto simp: sourced_def)
    qed
    show ?thesis unfolding sourced_def using old tasks msgs ran by auto
  next
    case (edited us ed path key format vs run_ok remove_ok content x fs)
    obtain r where "x = EditedMsg key r" using edited(4) by (auto simp: edit_done_def split: if_splits option.splits)
    then show ?thesis unfolding sourced_def using old edited by simp
  next
    case (elsewhere w')
    then show ?thesis unfolding sourced_def using old by simp
  qed
qed

end
