(* ===== verification/Ui_Screen.thy ===== *)
theory Ui_Screen
  imports Ui_Shown
begin

text \<open>
  Lemmas on what the interface draws and writes: the rows of boxes and columns, the viewports
  that keep the cursors visible, the names of temporary files, and the words a POSIX shell reads
  in the equivalent command. Nothing is said of the width of a row, which is up to the terminal.
\<close>

section \<open>Boxes, columns, viewports\<close>

text \<open>A line of a pane as a box of width \<open>w\<close> draws it: fitted, between the borders.\<close>

definition cell :: "runewidth \<Rightarrow> int \<Rightarrow> uiLine \<Rightarrow> segment" where
  "cell rw w l = (ulStyle l, fit rw ('' '' @ ulText l) (w - 2))"

text \<open>The line that the \<open>i\<close>-th row of a pane shows from the offset on, an empty one beyond the end.\<close>

definition row_at :: "uiLine list \<Rightarrow> int \<Rightarrow> nat \<Rightarrow> uiLine" where
  "row_at content off i = line_at content (int i + off)"

lemma box_rows:
  assumes "4 \<le> w" and "2 \<le> h"
  shows "length (box rw title focused w h content off) = nat h"
    "i < nat (h - 2) \<Longrightarrow> cell rw w (row_at content off i) \<in> set (box rw title focused w h content off ! Suc i)"
proof -
  have b: "\<not> (w < 4 \<or> h < 2)" using assms by simp
  show "length (box rw title focused w h content off) = nat h"
    using assms by (simp add: box_def Let_def)
  assume i: "i < nat (h - 2)"
  then show "cell rw w (row_at content off i) \<in> set (box rw title focused w h content off ! Suc i)"
    unfolding box_def if_not_P[OF b] Let_def by (simp add: nth_append cell_def row_at_def)
qed

lemma columns_room:
  assumes "uiMinWidth \<le> mW m" and "columnWidths m = (kw, hw)"
  shows "4 \<le> kw" "4 \<le> hw" "4 \<le> mW m - kw - hw"
  using assms by (auto simp: columnWidths_def clamp_def uiMinWidth_def min_def max_def split: if_splits)

lemma joinCols_size:
  assumes "\<forall>c\<in>set cols. length c = n" and "cols \<noteq> []"
  shows "joinCols cols = map (\<lambda>i. concat (map (\<lambda>c. c ! i) cols)) [0..<n]"
proof -
  have "fold max (map length cols) 0 = n"
  proof -
    have "fold max (replicate k n) x = (if k = 0 then x else max n x)" for k x
      by (induction k arbitrary: x) auto
    moreover have "map length cols = replicate (length cols) n"
      using assms(1) by (simp add: map_replicate_const[symmetric] cong: map_cong)
    ultimately show ?thesis using assms(2) by simp
  qed
  then show ?thesis using assms(1) by (auto simp: joinCols_def cong: map_cong)
qed

text \<open>The three panes: each row shows a line of each of them, at the pane's own offset.\<close>

lemma panes_rows:
  assumes "uiMinWidth \<le> mW m" and "columnWidths m = (kw, hw)"
  shows "length (panes ve m) = nat (innerH m + 2)"
    "i < nat (innerH m) \<Longrightarrow>
       cell (veWidth ve) kw (row_at (keysContent (innerH m) m) 0 i) \<in> set (panes ve m ! Suc i) \<and>
       cell (veWidth ve) (mW m - kw - hw) (row_at (valueContent m) (mVoff m) i) \<in> set (panes ve m ! Suc i) \<and>
       cell (veWidth ve) hw (row_at (historyContent ve (innerH m) m) 0 i) \<in> set (panes ve m ! Suc i)"
proof -
  let ?rw = "veWidth ve" and ?h = "innerH m + 2" and ?vw = "mW m - kw - hw"
  let ?b1 = "box ?rw (''keys'' @ filterTag m) (mFocus m = paneKeys) kw ?h (keysContent (innerH m) m) 0"
  let ?b2 = "box ?rw (valueTitle m) (mFocus m = paneValue) ?vw ?h (valueContent m) (mVoff m)"
  let ?b3 = "box ?rw ''history'' (mFocus m = paneHistory) hw ?h (historyContent ve (innerH m) m) 0"
  note room = columns_room[OF assms]
  have h: "2 \<le> ?h" by (simp add: innerH_def)
  have len: "\<forall>c\<in>set [?b1, ?b2, ?b3]. length c = nat ?h"
    using box_rows(1)[OF room(1) h] box_rows(1)[OF room(2) h] box_rows(1)[OF room(3) h] by simp
  have p: "panes ve m = map (\<lambda>i. concat (map (\<lambda>c. c ! i) [?b1, ?b2, ?b3])) [0..<nat ?h]"
    using joinCols_size[OF len list.distinct(2)] by (simp add: panes_def assms(2) Let_def)
  show "length (panes ve m) = nat ?h" unfolding p by simp
  assume i: "i < nat (innerH m)"
  then have lt: "Suc i < nat ?h" "i < nat (?h - 2)" by simp_all
  then have "panes ve m ! Suc i = ?b1 ! Suc i @ ?b2 ! Suc i @ ?b3 ! Suc i"
    unfolding p by (subst nth_map) simp_all
  then show "cell ?rw kw (row_at (keysContent (innerH m) m) 0 i) \<in> set (panes ve m ! Suc i) \<and>
      cell ?rw ?vw (row_at (valueContent m) (mVoff m) i) \<in> set (panes ve m ! Suc i) \<and>
      cell ?rw hw (row_at (historyContent ve (innerH m) m) 0 i) \<in> set (panes ve m ! Suc i)"
    using box_rows(2)[OF room(1) h lt(2)] box_rows(2)[OF room(2) h lt(2)] box_rows(2)[OF room(3) h lt(2)] by simp
qed

lemma View_rows:
  assumes "uiMinWidth \<le> mW m" and "uiMinHeight \<le> mH m" and "columnWidths m = (kw, hw)"
  shows "length (View ve m) = nat (mH m)"
    "mMode m = modeOverlay \<Longrightarrow> i < nat (innerH m) \<Longrightarrow>
       cell (veWidth ve) (mW m) (row_at (mOverlayLines m) (mOoff m) i) \<in> set (View ve m ! (i + 2))"
    "mMode m \<noteq> modeOverlay \<Longrightarrow> i < nat (innerH m) \<Longrightarrow> View ve m ! (i + 2) = panes ve m ! Suc i"
proof -
  have w: "4 \<le> mW m" using assms(1) by (simp add: uiMinWidth_def)
  have h: "2 \<le> innerH m + 2" "nat (innerH m + 2) + 3 = nat (mH m)"
    using assms(2) by (simp_all add: innerH_def uiMinHeight_def)
  have big: "\<not> (mW m < uiMinWidth \<or> mH m < uiMinHeight)" using assms by auto
  note sizes = box_rows(1)[OF w h(1)] panes_rows(1)[OF assms(1,3)]
  show "length (View ve m) = nat (mH m)"
    using sizes h(2) unfolding View_def if_not_P[OF big] by auto
  show "cell (veWidth ve) (mW m) (row_at (mOverlayLines m) (mOoff m) i) \<in> set (View ve m ! (i + 2))"
    if "mMode m = modeOverlay" "i < nat (innerH m)"
  proof -
    have i: "i < nat (innerH m + 2 - 2)" "Suc i < nat (innerH m + 2)" using that by simp_all
    from box_rows(2)[OF w h(1) i(1)] show ?thesis
      using that(1) i(2) sizes(1) unfolding View_def if_not_P[OF big] by (simp add: nth_append)
  qed
  show "View ve m ! (i + 2) = panes ve m ! Suc i" if "mMode m \<noteq> modeOverlay" "i < nat (innerH m)"
  proof -
    have "Suc i < length (panes ve m)" using that(2) sizes(2) by simp
    then show ?thesis using that(1) unfolding View_def if_not_P[OF big] by (simp add: nth_append)
  qed
qed

text \<open>A line of a pane that has no more lines than rows, and starts at its top, is on a row.\<close>

lemma listed_row:
  assumes "l \<in> set content" and "length content \<le> n"
  obtains i where "i < n" and "row_at content 0 i = l"
proof -
  from assms(1) obtain i where i: "i < length content" "content ! i = l" by (auto simp: in_set_conv_nth)
  then show thesis using that[of i] assms(2) by (simp add: row_at_def line_at_def)
qed

lemma pane_fits:
  "length (keysContent (innerH m) m) \<le> nat (innerH m)"
  "length (historyContent ve (innerH m) m) \<le> nat (innerH m)"
  by (auto simp: keysContent_def historyContent_def shown_def innerH_def)

section \<open>The cursor stays in view\<close>

lemma window_shows:
  assumes "0 \<le> cur" and "cur < n" and "0 < h"
  shows "0 \<le> window cur n h" "window cur n h \<le> cur" "cur < window cur n h + h"
  using assms by (auto simp: window_def clamp_def min_def max_def)

lemma shown_cursor:
  assumes "0 \<le> cur" and "cur < int (length xs)" and "0 < h"
  shows "(cur, xs ! nat cur) \<in> set (shown (window cur (int (length xs)) h) h xs)"
proof -
  let ?s = "nat (window cur (int (length xs)) h)"
  have w: "?s \<le> nat cur" "nat cur < ?s + nat h" using window_shows[OF assms] assms by linarith+
  have lt: "nat cur < length xs" using assms(1,2) by (simp add: nat_less_iff)
  then have "nat cur - ?s < length xs - ?s" "nat cur - ?s < nat h" using w by linarith+
  then have "nat cur - ?s < length (take (nat h) [?s..<length xs])" by simp
  moreover have "take (nat h) [?s..<length xs] ! (nat cur - ?s) = nat cur"
    using w lt by (subst nth_take) (auto simp: less_diff_conv2)
  ultimately have "nat cur \<in> set (take (nat h) [?s..<length xs])" by (metis nth_mem)
  then show ?thesis using assms(1) by (force simp: shown_def)
qed

lemma key_in_view:
  assumes "core m" and "mRows m \<noteq> []"
  shows "key_line m (mCur m, mRows m ! nat (mCur m)) \<in> set (keysContent (innerH m) m) \<and>
    krKey (mRows m ! nat (mCur m)) = selectedKey m"
proof -
  have c: "0 \<le> mCur m" "mCur m < int (length (mRows m))"
    using coreD(5)[OF assms(1)] assms(2) by (auto simp: cursor_ok_def)
  have "0 < innerH m" by (simp add: innerH_def)
  from shown_cursor[OF c this] show ?thesis
    using assms(2) c by (auto simp: keysContent_def selectedKey_def)
qed

lemma version_in_view:
  assumes "core m" and "mHasDetail m" and "mHistory m \<noteq> []"
  shows "history_line ve m (mHcur m, mHistory m ! nat (mHcur m)) \<in> set (historyContent ve (innerH m) m) \<and>
    history_at_cursor m = Some (mHistory m ! nat (mHcur m))"
proof -
  have c: "0 \<le> mHcur m" "mHcur m < int (length (mHistory m))"
    using coreD(2)[OF assms(1)] assms(3) by (auto simp: offsets_ok_def clamp_fixed split: if_splits)
  have "0 < innerH m" by (simp add: innerH_def)
  from shown_cursor[OF c this] show ?thesis
    using assms(2,3) c by (auto simp: historyContent_def history_at_cursor_def)
qed

text \<open>Both are on the screen.\<close>

lemma key_on_screen:
  assumes "core m" and "mRows m \<noteq> []" and "uiMinWidth \<le> mW m" and "uiMinHeight \<le> mH m"
    and "columnWidths m = (kw, hw)" and "mMode m \<noteq> modeOverlay"
  shows "\<exists>i<nat (innerH m). cell (veWidth ve) kw (key_line m (mCur m, mRows m ! nat (mCur m))) \<in> set (View ve m ! (i + 2))"
proof -
  obtain i where i: "i < nat (innerH m)"
    and "row_at (keysContent (innerH m) m) 0 i = key_line m (mCur m, mRows m ! nat (mCur m))"
    using listed_row[OF conjunct1[OF key_in_view[OF assms(1,2)]] pane_fits(1)] .
  then show ?thesis
    using panes_rows(2)[OF assms(3,5) i, of ve] View_rows(3)[OF assms(3,4,5,6) i, of ve] by auto
qed

lemma version_on_screen:
  assumes "core m" and "mHasDetail m" and "mHistory m \<noteq> []" and "uiMinWidth \<le> mW m" and "uiMinHeight \<le> mH m"
    and "columnWidths m = (kw, hw)" and "mMode m \<noteq> modeOverlay"
  shows "\<exists>i<nat (innerH m). cell (veWidth ve) hw (history_line ve m (mHcur m, mHistory m ! nat (mHcur m))) \<in>
    set (View ve m ! (i + 2))"
proof -
  obtain i where i: "i < nat (innerH m)"
    and "row_at (historyContent ve (innerH m) m) 0 i = history_line ve m (mHcur m, mHistory m ! nat (mHcur m))"
    using listed_row[OF conjunct1[OF version_in_view[OF assms(1-3)]] pane_fits(2)] .
  then show ?thesis
    using panes_rows(2)[OF assms(4,6) i, of ve] View_rows(3)[OF assms(4,5,6,7) i, of ve] by auto
qed

text \<open>A viewport never shows rows beyond the end while lines before it are hidden.\<close>

lemma viewports_filled:
  assumes "core m"
  shows "0 \<le> mOoff m" "mOoff m = 0 \<or> mOoff m + innerH m \<le> int (length (mOverlayLines m))"
    "0 \<le> mVoff m" "mVoff m = 0 \<or> mVoff m + innerH m \<le> int (length (valueLines (dValue (mDetail m))))"
  using coreD(2)[OF assms] by (auto simp: offsets_ok_def clamp_fixed)

section \<open>Names of temporary files\<close>

definition name_char :: "char \<Rightarrow> bool" where
  "name_char c \<longleftrightarrow> safe_char c \<or> c = CHR ''-''"

lemma set_TrimRightByte: "set (TrimRightByte c s) \<subseteq> set s"
  unfolding TrimRightByte_def using set_dropWhileD by fastforce

lemma set_trim_dash: "set (trim_dash s) \<subseteq> set s"
  unfolding trim_dash_def using set_TrimRightByte set_dropWhileD by fastforce

lemma length_trim_dash: "length (trim_dash s) \<le> length s"
proof -
  have "length (TrimRightByte c t) \<le> length t" for c t
    using length_dropWhile_le[of "\<lambda>x. x = c" "rev t"] by (simp add: TrimRightByte_def)
  then show ?thesis
    using length_dropWhile_le[of "\<lambda>c. c = CHR ''-''" s] le_trans unfolding trim_dash_def by blast
qed

lemma safe_step_chars: "list_all name_char b \<Longrightarrow> list_all name_char (safe_step r b)"
  by (auto simp: safe_step_def safe_rune_def name_char_def split: list.splits if_splits)

lemma safe_fold_chars: "list_all name_char b \<Longrightarrow> list_all name_char (fold safe_step rs b)"
  by (induction rs arbitrary: b) (simp_all add: safe_step_chars)

lemma safeName_chars: "list_all name_char (safeName key) \<and> length (safeName key) \<le> 48"
proof -
  let ?s = "fold safe_step (runes key) []"
  have s: "list_all name_char ?s" by (rule safe_fold_chars) simp
  have sub: "list_all name_char (trim_dash t)" if "list_all name_char t" for t
    using that set_trim_dash[of t] by (auto simp: list_all_iff)
  have "list_all name_char (take 48 (trim_dash ?s))"
    using sub[OF s] by (auto simp: list_all_iff dest: in_set_takeD)
  then have "list_all name_char (safeName key)" using sub[OF s] sub by (simp add: safeName_def Let_def)
  moreover have "length (safeName key) \<le> 48"
    using length_trim_dash[of "take 48 (trim_dash ?s)"] by (auto simp: safeName_def Let_def)
  ultimately show ?thesis by blast
qed

lemma temp_pattern_chars:
  shows "CHR ''/'' \<notin> set (temp_pattern key format)" "length (temp_pattern key format) \<le> 61"
    "count_list (temp_pattern key format) CHR ''*'' = 1"
proof -
  have n: "name_char c" if "c \<in> set (safeName key)" for c
    using safeName_chars[of key] that by (auto simp: list_all_iff)
  have e: "extFor format \<in> {''.yaml'', ''.json'', ''.txt''}" by (simp add: extFor_def)
  have ns: "CHR ''/'' \<notin> set (safeName key)" "CHR ''*'' \<notin> set (safeName key)"
    using n[of "CHR ''/''"] n[of "CHR ''*''"] by (auto simp: name_char_def safe_char_def)
  show "CHR ''/'' \<notin> set (temp_pattern key format)" using ns e by (auto simp: temp_pattern_def)
  show "length (temp_pattern key format) \<le> 61"
    using safeName_chars[of key] e by (auto simp: temp_pattern_def)
  show "count_list (temp_pattern key format) CHR ''*'' = 1"
    using ns e by (auto simp: temp_pattern_def)
qed

section \<open>The words a shell reads\<close>

text \<open>
  The rules of POSIX for quoting, as a reference: blanks separate words, a backslash quotes the next
  character, everything between single quotes is literal. Characters with another meaning are
  not followed (\<open>None\<close>); \<open>shell_plain\<close> lists those without any.
\<close>

definition shell_plain :: "char \<Rightarrow> bool" where
  "shell_plain c \<longleftrightarrow> key_char c \<or> c = CHR ''/''"

definition word_so_far :: "string option \<Rightarrow> string" where
  "word_so_far w = (case w of None \<Rightarrow> [] | Some x \<Rightarrow> x)"

fun shell_words :: "bool \<Rightarrow> string option \<Rightarrow> string \<Rightarrow> string list option" where
  "shell_words True w [] = None"
| "shell_words False w [] = Some (case w of None \<Rightarrow> [] | Some x \<Rightarrow> [x])"
| "shell_words True w (c # s) =
     (if c = Quote then shell_words False w s else shell_words True (Some (word_so_far w @ [c])) s)"
| "shell_words False w (c # s) =
     (if c = CHR '' '' \<or> c = TAB then
        (case w of None \<Rightarrow> shell_words False None s | Some x \<Rightarrow> map_option (Cons x) (shell_words False None s))
      else if c = Quote then shell_words True (Some (word_so_far w)) s
      else if c = CHR 0x5C then
        (case s of [] \<Rightarrow> None | d # t \<Rightarrow> shell_words False (Some (word_so_far w @ [d])) t)
      else if shell_plain c then shell_words False (Some (word_so_far w @ [c])) s
      else None)"

lemma plain_not_special: "shell_plain c \<Longrightarrow> c \<noteq> CHR '' '' \<and> c \<noteq> TAB \<and> c \<noteq> Quote \<and> c \<noteq> CHR 0x5C"
  by (auto simp: shell_plain_def key_char_def TAB_def Quote_def)

lemma shell_plain_word:
  "list_all shell_plain v \<Longrightarrow> v \<noteq> [] \<or> w \<noteq> None \<Longrightarrow>
     shell_words False w (v @ s) = shell_words False (Some (word_so_far w @ v)) s"
proof (induction v arbitrary: w)
  case Nil
  then show ?case by (cases w) (auto simp: word_so_far_def)
next
  case (Cons c v)
  then show ?case
    using plain_not_special[of c] Cons.IH[of "Some (word_so_far w @ [c])"] by (simp add: word_so_far_def)
qed

lemma shell_quoted:
  "shell_words True (Some w) (ReplaceByte Quote [Quote, CHR 0x5C, Quote, Quote] v @ Quote # s) =
     shell_words False (Some (w @ v)) s"
proof (induction v arbitrary: w)
  case Nil
  then show ?case by simp
next
  case (Cons c v)
  have "Quote \<noteq> CHR '' ''" "Quote \<noteq> TAB" "CHR 0x5C \<noteq> Quote" "CHR 0x5C \<noteq> TAB"
    by (simp_all add: Quote_def TAB_def)
  then show ?case
    using Cons.IH[of "w @ [c]"] by (cases "c = Quote") (simp_all add: word_so_far_def)
qed

lemma shell_shellQuote: "shell_words False None (shellQuote v @ s) = shell_words False (Some v) s"
  using shell_quoted[of "[]" v s] by (simp add: shellQuote_def word_so_far_def Quote_def TAB_def)

lemma shell_next_word:
  "list_all shell_plain v \<Longrightarrow> v \<noteq> [] \<Longrightarrow>
     shell_words False None (v @ CHR '' '' # s) = map_option (Cons v) (shell_words False None s)"
  using shell_plain_word[of v None "CHR '' '' # s"] by (simp add: word_so_far_def)

lemma shell_last_word: "list_all shell_plain v \<Longrightarrow> v \<noteq> [] \<Longrightarrow> shell_words False None v = Some [v]"
  using shell_plain_word[of v None "[]"] by (simp add: word_so_far_def)

lemma plain_literals:
  "list_all shell_plain ''lsctl''" "list_all shell_plain ''set''" "list_all shell_plain ''rollback''"
  "list_all shell_plain ''--format''" "list_all shell_plain ''--to''"
  by (simp_all add: shell_plain_def key_char_def)

lemma shell_equivSet:
  assumes "ValidateKey key = None" and "validFormat format"
  shows "shell_words False None (equivSet key val format) =
    Some [''lsctl'', ''set'', key, val, ''--format'', format]"
proof -
  have key: "list_all shell_plain key" "key \<noteq> []"
    using assms(1) by (auto simp: ValidateKey_None shell_plain_def list_all_iff)
  have fmt: "list_all shell_plain format" "format \<noteq> []"
    using assms(2) by (auto simp: validFormat_def shell_plain_def key_char_def)
  have "equivSet key val format = ''lsctl'' @ CHR '' '' # (''set'' @ CHR '' '' # (key @ CHR '' '' #
      (shellQuote val @ CHR '' '' # (''--format'' @ CHR '' '' # format))))"
    by (simp add: equivSet_def)
  then show ?thesis
    by (simp only: shell_next_word plain_literals key fmt list.distinct(2) not_False_eq_True shell_shellQuote
        shell_words.simps shell_last_word option.map list.simps simp_thms if_True option.case)
qed

lemma digits_plain: "0 < n \<Longrightarrow> list_all shell_plain (int_str n)"
proof -
  assume n: "0 < n"
  have "shell_plain (digit_char d)" if "d < 10" for d
    using that by (simp add: shell_plain_def key_char_def digit_char_def)
  then show ?thesis
    using n nat_str_digits[of _ "nat n"] by (auto simp: int_str_def list_all_iff)
qed

lemma shell_equivRollback:
  assumes "ValidateKey key = None" and "0 < n"
  shows "shell_words False None (equivRollback key n) = Some [''lsctl'', ''rollback'', key, ''--to'', int_str n]"
proof -
  have key: "list_all shell_plain key" "key \<noteq> []"
    using assms(1) by (auto simp: ValidateKey_None shell_plain_def list_all_iff)
  have "equivRollback key n = ''lsctl'' @ CHR '' '' # (''rollback'' @ CHR '' '' # (key @ CHR '' '' #
      (''--to'' @ CHR '' '' # int_str n)))"
    by (simp add: equivRollback_def)
  then show ?thesis
    by (simp only: shell_next_word plain_literals key digits_plain[OF assms(2)] int_str_not_Nil list.distinct(2)
        not_False_eq_True shell_last_word option.map)
qed

lemma shell_words_append:
  "shell_words q w t = Some ws \<Longrightarrow>
     shell_words q w (t @ CHR '' '' # s) = map_option ((@) ws) (shell_words False None s)"
proof (induction q w t arbitrary: ws rule: shell_words.induct)
  case (2 w)
  have "(@) [x] = Cons x" for x :: string by (rule ext) simp
  then show ?case using 2 by (auto simp: option.map_ident split: option.splits)
next
  case (3 w c t)
  then show ?case by (cases "c = Quote") simp_all
next
  case (4 w c t)
  have cons: "(@) (x # us) = (\<lambda>a. x # us @ a)" for x :: string and us by (rule ext) simp
  consider "c = CHR '' '' \<or> c = TAB" | "\<not> (c = CHR '' '' \<or> c = TAB)" "c = Quote"
    | "\<not> (c = CHR '' '' \<or> c = TAB)" "c \<noteq> Quote" "c = CHR 0x5C"
    | "\<not> (c = CHR '' '' \<or> c = TAB)" "c \<noteq> Quote" "c \<noteq> CHR 0x5C" by blast
  then show ?case
  proof cases
    case 1
    note IH = "4.IH"(1)[OF 1] "4.IH"(2)[OF 1]
    show ?thesis
    proof (cases w)
      case None
      then have "shell_words False None t = Some ws" using "4.prems" 1 by simp
      then show ?thesis using IH(1)[OF None] 1 None by simp
    next
      case (Some x)
      then obtain us where "shell_words False None t = Some us" "ws = x # us" using "4.prems" 1 by auto
      then show ?thesis using IH(2)[OF Some] 1 Some by (simp add: cons option.map_comp comp_def)
    qed
  next
    case 2
    then have "shell_words True (Some (word_so_far w)) t = Some ws" using "4.prems" by simp
    then show ?thesis using "4.IH"(3)[OF 2] 2 by simp
  next
    case 3
    then obtain d u where t: "t = d # u" using "4.prems" by (cases t) simp_all
    then have "shell_words False (Some (word_so_far w @ [d])) u = Some ws" using "4.prems" 3 by simp
    then show ?thesis using "4.IH"(4)[OF 3 t] 3 t by simp
  next
    case 4
    then have p: "shell_plain c" "shell_words False (Some (word_so_far w @ [c])) t = Some ws"
      using "4.prems" by (simp_all split: if_splits)
    then show ?thesis using "4.IH"(5)[OF 4 p(1) p(2)] 4 by simp
  qed
qed simp

text \<open>
  The equivalent command of a pending write, as the interface keeps it and with the comment that its write
  carries: the words a shell reads.
\<close>

lemma pend_equiv_words:
  assumes "pend_law p"
  shows "shell_words False None (pEquiv p) = Some (equiv_args [] p)"
    "shell_words False None (pEquiv p @ '' -m '' @ shellQuote (pComment p)) = Some (equiv_args (pComment p) p)"
proof -
  have key: "ValidateKey (pKey p) = None" using assms by (simp add: pend_law_def)
  consider "p = pend_set (pKey p) (pValue p) (pFormat p)" "validFormat (pFormat p)"
    | "p = pend_rollback (pKey p) (pVersion p)" "0 < pVersion p"
    using assms by (auto simp: pend_law_def)
  then have "shell_words False None (pEquiv p) = Some (equiv_args [] p) \<and> pComment p \<noteq> []"
  proof cases
    case 1
    have "pKind p = pendSet" "pEquiv p = equivSet (pKey p) (pValue p) (pFormat p)" "pComment p \<noteq> []"
      by (subst 1(1), simp add: pend_set_def)+
    then show ?thesis using shell_equivSet[OF key 1(2)] by (simp add: equiv_args_def comment_args_def)
  next
    case 2
    have "pKind p = pendRollback" "pEquiv p = equivRollback (pKey p) (pVersion p)" "pComment p \<noteq> []"
      by (subst 2(1), simp add: pend_rollback_def)+
    then show ?thesis using shell_equivRollback[OF key 2(2)] by (simp add: equiv_args_def comment_args_def)
  qed
  then have words: "shell_words False None (pEquiv p) = Some (equiv_args [] p)" "pComment p \<noteq> []" by simp_all
  then show "shell_words False None (pEquiv p) = Some (equiv_args [] p)" by simp
  have "list_all shell_plain ''-m''" by (simp add: shell_plain_def key_char_def)
  from shell_next_word[OF this, of "shellQuote (pComment p)"]
  have "shell_words False None (''-m'' @ CHR '' '' # shellQuote (pComment p)) = Some [''-m'', pComment p]"
    using shell_shellQuote[of "pComment p" "[]"] by simp
  then show "shell_words False None (pEquiv p @ '' -m '' @ shellQuote (pComment p)) = Some (equiv_args (pComment p) p)"
    using shell_words_append[OF words(1), of "''-m '' @ shellQuote (pComment p)"] words(2)
    by (simp add: equiv_args_def comment_args_def)
qed

end
