(* ===== verification/Ui_Props.thy ===== *)
theory Ui_Props
  imports Ui_Screen
begin

text \<open>
  The properties of the interactive interface. Runs for the witnesses are computed by \<open>drive\<close>, an
  executable scheduler for the steps of \<open>ui_step\<close>.
\<close>

section \<open>An executable scheduler\<close>

datatype action = Press msg | DeliverNth nat | RunNth nat | EditNth nat "string option"

definition drop_nth :: "nat \<Rightarrow> 'a list \<Rightarrow> 'a list" where
  "drop_nth n xs = take n xs @ drop (Suc n) xs"

fun schedule :: "ui_env \<Rightarrow> 's backend \<Rightarrow> action \<Rightarrow> 's ui_state \<Rightarrow> (ui_event \<times> 's ui_state) option" where
  "schedule env be (Press x) st =
     (if \<not> is_input x then None
      else map_option (\<lambda>u. case u of ((m, ts), fs) \<Rightarrow>
        (Input x, st\<lparr>uModel := m, uTasks := uTasks st @ ts, uFiles := fs\<rparr>))
        (Update env x (uModel st) (uFiles st)))"
| "schedule env be (DeliverNth n) st =
     (if length (uInbox st) \<le> n then None
      else map_option (\<lambda>u. case u of ((m, ts), fs) \<Rightarrow>
        (Deliver (uInbox st ! n),
         st\<lparr>uModel := m, uTasks := uTasks st @ ts, uInbox := drop_nth n (uInbox st), uFiles := fs\<rparr>))
        (Update env (uInbox st ! n) (uModel st) (uFiles st)))"
| "schedule env be (RunNth n) st =
     (if length (uTasks st) \<le> n \<or> \<not> calls_backend (uTasks st ! n) then None
      else (case run_task be (uTasks st ! n) (uWorld st) of ((ts, xs), w) \<Rightarrow>
        Some (Ran (uTasks st ! n),
          st\<lparr>uTasks := drop_nth n (uTasks st) @ ts, uInbox := uInbox st @ xs, uWorld := w\<rparr>)))"
| "schedule env be (EditNth n content) st =
     (if length (uTasks st) \<le> n then None
      else (case uTasks st ! n of
          RunEditor ed path key format \<Rightarrow>
            (case edit_done True True path key format (put_file path content (uFiles st)) of (x, fs) \<Rightarrow>
              Some (Edited path, st\<lparr>uTasks := drop_nth n (uTasks st), uInbox := uInbox st @ [x], uFiles := fs\<rparr>))
        | _ \<Rightarrow> None))"

fun drive :: "ui_env \<Rightarrow> 's backend \<Rightarrow> action list \<Rightarrow> 's ui_state \<Rightarrow> (ui_event list \<times> 's ui_state) option" where
  "drive env be [] st = Some ([], st)"
| "drive env be (a # as) st =
     Option.bind (schedule env be a st) (\<lambda>(ev, st1). map_option (apfst (Cons ev)) (drive env be as st1))"

lemma schedule_step:
  assumes "schedule env be a st = Some (ev, st')" and "be \<in> bes"
  shows "ui_step bes ok st ev st'"
proof (cases a)
  case (Press x)
  then show ?thesis using assms by (auto split: if_splits intro!: ui_step.input)
next
  case (DeliverNth n)
  then have "uInbox st = take n (uInbox st) @ uInbox st ! n # drop (Suc n) (uInbox st)"
    using assms by (auto split: if_splits simp: id_take_nth_drop)
  then show ?thesis
    using assms DeliverNth ui_step.deliver[of st "take n (uInbox st)" "uInbox st ! n" "drop (Suc n) (uInbox st)" env]
    by (auto split: if_splits simp: drop_nth_def)
next
  case (RunNth n)
  then have "uTasks st = take n (uTasks st) @ uTasks st ! n # drop (Suc n) (uTasks st)"
    using assms by (auto split: if_splits simp: id_take_nth_drop)
  then show ?thesis
    using assms RunNth ui_step.ran[of st "take n (uTasks st)" "uTasks st ! n" "drop (Suc n) (uTasks st)" be bes]
    by (auto split: if_splits prod.splits simp: drop_nth_def)
next
  case (EditNth n content)
  then have "uTasks st = take n (uTasks st) @ uTasks st ! n # drop (Suc n) (uTasks st)"
    using assms by (auto split: if_splits simp: id_take_nth_drop)
  then show ?thesis
    using assms EditNth ui_step.edited[of st "take n (uTasks st)" _ _ _ _ "drop (Suc n) (uTasks st)" True True content]
    by (auto split: if_splits prod.splits task.splits simp: drop_nth_def)
qed

lemma drive_run:
  "ui_run bes ok st0 tr st \<Longrightarrow> drive env be as st = Some (evs, st') \<Longrightarrow> be \<in> bes \<Longrightarrow> ui_run bes ok st0 (tr @ evs) st'"
proof (induction as arbitrary: tr st evs)
  case (Cons a as)
  from Cons.prems(2) obtain ev st1 evs' where
      a: "schedule env be a st = Some (ev, st1)" and d: "drive env be as st1 = Some (evs', st')" "evs = ev # evs'"
    by (auto split: bind_splits)
  have "ui_run bes ok st0 (tr @ [ev]) st1"
    by (rule ui_run.more[OF Cons.prems(1) schedule_step[OF a Cons.prems(3)]])
  from Cons.IH[OF this d(1) Cons.prems(3)] show ?case using d(2) by simp
qed simp

section \<open>A run that edits a value\<close>

text \<open>Code equations that compare lengths as binary numbers.\<close>

lemma diff_mid_code [code]:
  "diff_mid a b =
     (if length a = 0 \<and> length b = 0 then []
      else if length a = 0 then mark (CHR ''+'') b
      else if length b = 0 then mark (CHR ''-'') a
      else if int (length a) * int (length b) > 4194304 then mark (CHR ''-'') a @ mark (CHR ''+'') b
      else lcsDiff a b)"
proof -
  have "maxDiffCells < length a * length b \<longleftrightarrow> (4194304::int) < int (length a) * int (length b)"
    by (simp add: maxDiffCells_def push_bit_eq_mult flip: of_nat_mult)
  then show ?thesis by (simp only: diff_mid_def)
qed

lemma ValidateValue_code [code]:
  "ValidateValue y val format =
     (if 1048576 < int (length val) then Some (ValueTooLong (length val))
      else if format = FormatRaw then None
      else if format = FormatJSON then map_option ValueJSON (validateJSON val)
      else if format = FormatYAML then map_option ValueYAML (y val)
      else Some (ValueFormat format))"
proof -
  have "MaxValueSize < length val \<longleftrightarrow> (1048576::int) < int (length val)" by (simp add: MaxValueSize_def)
  then show ?thesis by (simp only: ValidateValue_def)
qed

definition env1 :: ui_env where
  "env1 = \<lparr>ueText = (\<lambda>_. ''error''), ueZeroTime = 0, ueVisual = [], ueEditor = ''vi'', ueLookPath = (\<lambda>_. None),
     ueCreate = (\<lambda>pat fs. if tfContent fs (''/tmp/1'' @ pat) = None then Some (''/tmp/1'' @ pat) else None),
     ueWriteOk = True, ueWritten = 0, ueCloseOk = True, ueRemoveOk = True\<rparr>"

definition press :: "string \<Rightarrow> action" where
  "press s = Press (KeyMsg \<lparr>kType = KeyOther, kRunes = [], kString = s\<rparr>)"

definition edit_script :: "action list" where
  "edit_script =
     [RunNth 0, DeliverNth 0, RunNth 0, RunNth 0, DeliverNth 0, press ''e'', EditNth 0 (Some ''45s''), DeliverNth 0]"

definition be1 :: "db backend" where
  "be1 = db_be env0 (\<lambda>_. []) MySQL ''mysql''"

definition start1 :: "db ui_state" where
  "start1 = ui_start 0 ''bob'' [] db1"

definition edit_run :: "ui_event list \<times> db ui_state" where
  "edit_run = the (drive env1 be1 edit_script start1)"

definition save_run :: "ui_event list \<times> db ui_state" where
  "save_run = the (drive env1 be1 (edit_script @ [press ''y'', RunNth 0]) start1)"

abbreviation no_yaml :: "string \<Rightarrow> string option" where
  "no_yaml \<equiv> \<lambda>_. None"

lemma be1_db: "be1 \<in> db_bes no_yaml MySQL ''mysql''"
proof -
  have "yaml env0 = no_yaml" by simp
  then show ?thesis unfolding db_bes_def be1_def by blast
qed

lemma edit_run_ok: "ui_run (db_bes no_yaml MySQL ''mysql'') (wf_db no_yaml) start1 (fst edit_run) (snd edit_run)"
proof -
  have "map_option (\<lambda>_. ()) (drive env1 be1 edit_script start1) = Some ()" by code_simp
  then have "drive env1 be1 edit_script start1 = Some (fst edit_run, snd edit_run)" by (auto simp: edit_run_def)
  from drive_run[OF ui_run.start this be1_db] show ?thesis by simp
qed

lemma save_run_ok: "ui_run (db_bes no_yaml MySQL ''mysql'') (wf_db no_yaml) start1 (fst save_run) (snd save_run)"
proof -
  have "map_option (\<lambda>_. ()) (drive env1 be1 (edit_script @ [press ''y'', RunNth 0]) start1) = Some ()" by code_simp
  then have "drive env1 be1 (edit_script @ [press ''y'', RunNth 0]) start1 = Some (fst save_run, snd save_run)"
    by (auto simp: save_run_def)
  from drive_run[OF ui_run.start this be1_db] show ?thesis by simp
qed

definition saved1 :: pending where
  "saved1 = pend_set ''app:a'' ''45s'' ''raw''"

lemma edit_run_facts:
  "mPend (uModel (snd edit_run)) = Some saved1" "mMode (uModel (snd edit_run)) = modeOverlay"
  "mHasDetail (uModel (snd edit_run))" "uTasks (snd edit_run) = []" "mErrMsg (uModel (snd edit_run)) = []"
  by code_simp+

lemma save_run_facts:
  "cli_events (fst save_run) = [Command saved1]"
  "map_option cValue (config_row ''app:a'' (tabs (uWorld (snd save_run)))) = Some ''45s''"
  by code_simp+

section \<open>The interface never gets stuck\<close>

text \<open>
  C33. In every state that a run of the interface reaches, whatever the backend answers and in
  whatever order, every message is handled: the loop over the rows ends, no index into the
  history is out of range, and \<open>Update\<close> returns a model and its tasks. While a pane says that it is
  loading, the answer it waits for is on its way.
\<close>

theorem ui_always_returns:
  assumes "ui_run bes ok (ui_start zero author pfxs w) tr st"
  shows "(\<exists>m ts fs. Update env x (uModel st) (uFiles st) = Some ((m, ts), fs)) \<and>
    (mLoadingKeys (uModel st) \<longrightarrow> keys_pending st (mKeysSeq (uModel st))) \<and>
    (mLoadingDetail (uModel st) \<longrightarrow> detail_pending st (mDetailSeq (uModel st)))"
proof (intro conjI)
  have ok: "state_ok st" by (rule run_state_in_order[OF assms])
  then show "\<exists>m ts fs. Update env x (uModel st) (uFiles st) = Some ((m, ts), fs)"
    using Update_good[of "uModel st" env x "uFiles st"] by (auto simp: state_ok_def good_res_def)
  show "mLoadingKeys (uModel st) \<longrightarrow> keys_pending st (mKeysSeq (uModel st))"
    "mLoadingDetail (uModel st) \<longrightarrow> detail_pending st (mDetailSeq (uModel st))"
    using ok by (simp_all add: state_ok_def waits_ok_def)
qed

theorem ui_always_returns_witness:
  "\<exists>m ts fs. Update env1 (KeyMsg \<lparr>kType = KeyOther, kRunes = [], kString = ''y''\<rparr>)
     (uModel (snd edit_run)) (uFiles (snd edit_run)) = Some ((m, ts), fs)"
  using ui_always_returns[OF edit_run_ok[unfolded start1_def]] by blast

section \<open>What is shown belongs together\<close>

text \<open>The run goes on: the edit is saved, the detail reloaded, and the first version chosen for a rollback.\<close>

definition rollback_run :: "ui_event list \<times> db ui_state" where
  "rollback_run = the (drive env1 be1
     (edit_script @ [press ''y'', RunNth 0, DeliverNth 0, RunNth 1, RunNth 1, DeliverNth 0,
        press ''enter'', press ''j'', press ''enter'']) start1)"

lemma rollback_run_ok:
  "ui_run (db_bes no_yaml MySQL ''mysql'') (wf_db no_yaml) start1 (fst rollback_run) (snd rollback_run)"
proof -
  let ?script = "edit_script @ [press ''y'', RunNth 0, DeliverNth 0, RunNth 1, RunNth 1, DeliverNth 0,
    press ''enter'', press ''j'', press ''enter'']"
  have "map_option (\<lambda>_. ()) (drive env1 be1 ?script start1) = Some ()" by code_simp
  then have "drive env1 be1 ?script start1 = Some (fst rollback_run, snd rollback_run)"
    by (auto simp: rollback_run_def)
  from drive_run[OF ui_run.start this be1_db] show ?thesis by simp
qed

lemma rollback_run_facts:
  "mPend (uModel (snd rollback_run)) = Some (pend_rollback ''app:a'' 1)" "mHasDetail (uModel (snd rollback_run))"
  "map aValue (mHistory (uModel (snd rollback_run))) = [''45s'', ''30s'']"
  by code_simp+

text \<open>
  C34. Over the database backend, in every reachable state: the rows are those of the configurations
  that match the filter; the cursor is on a key unless there is none; the value shown is one that the
  backend gave for that key, and the history shown is what the backend gave for that same key
  afterwards (none if that call failed), however late or out of order the answers came; an answer in
  flight with the current number is for that key; and a pending write is for a valid key, in a known
  format or to a version of at least one, under the overlay that opened it: earlier in the run, over the
  value and history then shown, with the diff from that value to the text that came back from the
  editor, or to the version that was under the cursor.
\<close>

theorem ui_shows_selected_key:
  assumes "ui_run (db_bes y dia desc) (wf_db y) (ui_start zero author pfxs w) tr st" and "wf_db y w"
  shows "mRows (uModel st) = buildRows (mConfigs (uModel st)) (mFilter (uModel st)) \<and>
    cursor_ok (mRows (uModel st)) (mCur (uModel st)) \<and>
    (mHasDetail (uModel st) \<longrightarrow> dKey (mDetail (uModel st)) = selectedKey (uModel st) \<and>
       fetched (db_bes y dia desc) (wf_db y) (ui_start zero author pfxs w) tr
         (selectedKey (uModel st)) (mDetail (uModel st)) (mHistory (uModel st))) \<and>
    (\<forall>k r. DetailMsg (mDetailSeq (uModel st)) k r \<in> set (uInbox st) \<longrightarrow> k = selectedKey (uModel st)) \<and>
    (\<forall>p. mPend (uModel st) = Some p \<longrightarrow> pend_law p \<and> mMode (uModel st) = modeOverlay \<and>
       offered (db_bes y dia desc) (wf_db y) (ui_start zero author pfxs w) tr
         p (mOverlayTitle (uModel st)) (mOverlayLines (uModel st)))"
proof -
  have ok: "state_ok st" by (rule run_state_in_order[OF assms(1)])
  then have core: "core (uModel st)" by (simp add: state_ok_def)
  have "k = selectedKey (uModel st)" if "DetailMsg (mDetailSeq (uModel st)) k r \<in> set (uInbox st)" for k r
    using ok that coreD(4)[OF core] by (fastforce simp: state_ok_def)
  moreover have "mMode (uModel st) = modeOverlay" if "mPend (uModel st) = Some p" for p
    using coreD(3)[OF core] that by (simp add: overlay_ok_def)
  moreover note run_sourced[OF assms(1), unfolded sourced_def coreD(4)[OF core]]
  ultimately show ?thesis
    using coreD(5,6)[OF core] db_ui.run_detail[OF assms] db_ui.run_pending[OF assms] by meson
qed

theorem ui_shows_selected_key_witness:
  "fetched (db_bes no_yaml MySQL ''mysql'') (wf_db no_yaml) start1 (fst rollback_run)
     (selectedKey (uModel (snd rollback_run))) (mDetail (uModel (snd rollback_run))) (mHistory (uModel (snd rollback_run))) \<and>
   offered (db_bes no_yaml MySQL ''mysql'') (wf_db no_yaml) start1 (fst rollback_run)
     (pend_rollback ''app:a'' 1) (mOverlayTitle (uModel (snd rollback_run))) (mOverlayLines (uModel (snd rollback_run)))"
  using ui_shows_selected_key[OF rollback_run_ok[unfolded start1_def] wf_db1] rollback_run_facts
  unfolding start1_def by blast

section \<open>Nothing is written without a preview and a confirmation\<close>

lemma pending_shows_command:
  "mErrMsg m = [] \<Longrightarrow> mPend m = Some p \<Longrightarrow> statusLine ve m =
     [(uiWarn, fit (veWidth ve) (''Equivalent command: '' @ OneLine (pEquiv p) (nat (mW m))) (mW m))]"
  by (simp add: statusLine_def Let_def)

text \<open>
  C35. Writes are only issued by the keys \<open>y\<close> and \<open>Y\<close>, one for each confirmation, in the name of the
  session's author, in the overlay that this write was offered in: opened earlier in the run over a value
  that the backend had given for the key selected then, it shows the diff from that value to the text that is
  written, or to the value of the version that is rolled back to, taken from the history that was
  shown. Afterwards nothing is pending. Unless an error is being shown, the status line has the
  equivalent command, squeezed to one line and cut to the width.
\<close>

theorem ui_writes_confirmed:
  assumes "ui_run bes ok (ui_start zero author pfxs w) tr st" and "ui_step bes ok st ev st'"
    and "count_list (uTasks st) (DoWrite a p) < count_list (uTasks st') (DoWrite a p)"
  shows "(\<exists>k. (ev = Input (KeyMsg k) \<or> ev = Deliver (KeyMsg k)) \<and> confirm_key k \<and> a = author \<and>
      mMode (uModel st) = modeOverlay \<and> mPend (uModel st) = Some p \<and>
      offered bes ok (ui_start zero author pfxs w) tr p (mOverlayTitle (uModel st)) (mOverlayLines (uModel st)) \<and>
      mPend (uModel st') = None \<and>
      count_list (uTasks st') (DoWrite a p) = Suc (count_list (uTasks st) (DoWrite a p))) \<and>
    (mErrMsg (uModel st) = [] \<longrightarrow> statusLine ve (uModel st) =
      [(uiWarn, fit (veWidth ve) (''Equivalent command: '' @ OneLine (pEquiv p) (nat (mW (uModel st)))) (mW (uModel st)))])"
proof -
  have ok: "state_ok st" by (rule run_state_in_order[OF assms(1)])
  have author: "mAuthor (uModel st) = author" by (rule run_author[OF assms(1)])
  have offer: "mPend (uModel st) = Some p \<Longrightarrow>
      offered bes ok (ui_start zero author pfxs w) tr p (mOverlayTitle (uModel st)) (mOverlayLines (uModel st))"
    using run_sourced[OF assms(1)] by (simp add: sourced_def)
  have upd: "(\<exists>k. x = KeyMsg k \<and> confirm_key k \<and> a = author \<and> mMode (uModel st) = modeOverlay \<and>
      mPend (uModel st) = Some p \<and> mPend m = None) \<and> ts = [DoWrite a p]"
    if "Update env x (uModel st) (uFiles st) = Some ((m, ts), fs)" "0 < count_list ts (DoWrite a p)" for env x m ts fs
  proof -
    have "DoWrite a p \<in> set (snd (m, ts))" using that(2) by (metis count_list_0_iff less_irrefl snd_conv)
    from Update_writes[OF that(1) this] show ?thesis
      using author by auto
  qed
  have "\<exists>k. (ev = Input (KeyMsg k) \<or> ev = Deliver (KeyMsg k)) \<and> confirm_key k \<and> a = author \<and>
      mMode (uModel st) = modeOverlay \<and> mPend (uModel st) = Some p \<and>
      offered bes ok (ui_start zero author pfxs w) tr p (mOverlayTitle (uModel st)) (mOverlayLines (uModel st)) \<and>
      mPend (uModel st') = None \<and>
      count_list (uTasks st') (DoWrite a p) = Suc (count_list (uTasks st) (DoWrite a p))"
    using assms(2)
  proof cases
    case (input x env m ts fs)
    then show ?thesis using upd[of env x m ts fs] offer assms(3) by auto
  next
    case (deliver us x vs env m ts fs)
    then show ?thesis using upd[of env x m ts fs] offer assms(3) by auto
  next
    case (ran us t vs be ts xs w)
    then have "DoWrite a p \<notin> set ts" by (cases t) (auto split: prod.splits sum.splits)
    then show ?thesis using assms(3) ran by (simp add: count_list_0_iff split: if_splits)
  next
    case (edited us ed path key format vs run_ok remove_ok content x fs)
    then show ?thesis using assms(3) by simp
  next
    case (elsewhere w)
    then show ?thesis using assms(3) by simp
  qed
  then show ?thesis using pending_shows_command by blast
qed

definition step_from :: "action \<Rightarrow> db ui_state \<Rightarrow> ui_event \<times> db ui_state" where
  "step_from a st = the (schedule env1 be1 a st)"

theorem ui_writes_confirmed_witness:
  "mPend (uModel (snd rollback_run)) = Some (pend_rollback ''app:a'' 1) \<and>
   offered (db_bes no_yaml MySQL ''mysql'') (wf_db no_yaml) start1 (fst rollback_run) (pend_rollback ''app:a'' 1)
     (mOverlayTitle (uModel (snd rollback_run))) (mOverlayLines (uModel (snd rollback_run))) \<and>
   mPend (uModel (snd (step_from (press ''y'') (snd rollback_run)))) = None"
proof -
  let ?r = "step_from (press ''y'') (snd rollback_run)"
  have "map_option (\<lambda>_. ()) (schedule env1 be1 (press ''y'') (snd rollback_run)) = Some ()" by code_simp
  then have "schedule env1 be1 (press ''y'') (snd rollback_run) = Some (fst ?r, snd ?r)" by (auto simp: step_from_def)
  note st = schedule_step[OF this be1_db, of "wf_db no_yaml"]
  have "count_list (uTasks (snd rollback_run)) (DoWrite ''bob'' (pend_rollback ''app:a'' 1)) <
      count_list (uTasks (snd ?r)) (DoWrite ''bob'' (pend_rollback ''app:a'' 1))" by code_simp
  from ui_writes_confirmed[OF rollback_run_ok[unfolded start1_def] st this] show ?thesis
    unfolding start1_def by blast
qed

section \<open>The interface is lsctl\<close>

text \<open>
  C36. The interface refines the machine whose only steps are \<open>lsctl set\<close> and \<open>lsctl rollback\<close> commands
  and the writes of other clients: along every run over the database backend the database changes
  exactly by the commands of the confirmed writes, in their order, each with the comment of the
  interface. The equivalent command that is kept for a pending write is read by a POSIX shell as
  that command without the comment; with the option \<open>-m\<close> and the quoted comment added, as the whole of it. (What
  the status line shows of it is squeezed to one line and cut to the width.)
\<close>

theorem ui_refines_commands:
  assumes "ui_run (db_bes y dia desc) (wf_db y) (ui_start zero author pfxs w) tr st" and "wf_db y w"
  shows "cli_run (db_bes y dia desc) (wf_db y) author w (cli_events tr) (uWorld st) \<and>
    (\<forall>p. mPend (uModel st) = Some p \<longrightarrow> shell_words False None (pEquiv p) = Some (equiv_args [] p) \<and>
       shell_words False None (pEquiv p @ '' -m '' @ shellQuote (pComment p)) = Some (equiv_args (pComment p) p))"
  using db_ui.run_refines[OF assms] db_ui.run_pending[OF assms] pend_equiv_words by blast

theorem ui_refines_commands_witness:
  "cli_run (db_bes no_yaml MySQL ''mysql'') (wf_db no_yaml) ''bob'' db1 [Command saved1] (uWorld (snd save_run)) \<and>
   map_option cValue (config_row ''app:a'' (tabs (uWorld (snd save_run)))) = Some ''45s''"
  using ui_refines_commands[OF save_run_ok[unfolded start1_def] wf_db1] save_run_facts by simp

section \<open>The screen\<close>


text \<open>A terminal on which every character takes one column.\<close>

definition rw1 :: runewidth where
  "rw1 = \<lparr>rwStringWidth = (\<lambda>s. length (filter (\<lambda>c. \<not> is_cont c) s)),
     rwTruncate = (\<lambda>s w tail. if length (filter (\<lambda>c. \<not> is_cont c) s) \<le> w then s else tail)\<rparr>"

definition ve1 :: view_env where
  "ve1 = \<lparr>veWidth = rw1, veDescribe = Some ''mysql'', veTime = tm0, veLocal = int_str, veSince = (\<lambda>_. 0),
     veDay = int_str\<rparr>"


section \<open>Temporary files\<close>

text \<open>
  C38. A temporary file holds a value only from the key that starts the editor until the editor is done,
  the time before the editor runs included; after it the removal is tried whether the editor succeeded,
  failed or removed the file itself, and so it is for a file that could not be written. What is
  left in any reachable state, the one in which the user quits too, are the files whose editor is still to run
  and those that the system has refused to remove. The pattern of the name has no path separator for any
  key, one place for the random part, and a bounded length.
\<close>

theorem ui_temp_files_removed:
  assumes "ui_run bes ok (ui_start zero author pfxs w) tr st"
  shows "(\<forall>path. tfContent (uFiles st) path \<noteq> None \<longrightarrow>
      (\<exists>ed key format. RunEditor ed path key format \<in> set (uTasks st)) \<or> path \<in> tfRefused (uFiles st)) \<and>
    (\<forall>path st'. ui_step bes ok st (Edited path) st' \<longrightarrow>
      tfContent (uFiles st') path = None \<or> path \<in> tfRefused (uFiles st')) \<and>
    CHR ''/'' \<notin> set (temp_pattern key format) \<and> length (temp_pattern key format) \<le> 61 \<and>
    count_list (temp_pattern key format) CHR ''*'' = 1"
proof (intro conjI)
  show "\<forall>path. tfContent (uFiles st) path \<noteq> None \<longrightarrow>
      (\<exists>ed key format. RunEditor ed path key format \<in> set (uTasks st)) \<or> path \<in> tfRefused (uFiles st)"
    using run_state_in_order[OF assms] by (simp add: state_ok_def temp_ok_def)
  show "\<forall>path st'. ui_step bes ok st (Edited path) st' \<longrightarrow>
      tfContent (uFiles st') path = None \<or> path \<in> tfRefused (uFiles st')"
    by (auto simp: edit_done_def remove_file_def put_file_def elim!: ui_stepE split: if_splits)
qed (rule temp_pattern_chars)+

theorem ui_temp_files_removed_witness:
  "uTasks (snd edit_run) = [] \<and> (\<forall>path. tfContent (uFiles (snd edit_run)) path = None)"
proof -
  have "tfRefused (uFiles (snd edit_run)) = {}" by code_simp
  then show ?thesis
    using ui_temp_files_removed[OF edit_run_ok[unfolded start1_def]] edit_run_facts(4) by auto
qed

section \<open>Where the interface does less than it says\<close>

text \<open>While an error is shown, a pending write is not accompanied by its equivalent command.\<close>

lemma error_hides_equivalent_command:
  "mErrMsg m \<noteq> [] \<Longrightarrow> statusLine ve m =
     [(uiErrSt, fit (veWidth ve) (Cross @ '' '' @ OneLine (mErrMsg m) (nat (mW m - 2))) (mW m))]"
  by (simp add: statusLine_def Let_def)

text \<open>
  The value pane drops control characters; the lines of a diff are drawn as they are, here an
  escape character.
\<close>

lemma value_pane_strips: "valueLines [CHR 0x1B, CHR ''c''] = [''c'']"
  by code_simp

lemma diff_overlay_keeps_controls:
  "map ulText (diffLinesStyled (''+'' @ [CHR 0x1B] @ ''c'' @ [NL])) = [''+'' @ [CHR 0x1B] @ ''c'']"
  by code_simp

text \<open>Quitting before the editor runs leaves its file, with the value in cleartext.\<close>

definition quit_run :: "db ui_state" where
  "quit_run = snd (the (drive env1 be1
     [RunNth 0, DeliverNth 0, RunNth 0, RunNth 0, DeliverNth 0, press ''e'',
      Press (KeyMsg \<lparr>kType = KeyCtrlC, kRunes = [], kString = ''ctrl+c''\<rparr>)] start1))"

lemma quit_leaves_file:
  "uTasks quit_run = [RunEditor [''vi''] ''/tmp/1lsctl-app-a-*.txt'' ''app:a'' ''raw'', Quit] \<and>
   tfContent (uFiles quit_run) ''/tmp/1lsctl-app-a-*.txt'' = Some ''30s''"
  by (intro conjI) code_simp+

text \<open>The equivalent command, run as it is kept, records no comment where the interface records its own.\<close>

lemma equivalent_command_comment:
  "let inp = \<lparr>stdin = None, files = (\<lambda>_. None)\<rparr>;
       after = (\<lambda>c. map hComment (history (tabs (fst (snd (equivalent_cmd inp flags0 be1 c saved1 (db1, io0)))))))
   in last (after []) = [] \<and> last (after (pComment saved1)) = ''Edit (lsctl ui)''"
  by code_simp

text \<open>The name of the last author reaches the status line as it is, line breaks included.\<close>

lemma status_line_keeps_line_breaks:
  "let d = (mDetail (uModel (snd edit_run)))\<lparr>dUpdatedBy := ''a'' @ [NL] @ ''b''\<rparr>;
       m = (uModel (snd edit_run))\<lparr>mPend := None, mStatus := [], mDetail := d\<rparr>
   in map (\<lambda>x. NL \<in> set (snd x)) (statusLine ve1 m) = [True]"
  by code_simp

end
