(* ===== verification/Ui_Command.thy ===== *)
theory Ui_Command
  imports Ui_Props
begin

text \<open>
  The command that opens the interface (\<open>cmd/lsctl/internal/command/ui.go\<close>): it wants a terminal,
  selects the backend as the other commands do, runs the program, and replays the receipts of the
  session on standard error. The program is a parameter: the model it ends with.
\<close>

datatype ui_cmd_error = TerminalCheck | NotTerminal | UiSelection cmd_error | UiProgram

text \<open>\<open>os.Stdout.Stat()\<close>: \<open>None\<close> when it fails, else whether it is a character device.\<close>

definition requireTTY :: "bool option \<Rightarrow> ui_cmd_error option" where
  "requireTTY stat =
     (case stat of
        None \<Rightarrow> Some TerminalCheck
      | Some chardev \<Rightarrow> if \<not> chardev then Some NotTerminal else None)"

definition uiCmd ::
    "(string \<Rightarrow> string \<Rightarrow> bool) \<Rightarrow> flags \<Rightarrow> (selection \<Rightarrow> 's backend) \<Rightarrow> bool option \<Rightarrow>
     ('s backend \<Rightarrow> Model \<Rightarrow> Model option) \<Rightarrow> int \<Rightarrow> string list \<Rightarrow> ui_cmd_error + item list" where
  "uiCmd sql_open r mk stat program zero args =
     (case requireTTY stat of
        Some err \<Rightarrow> Inl err
      | None \<Rightarrow>
          (case select_backend sql_open r of
             Inl err \<Rightarrow> Inl (UiSelection err)
           | Inr sel \<Rightarrow>
               (case program (mk sel) (NewModel zero (flAuthor r) args) of
                  None \<Rightarrow> Inl UiProgram
                | Some final \<Rightarrow> Inr (map line (mWrites final)))))"

text \<open>What a run replays: a line for each successful write whose answer arrived, in order.\<close>

fun event_receipts :: "ui_event \<Rightarrow> string list" where
  "event_receipts (Deliver x) = receipt x"
| "event_receipts (Input x) = receipt x"
| "event_receipts _ = []"

lemma run_receipts:
  "ui_run bes ok (ui_start zero author pfxs w) tr st \<Longrightarrow>
     mWrites (uModel st) = concat (map event_receipts tr)"
proof (induction rule: ui_run.induct)
  case start
  then show ?case by (simp add: ui_start_def Init_def loadKeys_def Let_def NewModel_def)
next
  case (more tr st ev st')
  from more.hyps(2) show ?case
  proof cases
    case (input x env m ts fs)
    then show ?thesis using more.IH Update_receipts[of env x "uModel st" "uFiles st" "(m, ts)" fs] by simp
  next
    case (deliver us x vs env m ts fs)
    then show ?thesis using more.IH Update_receipts[of env x "uModel st" "uFiles st" "(m, ts)" fs] by simp
  qed (use more.IH in simp_all)
qed

text \<open>A write that is confirmed just before quitting is done and not replayed.\<close>

lemma quitting_loses_receipt:
  "map_option cValue (config_row ''app:a'' (tabs (uWorld (snd save_run)))) = Some ''45s'' \<and>
   mWrites (uModel (snd save_run)) = [] \<and>
   uTasks (snd (step_from (press ''q'') (snd save_run))) = [Quit]"
  by (intro conjI) code_simp+

end
