(* ===== verification/Server_Lifecycle.thy ===== *)
theory Server_Lifecycle
  imports Server_Handler
begin

text \<open>
  \<open>server/server.go\<close>: the options of \<open>New\<close>, and \<open>Start\<close> and \<open>Run\<close> as a step relation between the
  goroutine that runs the server, the poller and the long polls. \<open>Run\<close> gives up control wherever it
  calls something that blocks. The listener and \<open>http.Server\<close> belong to the environment: it decides
  when listening or serving fails and how long a \<open>Shutdown\<close> is willing to wait.
\<close>

section \<open>Options\<close>

definition DefaultAddr :: string where "DefaultAddr = '':8080''"
definition ServerLongPollTimeout :: int where "ServerLongPollTimeout = 30 * 1000000000"
definition ServerPollInterval :: int where "ServerPollInterval = 1000000000"

text \<open>Durations are nanoseconds; the store is a pointer.\<close>

record 'st server_options =
  oAddr :: string
  oLongPollTimeout :: int
  oPollInterval :: int
  oStore :: "'st option"

record 'st server =
  sAddr :: string
  sLongPollTimeout :: int
  sPollInterval :: int
  sStore :: 'st
  sWatcher :: watcher

datatype options_error = StoreNil | PollIntervalNegative int | LongPollTimeoutNegative int

definition Or :: "'a \<Rightarrow> 'a \<Rightarrow> 'a \<Rightarrow> 'a" where
  "Or zero x y = (if x \<noteq> zero then x else y)"

definition newServer :: "'st server_options \<Rightarrow> options_error + 'st server" where
  "newServer o' =
     (case oStore o' of
        None \<Rightarrow> Inl StoreNil
      | Some st \<Rightarrow>
          if oPollInterval o' < 0 then Inl (PollIntervalNegative (oPollInterval o'))
          else if oLongPollTimeout o' < 0 then Inl (LongPollTimeoutNegative (oLongPollTimeout o'))
          else Inr \<lparr>sAddr = Or [] (oAddr o') DefaultAddr,
                    sLongPollTimeout = Or 0 (oLongPollTimeout o') ServerLongPollTimeout,
                    sPollInterval = Or 0 (oPollInterval o') ServerPollInterval,
                    sStore = st, sWatcher = newRevisionWatcher\<rparr>)"

text \<open>A server that was built has a positive interval, which \<open>time.NewTicker\<close> asks for.\<close>

lemma newServer_positive:
  "newServer o' = Inr s \<Longrightarrow>
   0 < sPollInterval s \<and> 0 < sLongPollTimeout s \<and> sAddr s \<noteq> [] \<and> oStore o' = Some (sStore s)"
  by (auto simp: newServer_def Or_def DefaultAddr_def ServerLongPollTimeout_def ServerPollInterval_def
      split: option.splits if_splits)

section \<open>Running\<close>

text \<open>Why \<open>Run\<close> called the stop function, and where its goroutine is.\<close>

datatype stop_cause = ListenFailed string | ServeFailed string | ServeClosed | ContextDone

datatype phase =
  Starting
| Listening
| Selecting
| Closing stop_cause
| Cancelling stop_cause
| Waiting stop_cause
| ShuttingDown
| Finished "string option"

datatype poller = NotStarted | FirstPoll | Ticking | Ended

record running =
  rPhase :: phase
  rSys :: wsys
  rCtx :: bool
  rPollCtx :: bool
  rPoller :: poller
  rServe :: "string option option"

abbreviation rWatch :: "running \<Rightarrow> watcher" where "rWatch s \<equiv> watch (rSys s)"

definition set_watch :: "watcher \<Rightarrow> running \<Rightarrow> running" where
  "set_watch w s = s\<lparr>rSys := (rSys s)\<lparr>watch := w\<rparr>\<rparr>"

definition initial :: "'st server \<Rightarrow> running" where
  "initial srv =
     \<lparr>rPhase = Starting, rSys = \<lparr>watch = sWatcher srv, waiters = []\<rparr>, rCtx = False, rPollCtx = False,
      rPoller = NotStarted, rServe = None\<rparr>"

text \<open>After the stop function: what \<open>Run\<close> does next.\<close>

fun after_stop :: "stop_cause \<Rightarrow> phase" where
  "after_stop (ListenFailed err) = Finished (Some err)"
| "after_stop (ServeFailed err) = Finished (Some err)"
| "after_stop ServeClosed = Finished None"
| "after_stop ContextDone = ShuttingDown"

definition serve_cause :: "string option \<Rightarrow> stop_cause" where
  "serve_cause r = (case r of None \<Rightarrow> ServeClosed | Some err \<Rightarrow> ServeFailed err)"

fun is_blocked :: "waiter \<Rightarrow> bool" where
  "is_blocked (Blocked since c) \<longleftrightarrow> True"
| "is_blocked (Returned since rv ch) \<longleftrightarrow> False"

definition blocked :: "running \<Rightarrow> bool" where
  "blocked s \<longleftrightarrow> list_ex (is_blocked \<circ> snd) (waiters (rSys s))"

text \<open>The steps of \<open>Run\<close>'s own goroutine.\<close>

inductive run_step :: "running \<Rightarrow> running \<Rightarrow> bool" where
  start: "rPhase s = Starting \<Longrightarrow> run_step s (s\<lparr>rPhase := Listening, rPoller := FirstPoll\<rparr>)"
| listen_ok: "rPhase s = Listening \<Longrightarrow> run_step s (s\<lparr>rPhase := Selecting\<rparr>)"
| listen_fails: "rPhase s = Listening \<Longrightarrow> run_step s (s\<lparr>rPhase := Closing (ListenFailed err)\<rparr>)"
| select_serve: "rPhase s = Selecting \<Longrightarrow> rServe s = Some r \<Longrightarrow>
    run_step s (s\<lparr>rPhase := Closing (serve_cause r)\<rparr>)"
| select_ctx: "rPhase s = Selecting \<Longrightarrow> rCtx s \<Longrightarrow> run_step s (s\<lparr>rPhase := Closing ContextDone\<rparr>)"
| stop_close: "rPhase s = Closing k \<Longrightarrow>
    run_step s (set_watch (watcher_close (rWatch s)) (s\<lparr>rPhase := Cancelling k\<rparr>))"
| stop_cancel: "rPhase s = Cancelling k \<Longrightarrow> run_step s (s\<lparr>rPhase := Waiting k, rPollCtx := True\<rparr>)"
| stop_wait: "rPhase s = Waiting k \<Longrightarrow> rPoller s = Ended \<Longrightarrow> run_step s (s\<lparr>rPhase := after_stop k\<rparr>)"
| shutdown_ok: "rPhase s = ShuttingDown \<Longrightarrow> \<not> blocked s \<Longrightarrow> run_step s (s\<lparr>rPhase := Finished None\<rparr>)"
| shutdown_fails: "rPhase s = ShuttingDown \<Longrightarrow> run_step s (s\<lparr>rPhase := Finished (Some err)\<rparr>)"

text \<open>
  The poller: a query with its result, or the end of its context, which derives from \<open>Run\<close>'s. The
  first query is made whatever the context is.
\<close>

definition poll_ctx :: "running \<Rightarrow> bool" where "poll_ctx s \<longleftrightarrow> rCtx s \<or> rPollCtx s"

inductive poller_step :: "running \<Rightarrow> running \<Rightarrow> bool" where
  poll: "rPoller s \<in> {FirstPoll, Ticking} \<Longrightarrow>
    poller_step s (set_watch (poll_once (poll_ctx s) r (rWatch s)) (s\<lparr>rPoller := Ticking\<rparr>))"
| ends: "rPoller s = Ticking \<Longrightarrow> poll_ctx s \<Longrightarrow>
    poller_step s (set_watch (watcher_close (rWatch s)) (s\<lparr>rPoller := Ended\<rparr>))"

text \<open>A long poll comes in while the listener is open; one that is there may return at any time.\<close>

definition serving :: "running \<Rightarrow> bool" where
  "serving s \<longleftrightarrow> (case rPhase s of Selecting \<Rightarrow> True | Closing _ \<Rightarrow> True | Cancelling _ \<Rightarrow> True | Waiting _ \<Rightarrow> True | _ \<Rightarrow> False)"

inductive request_step :: "running \<Rightarrow> running \<Rightarrow> bool" where
  arrives: "serving s \<Longrightarrow> wstep (rSys s) sys' \<Longrightarrow> watch sys' = rWatch s \<Longrightarrow> request_step s (s\<lparr>rSys := sys'\<rparr>)"
| returns: "waiters (rSys s) = before @ (i, Blocked since c) # after \<Longrightarrow> wake_ready c why ctx (rWatch s) \<Longrightarrow>
    wait_end why (rWatch s) = (rv, ch) \<Longrightarrow>
    request_step s (s\<lparr>rSys := (rSys s)\<lparr>waiters := before @ (i, Returned since rv ch) # after\<rparr>\<rparr>)"

inductive life_step :: "running \<Rightarrow> running \<Rightarrow> bool" where
  run: "run_step s s' \<Longrightarrow> life_step s s'"
| poller: "poller_step s s' \<Longrightarrow> life_step s s'"
| request: "request_step s s' \<Longrightarrow> life_step s s'"
| signal: "life_step s (s\<lparr>rCtx := True\<rparr>)"
| serve_returns: "rPhase s = Selecting \<Longrightarrow> rServe s = None \<Longrightarrow> life_step s (s\<lparr>rServe := Some r\<rparr>)"

inductive life :: "'st server \<Rightarrow> running \<Rightarrow> bool" for srv where
  begins: "life srv (initial srv)"
| goes: "life srv s \<Longrightarrow> life_step s s' \<Longrightarrow> life srv s'"

inductive_cases run_stepE: "run_step s s'"

section \<open>Invariant\<close>

lemma watch_set_watch [simp]:
  "rSys (set_watch w s) = (rSys s)\<lparr>watch := w\<rparr>" "rPhase (set_watch w s) = rPhase s" "rCtx (set_watch w s) = rCtx s"
  "rPollCtx (set_watch w s) = rPollCtx s" "rPoller (set_watch w s) = rPoller s" "rServe (set_watch w s) = rServe s"
  by (simp_all add: set_watch_def)

lemma poll_wreach: "wreach sys \<Longrightarrow> wreach (sys\<lparr>watch := poll_once b r (watch sys)\<rparr>)"
  using wreach.step[OF _ wstep.set_step[of sys]] wreach.step[OF _ wstep.err_step[of sys]]
  by (auto simp: poll_once_def split: sum.splits)

lemma close_wreach: "wreach sys \<Longrightarrow> wreach (sys\<lparr>watch := watcher_close (watch sys)\<rparr>)"
  using wreach.step[OF _ wstep.close_step[of sys]] by blast

lemma run_step_wreach: "run_step s s' \<Longrightarrow> wreach (rSys s) \<Longrightarrow> wreach (rSys s')"
  by (induction rule: run_step.induct) (auto intro: close_wreach)

lemma poller_step_wreach: "poller_step s s' \<Longrightarrow> wreach (rSys s) \<Longrightarrow> wreach (rSys s')"
  by (induction rule: poller_step.induct) (auto intro: close_wreach poll_wreach)

lemma request_step_wreach: "request_step s s' \<Longrightarrow> wreach (rSys s) \<Longrightarrow> wreach (rSys s')"
  by (induction rule: request_step.induct) (auto intro: wreach.step wstep.wakeup)

lemma life_wreach:
  assumes "newServer o' = Inr srv" and "life srv s"
  shows "wreach (rSys s)"
  using assms(2)
proof (induction rule: life.induct)
  case begins
  then show ?case
    using assms(1) wreach.init by (auto simp: initial_def newServer_def split: option.splits if_splits)
next
  case (goes s s')
  from goes(2,3) show ?case
    by (cases rule: life_step.cases) (auto intro: run_step_wreach poller_step_wreach request_step_wreach)
qed

text \<open>What is known at each point of \<open>Run\<close>.\<close>

definition cause_ok :: "running \<Rightarrow> stop_cause \<Rightarrow> bool" where
  "cause_ok s k \<longleftrightarrow> (k = ServeClosed \<longrightarrow> rServe s = Some None) \<and> (k = ContextDone \<longrightarrow> rCtx s)"

definition released :: "running \<Rightarrow> bool" where
  "released s \<longleftrightarrow> rPoller s = Ended \<and> wClosed (rWatch s)"

fun phase_ok :: "running \<Rightarrow> phase \<Rightarrow> bool" where
  "phase_ok s Starting \<longleftrightarrow> rPoller s = NotStarted"
| "phase_ok s Listening \<longleftrightarrow> rPoller s \<noteq> NotStarted"
| "phase_ok s Selecting \<longleftrightarrow> rPoller s \<noteq> NotStarted"
| "phase_ok s (Closing k) \<longleftrightarrow> rPoller s \<noteq> NotStarted \<and> cause_ok s k"
| "phase_ok s (Cancelling k) \<longleftrightarrow> rPoller s \<noteq> NotStarted \<and> cause_ok s k \<and> wClosed (rWatch s)"
| "phase_ok s (Waiting k) \<longleftrightarrow> rPoller s \<noteq> NotStarted \<and> cause_ok s k \<and> wClosed (rWatch s) \<and> rPollCtx s"
| "phase_ok s ShuttingDown \<longleftrightarrow> released s \<and> rCtx s"
| "phase_ok s (Finished r) \<longleftrightarrow> released s \<and> (r = None \<longrightarrow> rServe s = Some None \<or> rCtx s \<and> \<not> blocked s)"

definition life_ok :: "running \<Rightarrow> bool" where "life_ok s \<longleftrightarrow> phase_ok s (rPhase s)"

lemma run_step_ok: "run_step s s' \<Longrightarrow> life_ok s \<Longrightarrow> life_ok s'"
proof (induction rule: run_step.induct)
  case (stop_wait s k)
  then show ?case by (cases k) (auto simp: life_ok_def cause_ok_def released_def blocked_def)
qed (auto simp: life_ok_def cause_ok_def released_def serve_cause_def blocked_def split: option.splits)

lemma poll_once_closed [simp]: "wClosed (poll_once b r w) = wClosed w"
  by (auto simp: poll_once_def setErr_def split: sum.splits)

lemma poller_step_ok:
  assumes "poller_step s s'" and "life_ok s"
  shows "life_ok s'"
  using assms by cases (cases "rPhase s"; auto simp: life_ok_def cause_ok_def released_def)+

lemma request_step_ok:
  assumes "request_step s s'" and "life_ok s"
  shows "life_ok s'"
  using assms
  by cases (cases "rPhase s"; auto simp: life_ok_def cause_ok_def released_def serving_def blocked_def)+

lemma life_invariant: "life srv s \<Longrightarrow> life_ok s"
proof (induction rule: life.induct)
  case begins
  then show ?case by (simp add: life_ok_def initial_def)
next
  case (goes s s')
  from goes(2,3) show ?case
  proof cases
    case signal
    then show ?thesis
      using goes(3) by (cases "rPhase s") (auto simp: life_ok_def cause_ok_def released_def blocked_def)
  next
    case serve_returns
    then show ?thesis using goes(3) by (auto simp: life_ok_def)
  qed (use goes(3) in \<open>auto intro: run_step_ok poller_step_ok request_step_ok\<close>)
qed

section \<open>Stopping\<close>

text \<open>How many steps \<open>Run\<close> has left at most.\<close>

fun steps_left :: "phase \<Rightarrow> nat" where
  "steps_left Starting = 7"
| "steps_left Listening = 6"
| "steps_left Selecting = 5"
| "steps_left (Closing k) = 4"
| "steps_left (Cancelling k) = 3"
| "steps_left (Waiting k) = 2"
| "steps_left ShuttingDown = 1"
| "steps_left (Finished r) = 0"

lemma run_step_decreases: "run_step s s' \<Longrightarrow> steps_left (rPhase s') < steps_left (rPhase s)"
proof (induction rule: run_step.induct)
  case (stop_wait s k)
  then show ?case by (cases k) simp_all
qed simp_all

text \<open>Once the context has ended \<open>Run\<close> can go on, unless it waits for a poller that can end itself.\<close>

lemma run_step_possible:
  assumes "life_ok s" and "rCtx s" and "\<nexists>r. rPhase s = Finished r"
  shows "(\<exists>s'. run_step s s') \<or>
    (\<exists>k s'. rPhase s = Waiting k \<and> poller_step\<^sup>*\<^sup>* s s' \<and> rPoller s' = Ended \<and> rPhase s' = Waiting k)"
proof (cases "rPhase s")
  case (Waiting k)
  show ?thesis
  proof (cases "rPoller s")
    case Ended
    then show ?thesis using Waiting run_step.stop_wait by blast
  next
    case Ticking
    have "poller_step s (set_watch (watcher_close (rWatch s)) (s\<lparr>rPoller := Ended\<rparr>))"
      using Ticking assms(2) by (intro poller_step.ends) (simp_all add: poll_ctx_def)
    from r_into_rtranclp[of poller_step, OF this] show ?thesis
      using Waiting by (intro disjI2 exI conjI) (assumption | simp)+
  next
    case FirstPoll
    let ?s1 = "set_watch (poll_once (poll_ctx s) (Inl []) (rWatch s)) (s\<lparr>rPoller := Ticking\<rparr>)"
    have 1: "poller_step s ?s1" using FirstPoll by (intro poller_step.poll) simp
    have 2: "poller_step ?s1 (set_watch (watcher_close (rWatch ?s1)) (?s1\<lparr>rPoller := Ended\<rparr>))"
      using assms(2) by (intro poller_step.ends) (simp_all add: poll_ctx_def)
    have "poller_step\<^sup>*\<^sup>* s (set_watch (watcher_close (rWatch ?s1)) (?s1\<lparr>rPoller := Ended\<rparr>))"
      by (rule converse_rtranclp_into_rtranclp[of poller_step, OF 1 r_into_rtranclp[of poller_step, OF 2]])
    then show ?thesis
      using Waiting by (intro disjI2 exI conjI) (assumption | simp)+
  next
    case NotStarted
    then show ?thesis using assms(1) Waiting by (simp add: life_ok_def)
  qed
qed (use assms in \<open>auto intro: run_step.intros\<close>)

text \<open>Stopping twice is stopping once: a second call of the stop function finds everything done.\<close>

lemma stop_idempotent: "watcher_close (watcher_close w) = watcher_close w"
  by (simp add: watcher_close_def[of "watcher_close w"])

text \<open>
  C31. The server stops. In every run of a server built by \<open>New\<close>, in any order of signals, polls,
  requests and failures of the listener: no channel is closed twice; \<open>Shutdown\<close> is called, and \<open>Run\<close>
  returns, only when the poller has ended and the watcher is closed, and from then on every long poll
  that still waits can return; \<open>Run\<close> returns without an error only if the server was closed, or the
  context ended and no long poll was left waiting; and \<open>Run\<close> makes at most seven steps, none of which
  it is kept from once the context has ended, but for a poller that can end in at most two.
\<close>

theorem server_stops:
  assumes "newServer o' = Inr srv" and "life srv s"
  shows "\<not> panicked (rWatch s) \<and>
    (rPhase s = ShuttingDown \<or> (\<exists>r. rPhase s = Finished r) \<longrightarrow> rPoller s = Ended \<and> wClosed (rWatch s)) \<and>
    (\<forall>i since c. wClosed (rWatch s) \<and> (i, Blocked since c) \<in> set (waiters (rSys s)) \<longrightarrow>
       wake_ready c ByStop ctx (rWatch s) \<and> wait_end ByStop (rWatch s) = (wRev (rWatch s), False)) \<and>
    (rPhase s = Finished None \<longrightarrow> rServe s = Some None \<or> rCtx s \<and> \<not> blocked s) \<and>
    (\<forall>s'. run_step s s' \<longrightarrow> steps_left (rPhase s') < steps_left (rPhase s)) \<and> steps_left (rPhase s) \<le> 7 \<and>
    (rCtx s \<and> (\<nexists>r. rPhase s = Finished r) \<longrightarrow> (\<exists>s'. run_step s s') \<or>
       (\<exists>k s'. rPhase s = Waiting k \<and> poller_step\<^sup>*\<^sup>* s s' \<and> rPoller s' = Ended \<and> rPhase s' = Waiting k))"
proof (intro conjI)
  have sys: "wsys_ok (rSys s)" by (rule wreach_ok[OF life_wreach[OF assms]])
  then show "\<not> panicked (rWatch s)" by (simp add: wsys_ok_def watcher_ok_def)
  show "\<forall>i since c. wClosed (rWatch s) \<and> (i, Blocked since c) \<in> set (waiters (rSys s)) \<longrightarrow>
       wake_ready c ByStop ctx (rWatch s) \<and> wait_end ByStop (rWatch s) = (wRev (rWatch s), False)"
    using sys by (simp add: wsys_ok_def watcher_ok_def current_def)
  have ok: "life_ok s" by (rule life_invariant[OF assms(2)])
  then show "rPhase s = ShuttingDown \<or> (\<exists>r. rPhase s = Finished r) \<longrightarrow> rPoller s = Ended \<and> wClosed (rWatch s)"
    and "rPhase s = Finished None \<longrightarrow> rServe s = Some None \<or> rCtx s \<and> \<not> blocked s"
    by (auto simp: life_ok_def released_def)
  show "rCtx s \<and> (\<nexists>r. rPhase s = Finished r) \<longrightarrow> (\<exists>s'. run_step s s') \<or>
       (\<exists>k s'. rPhase s = Waiting k \<and> poller_step\<^sup>*\<^sup>* s s' \<and> rPoller s' = Ended \<and> rPhase s' = Waiting k)"
    using run_step_possible[OF ok] by blast
  show "steps_left (rPhase s) \<le> 7" by (cases "rPhase s") simp_all
qed (simp add: run_step_decreases)

text \<open>A run that a signal ends.\<close>

abbreviation ex_server :: "unit server" where
  "ex_server \<equiv> \<lparr>sAddr = '':8080'', sLongPollTimeout = 30000000000, sPollInterval = 1000000000, sStore = (),
     sWatcher = newRevisionWatcher\<rparr>"

definition ex_stopped :: running where
  "ex_stopped =
     \<lparr>rPhase = Finished None,
      rSys = \<lparr>watch = watcher_close (poll_once True (Inr 3) (watcher_close newRevisionWatcher)), waiters = []\<rparr>,
      rCtx = True, rPollCtx = True, rPoller = Ended, rServe = None\<rparr>"

lemma life_run: "life srv s \<Longrightarrow> run_step s s' \<Longrightarrow> life srv s'"
  by (blast intro: life.goes life_step.run)

lemma life_poller: "life srv s \<Longrightarrow> poller_step s s' \<Longrightarrow> life srv s'"
  by (blast intro: life.goes life_step.poller)

lemma ex_life: "life ex_server ex_stopped"
proof -
  note step = life_run
  note life.begins[of ex_server]
  note step[OF this run_step.start]
  note step[OF this[simplified initial_def, simplified] run_step.listen_ok]
  note life.goes[OF this life_step.signal]
  note step[OF this run_step.select_ctx]
  note step[OF this run_step.stop_close]
  note step[OF this run_step.stop_cancel]
  note life_poller[OF this poller_step.poll[where r = "Inr 3"]]
  note life_poller[OF this poller_step.ends]
  note step[OF this run_step.stop_wait]
  note step[OF this run_step.shutdown_ok]
  then show ?thesis
    by (simp add: initial_def ex_stopped_def set_watch_def poll_ctx_def blocked_def)
qed

theorem server_stops_witness:
  "rPoller ex_stopped = Ended \<and> wClosed (rWatch ex_stopped) \<and> rCtx ex_stopped \<and> \<not> panicked (rWatch ex_stopped)"
proof -
  have "newServer \<lparr>oAddr = [], oLongPollTimeout = 0, oPollInterval = 0, oStore = Some ()\<rparr> = Inr ex_server"
    by (simp add: newServer_def Or_def DefaultAddr_def ServerLongPollTimeout_def ServerPollInterval_def)
  from server_stops[OF this ex_life, of False] show ?thesis by (simp add: ex_stopped_def)
qed

end
