(* ===== verification/Start_Up.thy ===== *)
theory Start_Up
  imports Server_Lifecycle HTTP_Source
begin

text \<open>
  How things are opened and closed: \<open>run\<close> of \<open>cmd/lite-settings/main.go\<close>, and the constructors and
  \<open>Close\<close> of the client's sources in \<open>client/dbsource/dbsource.go\<close> and \<open>client/httpsource/httpsource.go\<close>.
  Connection pools are numbers; the ones that are open are part of the state. \<open>sql.Open\<close> may fail,
  which is the parameter \<open>sql_open\<close>.
\<close>

record pools =
  plOpen :: "nat list"
  plNext :: nat

type_synonym sql_opener = "string \<Rightarrow> string \<Rightarrow> string option"

definition open_pool :: "sql_opener \<Rightarrow> string \<Rightarrow> string \<Rightarrow> pools \<Rightarrow> (string + nat) \<times> pools" where
  "open_pool sql_open driver dsn p =
     (case sql_open driver dsn of
        Some err \<Rightarrow> (Inl err, p)
      | None \<Rightarrow> (Inr (plNext p), p\<lparr>plOpen := plNext p # plOpen p, plNext := plNext p + 1\<rparr>))"

definition close_pool :: "nat \<Rightarrow> pools \<Rightarrow> pools" where
  "close_pool n p = p\<lparr>plOpen := removeAll n (plOpen p)\<rparr>"

definition pools_ok :: "pools \<Rightarrow> bool" where
  "pools_ok p \<longleftrightarrow> (\<forall>n\<in>set (plOpen p). n < plNext p)"

lemma open_close_pool:
  "pools_ok p \<Longrightarrow> open_pool sql_open driver dsn p = (Inr n, p') \<Longrightarrow>
   plOpen (close_pool n p') = plOpen p \<and> n \<notin> set (plOpen p) \<and> n \<in> set (plOpen p') \<and> pools_ok p'"
  by (auto simp: open_pool_def close_pool_def pools_ok_def removeAll_id less_SucI split: option.splits)

text \<open>\<open>store.New\<close>: a \<open>DB\<close> is a dialect on a pool.\<close>

definition store_New :: "string \<Rightarrow> store_error + Dialect" where
  "store_New driver = (case DialectFor driver of Inl err \<Rightarrow> Inl err | Inr dia \<Rightarrow> Inr dia)"

section \<open>The database source\<close>

text \<open>The pool is there only when \<open>Open\<close> created it.\<close>

record db_source =
  dsDialect :: Dialect
  dsPool :: "nat option"

datatype source_error = SourceDriver store_error | SourceOpen string

definition dbsource_New :: "string \<Rightarrow> store_error + db_source" where
  "dbsource_New driver =
     (case store_New driver of Inl err \<Rightarrow> Inl err | Inr dia \<Rightarrow> Inr \<lparr>dsDialect = dia, dsPool = None\<rparr>)"

definition dbsource_Wrap :: "Dialect \<Rightarrow> db_source" where
  "dbsource_Wrap dia = \<lparr>dsDialect = dia, dsPool = None\<rparr>"

definition dbsource_Open :: "sql_opener \<Rightarrow> string \<Rightarrow> string \<Rightarrow> pools \<Rightarrow> (source_error + db_source) \<times> pools" where
  "dbsource_Open sql_open driver dsn p =
     (case SQLDriver driver of
        Inl err \<Rightarrow> (Inl (SourceDriver err), p)
      | Inr drv \<Rightarrow>
          (case open_pool sql_open drv (NormalizeDSN drv dsn) p of
             (Inl err, p') \<Rightarrow> (Inl (SourceOpen err), p')
           | (Inr n, p') \<Rightarrow>
               (case store_New drv of
                  Inl err \<Rightarrow> (Inl (SourceDriver err), close_pool n p')
                | Inr dia \<Rightarrow> (Inr \<lparr>dsDialect = dia, dsPool = Some n\<rparr>, p'))))"

definition dbsource_Close :: "db_source \<Rightarrow> pools \<Rightarrow> pools" where
  "dbsource_Close s p = (case dsPool s of None \<Rightarrow> p | Some n \<Rightarrow> close_pool n p)"

text \<open>\<open>Open\<close> leaves no pool behind when it fails, and \<open>Close\<close> closes what \<open>Open\<close> opened and nothing else.\<close>

lemma dbsource_pools:
  assumes "pools_ok p"
  shows "dbsource_Open sql_open driver dsn p = (Inl err, p') \<Longrightarrow> plOpen p' = plOpen p"
    and "dbsource_Open sql_open driver dsn p = (Inr s, p') \<Longrightarrow> plOpen (dbsource_Close s p') = plOpen p \<and> dsPool s \<noteq> None"
    and "dbsource_New driver = Inr s \<Longrightarrow> dbsource_Close s p = p"
    and "dbsource_Close (dbsource_Wrap dia) p = p"
  using assms open_close_pool[OF assms]
  by (auto simp: dbsource_Open_def dbsource_New_def dbsource_Wrap_def dbsource_Close_def open_pool_def
      split: sum.splits prod.splits option.splits)

section \<open>The HTTP source\<close>

text \<open>\<open>http.Client\<close>s are numbers, 0 the one that \<open>newPollClient\<close> makes.\<close>

record http_source =
  hsBase :: string
  hsClient :: nat
  hsOwn :: bool

type_synonym source_option = "http_source \<Rightarrow> http_source"

definition WithHTTPClient :: "nat \<Rightarrow> source_option" where
  "WithHTTPClient hc s = s\<lparr>hsClient := hc, hsOwn := False\<rparr>"

definition httpsource_New :: "string \<Rightarrow> source_option list \<Rightarrow> http_source" where
  "httpsource_New baseURL opts =
     fold (\<lambda>f s. f s) opts \<lparr>hsBase = source_base baseURL, hsClient = 0, hsOwn = True\<rparr>"

text \<open>The clients whose idle connections are closed.\<close>

definition httpsource_Close :: "http_source \<Rightarrow> nat list" where
  "httpsource_Close s = (if hsOwn s then [hsClient s] else [])"

text \<open>A client that the caller supplied is used, the last one of several, and never closed.\<close>

lemma httpsource_clients:
  "httpsource_Close (httpsource_New baseURL (map WithHTTPClient hcs)) = (if hcs = [] then [0] else [])"
  "hsClient (httpsource_New baseURL (map WithHTTPClient hcs)) = (if hcs = [] then 0 else last hcs)"
  by (induction hcs rule: rev_induct) (simp_all add: httpsource_New_def httpsource_Close_def WithHTTPClient_def)

section \<open>The server's process\<close>

text \<open>
  \<open>slog.Level.UnmarshalText\<close>: a name in any case, then a signed offset. Upper case is Unicode's, so the
  dotless i, the one other character whose upper case is in one of the names, passes for an i.
\<close>

fun ToUpper :: "string \<Rightarrow> string" where
  "ToUpper (c # d # s) =
     (if c = CHR 0xC4 \<and> d = CHR 0xB1 then CHR ''I'' # ToUpper s
      else (if CHR ''a'' \<le> c \<and> c \<le> CHR ''z'' then char_of (of_char c - 32 :: nat) else c) # ToUpper (d # s))"
| "ToUpper s = map (\<lambda>c. if CHR ''a'' \<le> c \<and> c \<le> CHR ''z'' then char_of (of_char c - 32 :: nat) else c) s"

definition level_of_name :: "string \<Rightarrow> int option" where
  "level_of_name s =
     map_of [(''DEBUG'', -4), (''INFO'', 0), (''WARN'', 4), (''ERROR'', 8)] (ToUpper s)"

definition parseLevel :: "string \<Rightarrow> int option" where
  "parseLevel s =
     (let name = takeWhile (\<lambda>c. c \<noteq> CHR ''+'' \<and> c \<noteq> CHR ''-'') s; rest = drop (length name) s;
          offset = (if rest = [] then Some 0 else ParseInt 64 rest)
      in case (offset, level_of_name name) of
           (Some n, Some l) \<Rightarrow> Some (signed_take_bit 63 (l + n))
         | _ \<Rightarrow> None)"

lemma parseLevel_examples:
  "parseLevel ''info'' = Some 0" "parseLevel ''WARN'' = Some 4" "parseLevel ''verbose'' = None" "parseLevel [] = None"
  by (simp_all add: parseLevel_def level_of_name_def Let_def less_eq_char_def char_of_def bit_Suc_0_iff)

record server_flags =
  fDSN :: string
  fDriver :: string
  fAddr :: string
  fPoll :: int
  fLongPoll :: int
  fMigrate :: bool
  fLogLevel :: string

text \<open>The values without arguments.\<close>

definition default_flags :: server_flags where
  "default_flags =
     \<lparr>fDSN = [], fDriver = ''mysql'', fAddr = DefaultAddr, fPoll = ServerPollInterval,
      fLongPoll = ServerLongPollTimeout, fMigrate = True, fLogLevel = ''info''\<rparr>"

datatype main_error =
  DSNRequired
| BadLevel string
| BadDriver store_error
| OpenFailed string
| PingFailed string
| StoreFailed store_error
| MigrateFailed store_error
| BadOptions options_error
| RunFailed string

text \<open>
  What surrounds the process: opening and pinging the database, the environment of the migration's
  statements, the migration files, and how a server's \<open>Run\<close> ends.
\<close>

record process =
  prOpen :: sql_opener
  prPing :: "string option"
  prDB :: dbenv
  prFiles :: "string \<Rightarrow> string list"
  prRun :: "Dialect server \<Rightarrow> string option"

text \<open>What comes after the pool was opened, whose \<open>Close\<close> is deferred.\<close>

definition serve_store :: "server_flags \<Rightarrow> process \<Rightarrow> string \<Rightarrow> db \<Rightarrow> (main_error + Dialect server) \<times> db" where
  "serve_store f pr drv d =
     (case prPing pr of
        Some err \<Rightarrow> (Inl (PingFailed err), d)
      | None \<Rightarrow>
          (case store_New drv of
             Inl err \<Rightarrow> (Inl (StoreFailed err), d)
           | Inr dia \<Rightarrow>
               (case (if fMigrate f then Migrate (prDB pr) (prFiles pr) dia d else (Inr (), d)) of
                  (Inl err, d') \<Rightarrow> (Inl (MigrateFailed err), d')
                | (Inr _, d') \<Rightarrow>
                    (case newServer \<lparr>oAddr = fAddr f, oLongPollTimeout = fLongPoll f, oPollInterval = fPoll f,
                           oStore = Some dia\<rparr> of
                       Inl err \<Rightarrow> (Inl (BadOptions err), d')
                     | Inr srv \<Rightarrow> (case prRun pr srv of Some err \<Rightarrow> (Inl (RunFailed err), d') | None \<Rightarrow> (Inr srv, d'))))))"

definition main_run :: "server_flags \<Rightarrow> process \<Rightarrow> pools \<times> db \<Rightarrow> (main_error + Dialect server) \<times> pools \<times> db" where
  "main_run f pr s =
     (if fDSN f = [] then (Inl DSNRequired, s)
      else case parseLevel (fLogLevel f) of None \<Rightarrow> (Inl (BadLevel (fLogLevel f)), s)
      | Some lvl \<Rightarrow>
          (case SQLDriver (fDriver f) of Inl err \<Rightarrow> (Inl (BadDriver err), s)
           | Inr drv \<Rightarrow>
               (case open_pool (prOpen pr) drv (NormalizeDSN drv (fDSN f)) (fst s) of
                  (Inl err, p) \<Rightarrow> (Inl (OpenFailed err), p, snd s)
                | (Inr n, p) \<Rightarrow>
                    (case serve_store f pr drv (snd s) of (r, d) \<Rightarrow> (r, close_pool n p, d)))))"

text \<open>The exit code, and whether a message is printed.\<close>

definition lite_main :: "server_flags \<Rightarrow> process \<Rightarrow> pools \<times> db \<Rightarrow> nat \<times> bool" where
  "lite_main f pr s = (case fst (main_run f pr s) of Inl _ \<Rightarrow> (1, True) | Inr _ \<Rightarrow> (0, False))"

text \<open>
  No pool outlives the process's \<open>run\<close>; the database is changed by the migration only, and not at all
  with \<open>--migrate=false\<close>; what runs is a server on the dialect of the driver that was named.
\<close>

lemma main_run_pools: "pools_ok p \<Longrightarrow> plOpen (fst (snd (main_run f pr (p, d)))) = plOpen p"
  using open_close_pool
  by (fastforce simp: main_run_def open_pool_def split: sum.splits option.splits prod.splits)

lemma serve_store_database:
  "serve_store f pr drv d = (r, d') \<Longrightarrow>
   d' = d \<or> fMigrate f \<and> (\<exists>dia. store_New drv = Inr dia \<and> d' = snd (Migrate (prDB pr) (prFiles pr) dia d))"
  by (auto simp: serve_store_def split: option.splits sum.splits prod.splits if_splits)

lemma main_run_server:
  "fst (main_run f pr s) = Inr srv \<Longrightarrow>
   SQLDriver (fDriver f) = Inr drv \<Longrightarrow> store_New drv = Inr (sStore srv) \<and> 0 < sPollInterval srv \<and> prRun pr srv = None"
  by (auto simp: main_run_def serve_store_def dest: newServer_positive split: option.splits sum.splits prod.splits if_splits)

end
