(* ===== verification/Lsctl_Main.thy ===== *)
theory Lsctl_Main
  imports Ui_Command Start_Up
begin

text \<open>
  The process of \<open>lsctl\<close> (\<open>cmd/lsctl/internal/command/root.go\<close>, \<open>cmd/lsctl/main.go\<close>): the commands
  with their names and numbers of arguments, the global flags with their defaults from the
  environment, the order of checks, the backend that is opened at most once and closed at the end, and
  the exit code. \<open>cobra\<close> splits the command line into what an \<open>invocation\<close> holds, or refuses it.
\<close>

section \<open>Command line\<close>

datatype command =
  CmdGet | CmdList | CmdSet | CmdRm | CmdHistory | CmdDiff | CmdRollback | CmdUI | CmdMigrate

text \<open>\<open>newRootCmd\<close>, with the aliases.\<close>

definition find_command :: "string \<Rightarrow> command option" where
  "find_command name = map_of
     [(''get'', CmdGet), (''list'', CmdList), (''ls'', CmdList), (''set'', CmdSet), (''rm'', CmdRm), (''delete'', CmdRm),
      (''history'', CmdHistory), (''log'', CmdHistory), (''diff'', CmdDiff), (''rollback'', CmdRollback),
      (''ui'', CmdUI), (''tui'', CmdUI), (''migrate'', CmdMigrate)] name"

text \<open>\<open>Args\<close> of each command: the least and the greatest number, if there is one.\<close>

fun command_args :: "command \<Rightarrow> nat \<times> nat option" where
  "command_args CmdGet = (1, Some 1)"
| "command_args CmdList = (0, None)"
| "command_args CmdSet = (1, Some 2)"
| "command_args CmdRm = (1, Some 1)"
| "command_args CmdHistory = (1, Some 1)"
| "command_args CmdDiff = (2, Some 3)"
| "command_args CmdRollback = (1, Some 1)"
| "command_args CmdUI = (0, None)"
| "command_args CmdMigrate = (0, None)"

definition args_ok :: "command \<Rightarrow> nat \<Rightarrow> bool" where
  "args_ok c n = (case command_args c of (lo, hi) \<Rightarrow> lo \<le> n \<and> (case hi of None \<Rightarrow> True | Some m \<Rightarrow> n \<le> m))"

text \<open>The flags of the single commands; \<open>--to\<close> has to be given.\<close>

record cmd_flags =
  cfVersion :: int
  cfLimit :: int
  cfFile :: string
  cfFormat :: string
  cfMessage :: string
  cfDryRun :: bool
  cfTo :: "int option"


text \<open>Global flags as given; what is not given comes from the environment.\<close>

record given_flags =
  gvServer :: "string option"
  gvDSN :: "string option"
  gvDriver :: "string option"
  gvAuthor :: "string option"
  gvOutput :: "string option"

definition given_or :: "string option \<Rightarrow> string \<Rightarrow> string" where
  "given_or g d = (case g of None \<Rightarrow> d | Some x \<Rightarrow> x)"

text \<open>\<open>os.Getenv\<close> gives the empty string for what is not set; \<open>user\<close> is the name of \<open>user.Current\<close>, empty on failure.\<close>

definition addGlobalFlags :: "(string \<Rightarrow> string) \<Rightarrow> string \<Rightarrow> given_flags \<Rightarrow> flags" where
  "addGlobalFlags getenv user g =
     \<lparr>flServer = given_or (gvServer g) (getenv ''LSCTL_SERVER''),
      flDSN = given_or (gvDSN g) (getenv ''LSCTL_DSN''),
      flDriver = given_or (gvDriver g) (getenv ''LSCTL_DRIVER''),
      flAuthor = given_or (gvAuthor g) (default_author (getenv ''LSCTL_AUTHOR'') user (getenv ''USER'')),
      flOutput = given_or (gvOutput g) []\<rparr>"

record invocation =
  ivName :: string
  ivArgs :: "string list"
  ivGlobal :: given_flags
  ivFlags :: cmd_flags
  ivHelp :: bool

section \<open>Running a command\<close>

definition command_body ::
    "inputs \<Rightarrow> render_env \<Rightarrow> flags \<Rightarrow> cmd_flags \<Rightarrow> command \<Rightarrow> string list \<Rightarrow> 's backend \<Rightarrow> ('s, unit) cmd" where
  "command_body inp re r f c args be =
     (case c of
        CmdGet \<Rightarrow> getCmd re r be (args ! 0) (cfVersion f)
      | CmdList \<Rightarrow> listCmd r be args
      | CmdSet \<Rightarrow> setCmd inp r be (cfFile f) (cfFormat f) (cfMessage f) (cfDryRun f) args
      | CmdRm \<Rightarrow> rmCmd r be (cfMessage f) (args ! 0)
      | CmdHistory \<Rightarrow> historyCmd re r be (args ! 0) (cfLimit f)
      | CmdDiff \<Rightarrow> diffCmd r be (args ! 0) (args ! 1) (if length args = 3 then Some (args ! 2) else None)
      | CmdRollback \<Rightarrow> rollbackCmd r be (case cfTo f of None \<Rightarrow> 0 | Some n \<Rightarrow> n) (cfMessage f) (args ! 0)
      | CmdMigrate \<Rightarrow> migrateCmd be
      | CmdUI \<Rightarrow> ret ())"

datatype lsctl_error = BadUsage | CommandFailed cmd_error | UiFailed ui_cmd_error

text \<open>
  What surrounds the process. \<open>lpRender\<close> depends on the backend: the JSON text of an instant names a
  time zone, the server's over HTTP and the driver's with a DSN. \<open>lpErrorText\<close> is the text of an
  error, which may name anything (the address, the statement); \<open>lpHelp\<close> is cobra's help. \<open>lpProgram\<close>
  runs the interface on a backend: the state it leaves the backend in and the model it ends with, or
  none if it fails.
\<close>

record 's lsctl_env =
  lpGetenv :: "string \<Rightarrow> string"
  lpUser :: string
  lpOpen :: "string \<Rightarrow> string \<Rightarrow> bool"
  lpInputs :: inputs
  lpRender :: "selection \<Rightarrow> render_env"
  lpErrorText :: "invocation \<Rightarrow> 's \<Rightarrow> lsctl_error \<Rightarrow> string"
  lpHelp :: "string \<Rightarrow> string"
  lpBackend :: "selection \<Rightarrow> 's backend"
  lpTTY :: "bool option"
  lpProgram :: "'s backend \<Rightarrow> Model \<Rightarrow> 's \<Rightarrow> Model option \<times> 's"
  lpZero :: int

text \<open>Opening the backend takes a connection pool for a database; \<open>close\<close> gives it back.\<close>

definition open_backend :: "selection \<Rightarrow> pools \<Rightarrow> nat option \<times> pools" where
  "open_backend sel p =
     (case sel of
        SelHTTP _ \<Rightarrow> (None, p)
      | SelDB _ \<Rightarrow> (Some (plNext p), p\<lparr>plOpen := plNext p # plOpen p, plNext := plNext p + 1\<rparr>))"

definition root_close :: "nat option \<Rightarrow> pools \<Rightarrow> pools" where
  "root_close be p = (case be of None \<Rightarrow> p | Some n \<Rightarrow> close_pool n p)"

text \<open>The command's \<open>RunE\<close>: its result, the pool that was opened, and the state.\<close>

definition run_command ::
    "'s lsctl_env \<Rightarrow> flags \<Rightarrow> cmd_flags \<Rightarrow> command \<Rightarrow> string list \<Rightarrow> pools \<Rightarrow> 's \<times> io \<Rightarrow>
     (lsctl_error + unit) \<times> nat option \<times> pools \<times> 's \<times> io" where
  "run_command e r f c args p st =
     (if c = CmdUI then
        (case requireTTY (lpTTY e) of
           Some err \<Rightarrow> (Inl (UiFailed err), None, p, st)
         | None \<Rightarrow>
             (case select_backend (lpOpen e) r of
                Inl err \<Rightarrow> (Inl (CommandFailed err), None, p, st)
              | Inr sel \<Rightarrow>
                  (case (open_backend sel p, lpProgram e (lpBackend e sel) (NewModel (lpZero e) (flAuthor r) args) (fst st)) of
                     ((n, p'), (None, s')) \<Rightarrow> (Inl (UiFailed UiProgram), n, p', (s', snd st))
                   | ((n, p'), (Some final, s')) \<Rightarrow>
                       (Inr (), n, p', (s', (snd st)\<lparr>stderr := stderr (snd st) @ map line (mWrites final)\<rparr>)))))
      else if \<not> ValidOutput (flOutput r) then (Inl (CommandFailed (BadOutput (flOutput r))), None, p, st)
      else (case select_backend (lpOpen e) r of
              Inl err \<Rightarrow> (Inl (CommandFailed err), None, p, st)
            | Inr sel \<Rightarrow>
                (case (open_backend sel p, command_body (lpInputs e) (lpRender e sel) r f c args (lpBackend e sel) st) of
                   ((n, p'), (Inl err, st')) \<Rightarrow> (Inl (CommandFailed err), n, p', st')
                 | ((n, p'), (Inr _, st')) \<Rightarrow> (Inr (), n, p', st'))))"

definition print_help :: "'s lsctl_env \<Rightarrow> string \<Rightarrow> 's \<times> io \<Rightarrow> 's \<times> io" where
  "print_help e name st = (fst st, (snd st)\<lparr>stdout := stdout (snd st) @ [Text (lpHelp e name)]\<rparr>)"

text \<open>\<open>cmd.Execute\<close>: unknown commands, missing flags and wrong numbers of arguments never reach a command.\<close>

definition execute_command ::
    "'s lsctl_env \<Rightarrow> invocation \<Rightarrow> pools \<Rightarrow> 's \<times> io \<Rightarrow> (lsctl_error + unit) \<times> nat option \<times> pools \<times> 's \<times> io" where
  "execute_command e iv p st =
     (if ivName iv = [] then (Inr (), None, p, print_help e [] st)
      else case find_command (ivName iv) of
        None \<Rightarrow> (Inl BadUsage, None, p, st)
      | Some c \<Rightarrow>
          if ivHelp iv then (Inr (), None, p, print_help e (ivName iv) st)
          else if \<not> args_ok c (length (ivArgs iv)) \<or> c = CmdRollback \<and> cfTo (ivFlags iv) = None
          then (Inl BadUsage, None, p, st)
          else run_command e (addGlobalFlags (lpGetenv e) (lpUser e) (ivGlobal iv)) (ivFlags iv) c (ivArgs iv) p st)"

fun exit_code :: "lsctl_error + unit \<Rightarrow> nat" where
  "exit_code (Inr x) = 0"
| "exit_code (Inl (CommandFailed err)) = exit_status (Inl err)"
| "exit_code (Inl BadUsage) = exitError"
| "exit_code (Inl (UiFailed err)) = exitError"

text \<open>\<open>Execute\<close>: the backend is closed, an error is printed on a line of standard error.\<close>

definition error_line :: "'s lsctl_env \<Rightarrow> invocation \<Rightarrow> lsctl_error + unit \<Rightarrow> 's \<times> io \<Rightarrow> 's \<times> io" where
  "error_line e iv r st =
     (case r of
        Inr _ \<Rightarrow> st
      | Inl err \<Rightarrow> (fst st, (snd st)\<lparr>stderr := stderr (snd st) @ [line (''lsctl: '' @ lpErrorText e iv (fst st) err)]\<rparr>))"

definition Execute :: "'s lsctl_env \<Rightarrow> invocation \<Rightarrow> pools \<Rightarrow> 's \<times> io \<Rightarrow> nat \<times> pools \<times> 's \<times> io" where
  "Execute e iv p st =
     (case execute_command e iv p st of (r, n, p', st') \<Rightarrow> (exit_code r, root_close n p', error_line e iv r st'))"

section \<open>Lemmas\<close>






text \<open>Help and mistakes in the command line need no backend: nothing is opened and no state changes.\<close>

lemma lsctl_usage:
  assumes "ivHelp iv \<or> find_command (ivName iv) = None \<or>
    (\<exists>c. find_command (ivName iv) = Some c \<and> \<not> args_ok c (length (ivArgs iv)))"
  shows "fst (snd (Execute e iv p st)) = p" "fst (snd (snd (Execute e iv p st))) = fst st"
  using assms by (auto simp: Execute_def execute_command_def root_close_def error_line_def print_help_def
      split: option.splits)

text \<open>Both backends, or none, named in flags and environment together: refused before anything happens.\<close>

lemma lsctl_one_backend:
  assumes "find_command (ivName iv) = Some c" "\<not> ivHelp iv"
    and "(flServer r = []) = (flDSN r = [])" "r = addGlobalFlags (lpGetenv e) (lpUser e) (ivGlobal iv)"
  shows "fst (Execute e iv p st) = 1 \<and> fst (snd (Execute e iv p st)) = p \<and> fst (snd (snd (Execute e iv p st))) = fst st \<or>
    ivName iv = []"
  using assms
  by (auto simp: error_line_def Execute_def execute_command_def run_command_def select_backend_def root_close_def exit_status_def
      is_not_found_def exitError_def split: option.splits)

section \<open>Either backend\<close>








text \<open>An invocation with \<open>--server\<close>, and the same one with \<open>--dsn\<close>.\<close>

definition with_server :: "string \<Rightarrow> invocation \<Rightarrow> invocation" where
  "with_server url iv = iv\<lparr>ivGlobal := (ivGlobal iv)\<lparr>gvServer := Some url, gvDSN := Some []\<rparr>\<rparr>"

definition with_dsn :: "string \<Rightarrow> invocation \<Rightarrow> invocation" where
  "with_dsn dsn iv = iv\<lparr>ivGlobal := (ivGlobal iv)\<lparr>gvServer := Some [], gvDSN := Some dsn\<rparr>\<rparr>"

lemma given_backend_simps [simp]:
  "ivName (with_server url iv) = ivName iv" "ivName (with_dsn dsn iv) = ivName iv"
  "ivArgs (with_server url iv) = ivArgs iv" "ivArgs (with_dsn dsn iv) = ivArgs iv"
  "ivFlags (with_server url iv) = ivFlags iv" "ivFlags (with_dsn dsn iv) = ivFlags iv"
  "ivHelp (with_server url iv) = ivHelp iv" "ivHelp (with_dsn dsn iv) = ivHelp iv"
  by (simp_all add: with_server_def with_dsn_def)

lemma find_command_Nil [simp]: "find_command [] = None"
  by (simp add: find_command_def)










end
