(* ===== verification/Spec2Isabelle.thy ===== *)
theory Spec2Isabelle
  imports Store_Tx System_Props Server_Props Client_Decode_Props Lsctl_Main
begin

text \<open>
  A verification development for \<open>lite_settings\<close>, a configuration service in Go.

  \<^bold>\<open>The program.\<close> Configurations are rows of a database (MySQL or PostgreSQL). Package \<open>store\<close> is
  the only writer: every write is one transaction that raises a global revision, changes the row
  and appends to the key's history. The server (\<open>server\<close>, started by \<open>cmd/lite-settings\<close>) offers the
  store over HTTP; one poller watches the revision and wakes the long polls when it moves. The
  client (\<open>client\<close>) holds an immutable snapshot of the rows under its prefixes, replaced whole by
  its refresh loop, which polls a source: the database (\<open>client/dbsource\<close>) or the server
  (\<open>client/httpsource\<close>). It calls watchers, keeps a fallback file and decodes values into types.
  The administration tool (\<open>cmd/lsctl\<close>) works on the database or through the server, with commands
  and with an interactive terminal interface.

  \<^bold>\<open>Conventions.\<close> A Go string is a list of bytes, compared byte by byte. A struct is a record, an enum
  or a set of sentinel errors a datatype, an error result a sum whose left part is the error; an
  operation that changes state is a function from a state to a result and the state it leaves, also
  where it fails (\<open>act\<close>, \<open>andThen\<close> in \<^theory_text>\<open>Prelude\<close>). A machine integer is an \<open>int\<close> with the wrap-around
  written out (\<open>int64\<close>, \<open>int32\<close>) or, for decoded values, a word. Goroutines and outside events are
  rules of an inductive step relation, and their interleavings its runs. A Go panic (an index out
  of range, a channel closed twice) is a value of the model, and the properties exclude it.

  \<^bold>\<open>Theories and sources.\<close>

  \<^item> \<^theory_text>\<open>Prelude\<close>, \<^theory_text>\<open>GoLib\<close>, \<^theory_text>\<open>GoNum\<close>, \<^theory_text>\<open>GoDuration\<close>, \<^theory_text>\<open>Url\<close>, \<^theory_text>\<open>JsonText\<close>, \<^theory_text>\<open>Json_Codec\<close>: shared notions and what the
    program uses of Go's standard library (\<open>strings\<close>, \<open>strconv\<close>, \<open>slices.BinarySearch\<close>,
    \<open>time.ParseDuration\<close>, \<open>net/url\<close>, \<open>encoding/json\<close>), with round trips: what is printed is parsed back.
  \<^item> \<^theory_text>\<open>Store_Types\<close> (\<open>store/errors.go\<close>, \<open>validate.go\<close>, the types of \<open>store.go\<close>), \<^theory_text>\<open>Store_Dialect\<close>
    (\<open>dialect.go\<close>, \<open>mysql.go\<close>, \<open>postgres.go\<close>), \<^theory_text>\<open>Store_DSN\<close> (\<open>dsn.go\<close>, \<open>migrations.go\<close>), \<^theory_text>\<open>Store_DB\<close>
    (\<open>store.go\<close>: the tables, every statement, every operation). \<^theory_text>\<open>Store_Spec\<close> gives the net effect of
    each operation, \<^theory_text>\<open>Store_Inv\<close> the consistency of the tables, \<^theory_text>\<open>Store_Ops\<close> the runs of operations and
    what is read, \<^theory_text>\<open>Store_Props\<close> the properties C1 to C8 but C6. \<^theory_text>\<open>Store_Tx\<close> takes \<open>DB.write\<close> apart into
    statements, interleaves any number of writes under the row lock of the revision, and shows that
    they are writes one after the other (C6), which is how all other theories see them.
  \<^item> \<^theory_text>\<open>Client_View\<close> (\<open>client/wire.go\<close>, \<open>view.go\<close>, \<open>group.go\<close>), \<^theory_text>\<open>Wire\<close> (the snapshot as JSON), \<^theory_text>\<open>Client_Core\<close>
    (\<open>client.go\<close>, \<open>fallback.go\<close>: start, refresh loop, callbacks, statistics), \<^theory_text>\<open>Client_Inv\<close> and
    \<^theory_text>\<open>Client_Props\<close> (C9 to C16), \<^theory_text>\<open>Client_Decode\<close> (\<open>decode.go\<close> and the decode cache) with its properties
    C39 and C40 in \<^theory_text>\<open>Client_Decode_Props\<close>.
  \<^item> \<^theory_text>\<open>Server_Watcher\<close> (\<open>server/revision_watcher.go\<close>, C17), \<^theory_text>\<open>Server_Handler\<close> (\<open>handler.go\<close>, \<open>api/api.go\<close>),
    \<^theory_text>\<open>Server_Props\<close> (C18 to C21), \<^theory_text>\<open>Server_Lifecycle\<close> (\<open>server.go\<close>: options, the start and the order of the
    shutdown, C31), \<^theory_text>\<open>Start_Up\<close> (\<open>cmd/lite-settings/main.go\<close>; opening and closing of the sources).
  \<^item> \<^theory_text>\<open>Contracts\<close> states the two interfaces of the refresh protocol as locales: a store whose revision
    rises when its rows change, and a source whose snapshots are never labelled too high.
    \<^theory_text>\<open>DB_Source\<close> (\<open>dbsource.go\<close>) and \<^theory_text>\<open>HTTP_Source\<close> (\<open>httpsource.go\<close>, down to the URL and the document
    of the answer) interpret them on the models of database and service; \<^theory_text>\<open>Client_Runs\<close> follows a
    client through polls, failures, restarts from its fallback file and writes of others (a locale,
    interpreted by both sources), \<^theory_text>\<open>System_Props\<close> composes client, source and store (C22 to C24).
  \<^item> \<^theory_text>\<open>Lsctl_Diff\<close> (\<open>render/diff.go\<close>) with \<^theory_text>\<open>Lsctl_Diff_Props\<close> (C25, C26; a reader of
    patches is the reference), \<^theory_text>\<open>Lsctl_Render\<close>
    (\<open>render/render.go\<close>), \<^theory_text>\<open>Api_Wire\<close> (the documents of the API), \<^theory_text>\<open>Lsctl_Backend\<close> (\<open>backend/db.go\<close>,
    \<open>backend/http.go\<close>) with \<^theory_text>\<open>Lsctl_Backend_Props\<close> (C27), \<^theory_text>\<open>Lsctl_Contract\<close> (the backend interface as a
    locale, interpreted by both backends, C28), \<^theory_text>\<open>Lsctl_Command\<close> (\<open>command/*.go\<close>) with
    \<^theory_text>\<open>Lsctl_Command_Props\<close> (C30, C32), \<^theory_text>\<open>Lsctl_Main\<close> (\<open>command/root.go\<close> and \<open>cmd/lsctl/main.go\<close>: the whole
    process, C29).
  \<^item> \<^theory_text>\<open>Ui_Draw\<close>, \<^theory_text>\<open>Ui_Model\<close>, \<^theory_text>\<open>Ui_View\<close> (\<open>ui/view.go\<close>, \<open>model.go\<close>, \<open>edit.go\<close>): the state of the interface,
    its \<open>Update\<close> with the tasks it starts, and the screen. \<^theory_text>\<open>Ui_Inv\<close> is the invariant of \<open>Update\<close>,
    \<^theory_text>\<open>Ui_Runs\<close> the runs with the tasks answered in any order, \<^theory_text>\<open>Ui_Contract\<close> what they do to a
    backend (a locale, interpreted on the database) against a machine that runs the equivalent
    commands, \<^theory_text>\<open>Ui_Shown\<close> where what is shown comes from, \<^theory_text>\<open>Ui_Screen\<close> viewports and quoting,
    \<^theory_text>\<open>Ui_Props\<close> the properties C33 to C38, \<^theory_text>\<open>Ui_Command\<close> \<open>command/ui.go\<close>.

  \<^bold>\<open>What is proved.\<close> The store: tables stay consistent under any faults, writes are atomic with exactly
  determined results, concurrent writes are serial, reads return exactly what was written, rollbacks recover deleted values. The
  client: consistent reads of a prefix, exact notifications, watchers that never miss a change, a
  fallback file that is never torn, bounded backoff, typed reads that are exact and a cache that cannot
  be noticed. The server: no lost wake-up, labels never too high, a receipt only for the complete
  write that was asked for (a cancelled one may end in an empty 200), a shutdown that ends. Together: once
  nobody writes, a poll through either source brings a client that lived with the database, or whose
  revision differs from it, to the database's content. The tool: diffs read back as patches and are minimal,
  both backends and hence all commands agree up to the text of errors and the zone of JSON times, and the
  interactive interface always answers, shows what was fetched for the selected key, writes only what was
  confirmed under its diff, and does to the database exactly what the commands it displays would do
  with its comment added. Where the program falls short of what it says, a lemma beside the property
  shows it (\<open>cancelled_write_answered_200\<close>, \<open>foreign_fallback_kept\<close>, \<open>quit_leaves_file\<close> and others).

  \<^bold>\<open>Parameters.\<close> What is not under the repository's sources is an argument: faults, clock and collation
  of the database (\<open>dbenv\<close>), the YAML parser and the decoders of floating-point numbers, fractions of
  durations and structured types (\<open>codecs\<close>), faults of the file system and panics of callbacks (\<open>clienv\<close>), random
  numbers of the jitter, texts of instants (\<open>timecodec\<close>), texts of errors, widths of characters (\<open>runewidth\<close>), the editor and
  whether a file can be removed, the network between client and server, \<open>sql.Open\<close>. Hypotheses about them
  are named (\<open>time_ok\<close>, \<open>same_render\<close>, \<open>fair_order\<close>) and state their documentation; every property with hypotheses has a witness
  at concrete values.

  \<^bold>\<open>Bounds and fuel.\<close> The JSON reader has its own nesting limit of 10000, as in Go, and its fuel is the
  length of the text, which \<open>jvalue_fuel\<close> shows to be enough. The poll of a source is given the rounds
  it makes; \<open>None\<close> is a poll that still waits. The row search of the interface is a partial function
  and C33 shows that it returns. All other loops are total, with termination proofs.

  \<^bold>\<open>Not modelled.\<close> How wide a row of the screen is; texts of error messages and log lines; colours; alignment of tables and indentation
  of JSON; parsing of the command line (\<open>cobra\<close>, \<open>flag\<close>); settings of connection pools and of the HTTP
  transport; \<open>http.Server\<close> beyond when it fails; the test fixtures
  \<open>internal/testdb\<close> and \<open>backendtest\<close>, which are not part of the program. Of the databases'
  isolation \<^theory_text>\<open>Store_Tx\<close> assumes the row lock and that a transaction sees what is committed and its own
  changes.

  \<^bold>\<open>Plan.\<close> Every component is modelled. Open: the refresh loop of the client against a server that
  shuts down and comes back.
\<close>

end
